(* ===== verification/Nethub_Prelude.thy ===== *)
theory Nethub_Prelude
  imports Main "HOL-Library.Word" "HOL-Library.AList"
begin

text \<open>
  The shared vocabulary of the development: byte strings, the outcome of a Go operation
  (it completes, it blocks on a channel, it panics), buffered channels, the part of
  package strings the code uses, and the interface of a keyed store (Go's sync.Map as the
  code wraps it: handler tables, property tables, client tables), with the lemmas every
  client of such a store needs.
\<close>

named_theorems outcome_simps "equations and inversions for the outcome type"
named_theorems chan_simps "sending on a buffered channel"

subsection \<open>Bytes and strings\<close>

text \<open>
  A Go string is a sequence of bytes, as an Isabelle string is (a char is 8 bits wide);
  a byte slice is a list of 8-bit words. The conversions string(b) and []byte(s) copy the
  bytes unchanged.
\<close>

type_synonym bytes = "8 word list"
type_synonym int64 = "64 word"

definition byte_of_char :: "char \<Rightarrow> 8 word" where
  "byte_of_char c = of_nat (of_char c)"

definition char_of_byte :: "8 word \<Rightarrow> char" where
  "char_of_byte b = char_of (unat b)"

definition bytes_of_string :: "string \<Rightarrow> bytes" where
  "bytes_of_string s = map byte_of_char s"

definition string_of_bytes :: "bytes \<Rightarrow> string" where
  "string_of_bytes b = map char_of_byte b"

lemma char_of_byte_inverse [simp]: "char_of_byte (byte_of_char c) = c"
proof -
  have "(of_char c :: nat) < 2 ^ 8" by simp
  then have "unat (of_nat (of_char c) :: 8 word) = of_char c"
    by (simp add: unat_of_nat)
  then show ?thesis by (simp add: char_of_byte_def byte_of_char_def)
qed

lemma byte_of_char_inverse [simp]: "byte_of_char (char_of_byte b) = b"
proof -
  have "unat b < 2 ^ 8" using unsigned_less [of b] by simp
  then show ?thesis by (simp add: char_of_byte_def byte_of_char_def)
qed

lemma string_of_bytes_of_string [simp]: "string_of_bytes (bytes_of_string s) = s"
  by (simp add: string_of_bytes_def bytes_of_string_def comp_def)

lemma bytes_of_string_of_bytes [simp]: "bytes_of_string (string_of_bytes b) = b"
  by (simp add: string_of_bytes_def bytes_of_string_def comp_def)

lemma length_bytes_of_string [simp]: "length (bytes_of_string s) = length s"
  by (simp add: bytes_of_string_def)

lemma bytes_of_string_append:
  "bytes_of_string (s @ t) = bytes_of_string s @ bytes_of_string t"
  by (simp add: bytes_of_string_def)

lemma string_of_bytes_append:
  "string_of_bytes (a @ b) = string_of_bytes a @ string_of_bytes b"
  by (simp add: string_of_bytes_def)

text \<open>A string literal of the source outside ASCII, given by its UTF-8 bytes.\<close>

definition utf8 :: "nat list \<Rightarrow> string" where
  "utf8 ns = map char_of ns"

subsection \<open>strings.Split and strings joined by a separator\<close>

text \<open>strings.Split (s, sep) for a separator of one byte; the result is never empty.\<close>

fun split_on :: "char \<Rightarrow> string \<Rightarrow> string list" where
  "split_on c [] = [[]]"
| "split_on c (x # xs) =
     (if x = c then [] # split_on c xs
      else (case split_on c xs of [] \<Rightarrow> [[x]] | y # ys \<Rightarrow> (x # y) # ys))"

fun join_with :: "char \<Rightarrow> string list \<Rightarrow> string" where
  "join_with c [] = []"
| "join_with c [x] = x"
| "join_with c (x # y # ys) = x @ c # join_with c (y # ys)"

lemma split_on_not_Nil [simp]: "split_on c s \<noteq> []"
  by (induction s) (auto split: list.splits)

lemma split_on_no_sep [simp]: "c \<notin> set s \<Longrightarrow> split_on c s = [s]"
  by (induction s) auto

lemma split_on_append_sep: "c \<notin> set a \<Longrightarrow> split_on c (a @ c # b) = a # split_on c b"
  by (induction a) auto

lemma split_on_append: "split_on c (a @ c # b) = split_on c a @ split_on c b"
  by (induction a) (auto split: list.splits)

lemma split_on_parts: "x \<in> set (split_on c s) \<Longrightarrow> c \<notin> set x"
  by (induction s arbitrary: x) (auto split: list.splits if_splits)

lemma join_split_on [simp]: "join_with c (split_on c s) = s"
proof (induction s)
  case (Cons x s)
  obtain y ys where "split_on c s = y # ys"
    using split_on_not_Nil [of c s] by (cases "split_on c s") auto
  with Cons show ?case by (cases ys) auto
qed simp

lemma split_on_join:
  "xs \<noteq> [] \<Longrightarrow> (\<And>x. x \<in> set xs \<Longrightarrow> c \<notin> set x) \<Longrightarrow> split_on c (join_with c xs) = xs"
  by (induction c xs rule: join_with.induct) (auto simp: split_on_append_sep)

lemma split_on_hd_prefix:
  "\<exists>t. s = hd (split_on c s) @ t \<and> (c \<in> set s \<longrightarrow> t \<noteq> [] \<and> hd t = c)"
proof (induction s)
  case (Cons x s)
  obtain y ys where "split_on c s = y # ys"
    using split_on_not_Nil [of c s] by (cases "split_on c s") auto
  with Cons show ?case by auto
qed simp

subsection \<open>Outcomes\<close>

text \<open>
  What a call can do: return (Done), wait for ever on a channel that has no room (Block),
  or panic with no recover around it (Panic, which ends the Go process).
\<close>

datatype 'a outcome = Done 'a | Block | Panic string

fun and_then :: "'a outcome \<Rightarrow> ('a \<Rightarrow> 'b outcome) \<Rightarrow> 'b outcome" where
  "and_then (Done a) f = f a"
| "and_then Block f = Block"
| "and_then (Panic e) f = Panic e"

lemma and_then_eq_Done [outcome_simps]:
  "and_then m f = Done b \<longleftrightarrow> (\<exists>a. m = Done a \<and> f a = Done b)"
  by (cases m) auto

lemma and_then_eq_Block [outcome_simps]:
  "and_then m f = Block \<longleftrightarrow> m = Block \<or> (\<exists>a. m = Done a \<and> f a = Block)"
  by (cases m) auto

lemma and_then_cong [fundef_cong]:
  "m = m' \<Longrightarrow> (\<And>a. m' = Done a \<Longrightarrow> f a = g a) \<Longrightarrow> and_then m f = and_then m' g"
  by (cases m') auto

lemma and_then_eqI: "(\<And>a. m = Done a \<Longrightarrow> f a = g a) \<Longrightarrow> and_then m f = and_then m g"
  by (cases m) auto

lemma and_then_assoc: "and_then (and_then m f) g = and_then m (\<lambda>a. and_then (f a) g)"
  by (cases m) auto

fun is_panic :: "'a outcome \<Rightarrow> bool" where
  "is_panic (Panic e) = True"
| "is_panic (Done a) = False"
| "is_panic Block = False"

lemma is_panic_and_then [outcome_simps]:
  "is_panic (and_then m f) \<longleftrightarrow> is_panic m \<or> (\<exists>a. m = Done a \<and> is_panic (f a))"
  by (cases m) auto

subsection \<open>Buffered channels\<close>

text \<open>A send on a channel with buffer size cap: it waits when the buffer is full.\<close>

definition chan_send :: "nat \<Rightarrow> 'a \<Rightarrow> 'a list \<Rightarrow> 'a list outcome" where
  "chan_send cap x q = (if length q < cap then Done (q @ [x]) else Block)"

lemma chan_send_Done [chan_simps]:
  "chan_send cap x q = Done q' \<longleftrightarrow> length q < cap \<and> q' = q @ [x]"
  by (auto simp: chan_send_def)

lemma chan_send_Block [chan_simps]: "chan_send cap x q = Block \<longleftrightarrow> cap \<le> length q"
  by (auto simp: chan_send_def)

lemma chan_send_no_panic [simp]: "\<not> is_panic (chan_send cap x q)" "chan_send cap x q \<noteq> Panic e"
  by (auto simp: chan_send_def)

subsection \<open>Keyed stores\<close>

text \<open>
  The operations the code calls on a table of named things, and what its callers rely on:
  a lookup sees the last registration under its own key and no other.
\<close>

locale keyed_store =
  fixes put :: "'k \<Rightarrow> 'v \<Rightarrow> 's \<Rightarrow> 's"
    and get :: "'k \<Rightarrow> 's \<Rightarrow> 'v option"
  assumes get_put_same: "get k (put k v s) = Some v"
    and get_put_other: "k \<noteq> k' \<Longrightarrow> get k' (put k v s) = get k' s"
begin

lemma get_put: "get k' (put k v s) = (if k' = k then Some v else get k' s)"
  by (auto simp: get_put_same get_put_other)

lemma put_twice: "get k' (put k v (put k w s)) = get k' (put k v s)"
  by (simp add: get_put)

lemma put_commute:
  "k1 \<noteq> k2 \<Longrightarrow> get k (put k1 v1 (put k2 v2 s)) = get k (put k2 v2 (put k1 v1 s))"
  by (simp add: get_put)

lemma get_fold_put:
  "get k (fold (\<lambda>(k, v). put k v) kvs s) =
     (case map_of (rev kvs) k of None \<Rightarrow> get k s | Some v \<Rightarrow> Some v)"
proof (induction kvs arbitrary: s)
  case (Cons kv kvs)
  then show ?case
    by (cases kv) (auto simp: get_put map_add_def split: option.splits)
qed simp

lemma get_fold_put_notin:
  "k \<notin> fst ` set kvs \<Longrightarrow> get k (fold (\<lambda>(k, v). put k v) kvs s) = get k s"
  by (simp add: get_fold_put map_of_eq_None_iff [THEN iffD2] rev_map [symmetric] split: option.splits)

end

text \<open>A store that can also forget a key (sync.Map Delete).\<close>

locale removable_store = keyed_store put get
  for put :: "'k \<Rightarrow> 'v \<Rightarrow> 's \<Rightarrow> 's" and get :: "'k \<Rightarrow> 's \<Rightarrow> 'v option" +
  fixes del :: "'k \<Rightarrow> 's \<Rightarrow> 's"
  assumes get_del_same: "get k (del k s) = None"
    and get_del_other: "k \<noteq> k' \<Longrightarrow> get k' (del k s) = get k' s"
begin

lemma get_del: "get k' (del k s) = (if k' = k then None else get k' s)"
  by (auto simp: get_del_same get_del_other)

lemma del_put: "get k' (del k (put k v s)) = get k' (del k s)"
  by (simp add: get_del get_put)

lemma put_del: "get k' (put k v (del k s)) = get k' (put k v s)"
  by (simp add: get_put get_del)

lemma get_fold_del: "get k (fold del ks s) = (if k \<in> set ks then None else get k s)"
  by (induction ks arbitrary: s) (auto simp: get_del)

end

text \<open>
  sync.Map itself, as the code uses it: a partial map with Load, Store, Delete,
  LoadOrStore and LoadAndDelete.
\<close>

definition sm_store :: "'k \<Rightarrow> 'v \<Rightarrow> ('k \<rightharpoonup> 'v) \<Rightarrow> ('k \<rightharpoonup> 'v)" where
  "sm_store k v m = m(k \<mapsto> v)"

definition sm_load :: "'k \<Rightarrow> ('k \<rightharpoonup> 'v) \<Rightarrow> 'v option" where
  "sm_load k m = m k"

definition sm_delete :: "'k \<Rightarrow> ('k \<rightharpoonup> 'v) \<Rightarrow> ('k \<rightharpoonup> 'v)" where
  "sm_delete k m = m(k := None)"

definition sm_load_or_store :: "'k \<Rightarrow> 'v \<Rightarrow> ('k \<rightharpoonup> 'v) \<Rightarrow> 'v \<times> bool \<times> ('k \<rightharpoonup> 'v)" where
  "sm_load_or_store k v m =
     (case m k of Some w \<Rightarrow> (w, True, m) | None \<Rightarrow> (v, False, m(k \<mapsto> v)))"

definition sm_load_and_delete :: "'k \<Rightarrow> ('k \<rightharpoonup> 'v) \<Rightarrow> 'v option \<times> ('k \<rightharpoonup> 'v)" where
  "sm_load_and_delete k m = (m k, m(k := None))"

lemmas sync_map_defs =
  sm_store_def sm_load_def sm_delete_def sm_load_or_store_def sm_load_and_delete_def

interpretation sync_map: removable_store sm_store sm_load sm_delete
  by unfold_locales (auto simp: sync_map_defs)

end
