(* ===== verification/Event_Listeners.thy ===== *)
theory Event_Listeners
  imports Nethub_Prelude
begin

text \<open>
  events.go: the named-event emitter (EventEmitter) and the single-event target
  (EventTarget) that connections and clients use for OnMessage, OnDisconnect, OnLogin and
  OnDispose. A callback is identified by the pointer reflect.Value compares; what calling
  it does is outside this component, so an emit is described by the callbacks it calls, in
  order. The slice of listeners is modelled with its backing array where the code removes
  elements in place.
\<close>

subsection \<open>Listeners\<close>

text \<open>The dynamic value behind the parameter of type interface{}.\<close>

datatype go_value = FuncValue nat | OtherValue string | NilValue

record event_listener =
  el_callback :: nat
  el_once :: bool

record event_emitter =
  em_listeners :: "string \<rightharpoonup> event_listener list"

definition NewEventEmitter :: event_emitter where
  "NewEventEmitter = \<lparr>em_listeners = Map.empty\<rparr>"

text \<open>reflect.TypeOf (nil) is a nil Type, and calling Kind on it panics.\<close>

fun isValidListener :: "go_value \<Rightarrow> string option outcome" where
  "isValidListener (FuncValue f) = Done None"
| "isValidListener (OtherValue ty) = Done (Some (ty @ '' is not a reflect.Func''))"
| "isValidListener NilValue = Panic ''nil pointer dereference''"

text \<open>Reading a missing key gives a nil slice.\<close>

definition listeners_of :: "string \<Rightarrow> event_emitter \<Rightarrow> event_listener list" where
  "listeners_of ev e = (case em_listeners e ev of None \<Rightarrow> [] | Some l \<Rightarrow> l)"

definition set_listeners ::
    "string \<Rightarrow> event_listener list \<Rightarrow> event_emitter \<Rightarrow> event_emitter" where
  "set_listeners ev l e = e\<lparr>em_listeners := (em_listeners e)(ev \<mapsto> l)\<rparr>"

text \<open>delete on the map of listeners.\<close>

definition delete_event :: "string \<Rightarrow> event_emitter \<Rightarrow> event_emitter" where
  "delete_event ev e = e\<lparr>em_listeners := (em_listeners e)(ev := None)\<rparr>"

definition add_with :: "bool \<Rightarrow> string \<Rightarrow> go_value \<Rightarrow> event_emitter
    \<Rightarrow> (string option \<times> event_emitter) outcome" where
  "add_with once ev v e =
     and_then (isValidListener v) (\<lambda>err.
       (case err of
          Some msg \<Rightarrow> Done (Some msg, e)
        | None \<Rightarrow>
            (case v of
               FuncValue f \<Rightarrow>
                 Done (None, set_listeners ev
                   (listeners_of ev e @ [\<lparr>el_callback = f, el_once = once\<rparr>]) e)
             | _ \<Rightarrow> Done (None, e))))"

definition AddListener :: "string \<Rightarrow> go_value \<Rightarrow> event_emitter
    \<Rightarrow> (string option \<times> event_emitter) outcome" where
  "AddListener ev v e = add_with False ev v e"

definition On :: "string \<Rightarrow> go_value \<Rightarrow> event_emitter
    \<Rightarrow> (string option \<times> event_emitter) outcome" where
  "On ev v e = AddListener ev v e"

definition Once :: "string \<Rightarrow> go_value \<Rightarrow> event_emitter
    \<Rightarrow> (string option \<times> event_emitter) outcome" where
  "Once ev v e = add_with True ev v e"

text \<open>The loop over the listeners with its first match, as an index.\<close>

fun find_callback :: "nat \<Rightarrow> nat \<Rightarrow> event_listener list \<Rightarrow> nat option" where
  "find_callback f i [] = None"
| "find_callback f i (el # els) =
     (if el_callback el = f then Some i else find_callback f (Suc i) els)"

definition RemoveListener :: "string \<Rightarrow> go_value \<Rightarrow> event_emitter
    \<Rightarrow> (string option \<times> event_emitter) outcome" where
  "RemoveListener ev v e =
     and_then (isValidListener v) (\<lambda>err.
       (case err of
          Some msg \<Rightarrow> Done (Some msg, e)
        | None \<Rightarrow>
            (case (em_listeners e ev, v) of
               (Some l, FuncValue f) \<Rightarrow>
                 (case find_callback f 0 l of
                    None \<Rightarrow> Done (None, e)
                  | Some i \<Rightarrow>
                      Done (None,
                        if length l = 1 then delete_event ev e
                        else set_listeners ev (take i l @ drop (i + 1) l) e))
             | _ \<Rightarrow> Done (None, e))))"

definition Off :: "string \<Rightarrow> go_value \<Rightarrow> event_emitter
    \<Rightarrow> (string option \<times> event_emitter) outcome" where
  "Off ev v e = RemoveListener ev v e"

definition RemoveAllListeners :: "string list \<Rightarrow> event_emitter \<Rightarrow> event_emitter" where
  "RemoveAllListeners evs e =
     (if evs \<noteq> [] then fold delete_event evs e else e\<lparr>em_listeners := Map.empty\<rparr>)"

subsection \<open>Emit\<close>

text \<open>
  Emit walks the slice with an index. Removing a once-listener is an append into the
  slice's own prefix, so it shifts the tail of the backing array in place: the array keeps
  its length and its last cell its old value, while the local slice gets one shorter. The
  map entry is not written, so it still denotes the whole array. The loop state is the
  array, the length n of the local slice, the index and the callbacks called so far.
\<close>

definition shift_out :: "nat \<Rightarrow> nat \<Rightarrow> 'a list \<Rightarrow> 'a list" where
  "shift_out i n arr = take i arr @ take (n - Suc i) (drop (Suc i) arr) @ drop (n - 1) arr"

lemma length_shift_out [simp]: "i < n \<Longrightarrow> n \<le> length arr \<Longrightarrow> length (shift_out i n arr) = length arr"
  by (auto simp: shift_out_def)

function emit_loop :: "event_listener list \<Rightarrow> nat \<Rightarrow> nat \<Rightarrow> nat list
    \<Rightarrow> nat list \<times> event_listener list" where
  "emit_loop arr n i calls =
     (if i < n then
        (let el = arr ! i in
         if el_once el then emit_loop (shift_out i n arr) (n - 1) i (calls @ [el_callback el])
         else emit_loop arr n (Suc i) (calls @ [el_callback el]))
      else (calls, arr))"
  by pat_completeness auto
termination
  by (relation "measure (\<lambda>(arr, n, i, calls). n - i)") auto

declare emit_loop.simps [simp del]

definition Emit :: "string \<Rightarrow> event_emitter \<Rightarrow> nat list \<times> event_emitter" where
  "Emit ev e =
     (case em_listeners e ev of
        None \<Rightarrow> ([], e)
      | Some l \<Rightarrow>
          (let (calls, arr) = emit_loop l (length l) 0 []
           in (calls, set_listeners ev arr e)))"

definition Listeners :: "string \<Rightarrow> event_emitter \<Rightarrow> nat list" where
  "Listeners ev e = (case em_listeners e ev of None \<Rightarrow> [] | Some l \<Rightarrow> map el_callback l)"

definition ListenerCount :: "string \<Rightarrow> event_emitter \<Rightarrow> nat" where
  "ListenerCount ev e = (case em_listeners e ev of None \<Rightarrow> 0 | Some l \<Rightarrow> length l)"

text \<open>EventNames ranges over the map in an unspecified order, so it is the set of names.\<close>

definition EventNames :: "event_emitter \<Rightarrow> string set" where
  "EventNames e = dom (em_listeners e)"

subsection \<open>EventTarget\<close>

text \<open>The lock around the slice makes both operations atomic.\<close>

record 'f event_target =
  et_listeners :: "'f list"

definition newEventTarget :: "'f event_target" where
  "newEventTarget = \<lparr>et_listeners = []\<rparr>"

definition AddEventListener :: "'f \<Rightarrow> 'f event_target \<Rightarrow> 'f event_target" where
  "AddEventListener f e = e\<lparr>et_listeners := et_listeners e @ [f]\<rparr>"

text \<open>RiseEvent runs the listeners in order on a state; run says what a listener does.\<close>

fun rise_listeners :: "('f \<Rightarrow> 's \<Rightarrow> 's outcome) \<Rightarrow> 'f list \<Rightarrow> 's \<Rightarrow> 's outcome" where
  "rise_listeners run [] s = Done s"
| "rise_listeners run (f # fs) s = and_then (run f s) (rise_listeners run fs)"

definition RiseEvent :: "('f \<Rightarrow> 's \<Rightarrow> 's outcome) \<Rightarrow> 'f event_target \<Rightarrow> 's \<Rightarrow> 's outcome" where
  "RiseEvent run e s = rise_listeners run (et_listeners e) s"

lemma rise_listeners_append:
  "rise_listeners run (fs @ gs) s = and_then (rise_listeners run fs s) (rise_listeners run gs)"
  by (induction fs arbitrary: s) (auto simp: and_then_assoc intro!: arg_cong2 [where f = and_then] ext)

text \<open>Listeners added in sequence run in the order they were added.\<close>

lemma RiseEvent_AddEventListener:
  "RiseEvent run (AddEventListener f e) s = and_then (RiseEvent run e s) (run f)"
proof -
  have "rise_listeners run [f] = run f"
    by (rule ext) (case_tac "run f x", auto)
  then show ?thesis
    by (simp add: RiseEvent_def AddEventListener_def rise_listeners_append)
qed

lemma RiseEvent_new [simp]: "RiseEvent run newEventTarget s = Done s"
  by (simp add: RiseEvent_def newEventTarget_def)

subsection \<open>What an emit calls and leaves behind\<close>

lemma take_shift_out [simp]: "i < n \<Longrightarrow> n \<le> length arr \<Longrightarrow> take i (shift_out i n arr) = take i arr"
  by (simp add: shift_out_def)

lemma segment_shift_out:
  "i < n \<Longrightarrow> n \<le> length arr \<Longrightarrow>
     take (n - Suc i) (drop i (shift_out i n arr)) = take (n - Suc i) (drop (Suc i) arr)"
  by (simp add: shift_out_def)

lemma segment_step:
  "i < n \<Longrightarrow> n \<le> length arr \<Longrightarrow>
     take (n - i) (drop i arr) = arr ! i # take (n - Suc i) (drop (Suc i) arr)"
  by (metis Cons_nth_drop_Suc Suc_diff_Suc less_le_trans take_Suc_Cons)

lemma emit_loop_calls:
  "n \<le> length arr \<Longrightarrow>
     fst (emit_loop arr n i calls) = calls @ map el_callback (take (n - i) (drop i arr))"
proof (induction arr n i calls rule: emit_loop.induct)
  case (1 arr n i calls)
  show ?case
  proof (cases "i < n")
    case True
    with 1 show ?thesis
      by (auto simp: emit_loop.simps [of arr n i] Let_def segment_step segment_shift_out)
  qed (simp add: emit_loop.simps [of arr n i])
qed

lemma emit_loop_array:
  "n \<le> length arr \<Longrightarrow> i \<le> n \<Longrightarrow>
     (let arr' = snd (emit_loop arr n i calls);
          keep = filter (\<lambda>el. \<not> el_once el) (take (n - i) (drop i arr))
      in length arr' = length arr \<and> take (i + length keep) arr' = take i arr @ keep)"
proof (induction arr n i calls rule: emit_loop.induct)
  case (1 arr n i calls)
  show ?case
  proof (cases "i < n")
    case True
    show ?thesis
    proof (cases "el_once (arr ! i)")
      case True
      with \<open>i < n\<close> 1 show ?thesis
        by (auto simp: emit_loop.simps [of arr n i] Let_def segment_step segment_shift_out)
    next
      case False
      with \<open>i < n\<close> 1 show ?thesis
        by (auto simp: emit_loop.simps [of arr n i] Let_def segment_step take_Suc_conv_app_nth)
    qed
  qed (simp add: emit_loop.simps [of arr n i])
qed

text \<open>Every listener present at the start is called exactly once, in order.\<close>

lemma Emit_calls: "fst (Emit ev e) = Listeners ev e"
  by (auto simp: Emit_def Listeners_def emit_loop_calls Let_def split: option.splits prod.splits
      dest: arg_cong [where f = fst])

lemma Emit_listeners:
  "let l' = listeners_of ev (snd (Emit ev e));
       keep = filter (\<lambda>el. \<not> el_once el) (listeners_of ev e)
   in length l' = length (listeners_of ev e) \<and> take (length keep) l' = keep"
proof (cases "em_listeners e ev")
  case None
  then show ?thesis by (simp add: Emit_def listeners_of_def)
next
  case (Some l)
  have "let arr' = snd (emit_loop l (length l) 0 []);
            keep = filter (\<lambda>el. \<not> el_once el) (take (length l - 0) (drop 0 l))
        in length arr' = length l \<and> take (0 + length keep) arr' = take 0 l @ keep"
    by (rule emit_loop_array) auto
  with Some show ?thesis
    by (auto simp: Emit_def listeners_of_def set_listeners_def Let_def split: prod.splits)
qed

lemma Emit_ListenerCount: "ListenerCount ev (snd (Emit ev e)) = ListenerCount ev e"
  using Emit_listeners [of ev e]
  by (auto simp: ListenerCount_def listeners_of_def Emit_def Let_def set_listeners_def
      split: option.splits prod.splits)

subsection \<open>Properties of the emitter\<close>

lemma add_with_Func:
  "add_with once ev (FuncValue f) e =
     Done (None, set_listeners ev (listeners_of ev e @ [\<lparr>el_callback = f, el_once = once\<rparr>]) e)"
  by (simp add: add_with_def)

lemma Listeners_set [simp]:
  "Listeners ev' (set_listeners ev l e) = (if ev' = ev then map el_callback l else Listeners ev' e)"
  by (simp add: Listeners_def set_listeners_def)

lemma Listeners_delete [simp]:
  "Listeners ev' (delete_event ev e) = (if ev' = ev then [] else Listeners ev' e)"
  by (simp add: Listeners_def delete_event_def)

lemma listeners_of_set [simp]: "listeners_of ev (set_listeners ev l e) = l"
  by (simp add: listeners_of_def set_listeners_def)

lemma set_listeners_twice [simp]: "set_listeners ev l (set_listeners ev l' e) = set_listeners ev l e"
  by (simp add: set_listeners_def)

lemma Listeners_of: "Listeners ev e = map el_callback (listeners_of ev e)"
  by (simp add: Listeners_def listeners_of_def split: option.splits)

text \<open>
  A listener registered with On or Once is called by the next emit of its event, once and
  after the listeners already there, and by no emit of another event.
\<close>

theorem registered_listener_called:
  "(\<exists>e'. On ev (FuncValue f) e = Done (None, e') \<and>
     fst (Emit ev' e') = fst (Emit ev' e) @ (if ev' = ev then [f] else [])) \<and>
   (\<exists>e'. Once ev (FuncValue f) e = Done (None, e') \<and>
     fst (Emit ev' e') = fst (Emit ev' e) @ (if ev' = ev then [f] else []))"
  by (auto simp: On_def AddListener_def Once_def add_with_Func Emit_calls Listeners_of [of ev])

text \<open>
  A once-listener outlives its emit. Removing it shifts the array without shortening the
  slice in the map: alone it stays registered and every later emit calls it again, and with a
  permanent listener behind it the permanent one ends up registered twice.
\<close>

theorem once_listener_stays:
  "(\<exists>e1. Once ev (FuncValue f) NewEventEmitter = Done (None, e1) \<and>
      (\<forall>n. fst (Emit ev (((\<lambda>e. snd (Emit ev e)) ^^ n) e1)) = [f])) \<and>
   (\<exists>e1 e2. Once ev (FuncValue f) NewEventEmitter = Done (None, e1) \<and>
      On ev (FuncValue g) e1 = Done (None, e2) \<and>
      fst (Emit ev e2) = [f, g] \<and> Listeners ev (snd (Emit ev e2)) = [g, g])"
proof -
  have stay: "snd (Emit ev (set_listeners ev [x] e)) = set_listeners ev [x] e"
    for x :: event_listener and e
    by (simp add: Emit_def set_listeners_def emit_loop.simps shift_out_def)
  have again: "((\<lambda>e. snd (Emit ev e)) ^^ n) (set_listeners ev [x] e) = set_listeners ev [x] e"
    for n and x :: event_listener and e
    by (induction n) (simp_all add: stay)
  have swap: "snd (Emit ev (set_listeners ev [\<lparr>el_callback = f, el_once = True\<rparr>, x] e)) = set_listeners ev [x, x] e"
    if "\<not> el_once x" for x e
    using that by (simp add: Emit_def set_listeners_def emit_loop.simps shift_out_def Let_def)
  show ?thesis
    by (simp add: Once_def On_def AddListener_def add_with_Func Emit_calls)
      (simp add: NewEventEmitter_def listeners_of_def swap again)
qed

lemma find_callback_some:
  "find_callback f i l = Some j \<Longrightarrow>
     i \<le> j \<and> j - i < length l \<and>
     map el_callback (take (j - i) l @ drop (Suc (j - i)) l) = remove1 f (map el_callback l)"
proof (induction l arbitrary: i)
  case (Cons el els)
  show ?case
  proof (cases "el_callback el = f")
    case False
    with Cons.prems have "find_callback f (Suc i) els = Some j" by simp
    from Cons.IH [OF this] False show ?thesis
      by (auto simp: Suc_diff_le Suc_le_eq dest!: Suc_diff_Suc [symmetric])
  qed (use Cons.prems in simp)
qed simp

lemma find_callback_none: "find_callback f i l = None \<longleftrightarrow> f \<notin> el_callback ` set l"
  by (induction l arbitrary: i) auto

text \<open>
  Off removes exactly the first registration of the callback for that event and leaves
  everything else registered.
\<close>

theorem off_removes_first:
  "\<exists>e'. Off ev (FuncValue f) e = Done (None, e') \<and>
     Listeners ev' e' = (if ev' = ev then remove1 f (Listeners ev e) else Listeners ev' e)"
proof (cases "em_listeners e ev")
  case None
  then show ?thesis by (simp add: Off_def RemoveListener_def Listeners_def)
next
  case (Some l)
  show ?thesis
  proof (cases "find_callback f 0 l")
    case None
    then have "remove1 f (Listeners ev e) = Listeners ev e"
      by (intro remove1_idem) (simp add: find_callback_none Listeners_def Some)
    with Some None show ?thesis by (simp add: Off_def RemoveListener_def)
  next
    case (Some j)
    from find_callback_some [OF this]
    have rem: "map el_callback (take j l @ drop (Suc j) l) = remove1 f (map el_callback l)" and "j < length l"
      by auto
    then have "length l = 1 \<Longrightarrow> remove1 f (map el_callback l) = []"
      by (metis Suc_leI drop_all less_one list.simps(8) self_append_conv2 take_0 One_nat_def)
    with Some rem \<open>em_listeners e ev = Some l\<close> show ?thesis
      by (simp add: Off_def RemoveListener_def Listeners_def set_listeners_def delete_event_def)
  qed
qed

end
