(* ===== verification/Go_Json.thy ===== *)
theory Go_Json
  imports Nethub_Prelude
begin

text \<open>
  The part of encoding/json the packets use: values, the compact encoder with its string
  escaping, and the decoder with its tolerance for white space. A number is kept by its
  literal. A byte from 0x80 on is copied as it is, which is what the library does for valid
  UTF-8 other than U+2028 and U+2029. JOpaque stands for a Go value the encoder refuses
  (a function, a channel). The decoder is recursive with fuel; parse_fuel_enough shows that
  the fuel json_parse gives is never the reason for a failure.
\<close>

datatype json =
    JNull
  | JBool bool
  | JNum string
  | JStr string
  | JArr "json list"
  | JObj "(string \<times> json) list"
  | JOpaque

subsection \<open>Characters\<close>

definition code :: "char \<Rightarrow> nat" where
  "code c = of_char c"

definition hex_digit :: "nat \<Rightarrow> char" where
  "hex_digit n = ''0123456789abcdef'' ! n"

definition hex_val :: "char \<Rightarrow> nat option" where
  "hex_val c =
     (let n = code c in
      if 48 \<le> n \<and> n \<le> 57 then Some (n - 48)
      else if 97 \<le> n \<and> n \<le> 102 then Some (n - 87)
      else if 65 \<le> n \<and> n \<le> 70 then Some (n - 55)
      else None)"

definition hex4 :: "char \<Rightarrow> char \<Rightarrow> char \<Rightarrow> char \<Rightarrow> nat option" where
  "hex4 a b c d =
     (case (hex_val a, hex_val b, hex_val c, hex_val d) of
        (Some w, Some x, Some y, Some z) \<Rightarrow> Some (((w * 16 + x) * 16 + y) * 16 + z)
      | _ \<Rightarrow> None)"

text \<open>The UTF-8 encoding of a code point.\<close>

definition utf8_encode :: "nat \<Rightarrow> string" where
  "utf8_encode n =
     (if n < 128 then [char_of n]
      else if n < 2048 then [char_of (192 + n div 64), char_of (128 + n mod 64)]
      else if n < 65536 then
        [char_of (224 + n div 4096), char_of (128 + (n div 64) mod 64), char_of (128 + n mod 64)]
      else
        [char_of (240 + n div 262144), char_of (128 + (n div 4096) mod 64),
         char_of (128 + (n div 64) mod 64), char_of (128 + n mod 64)])"

abbreviation DQUOTE :: char where "DQUOTE \<equiv> CHR 0x22"
abbreviation BACKSLASH :: char where "BACKSLASH \<equiv> CHR 0x5C"

definition is_digit :: "char \<Rightarrow> bool" where
  "is_digit c \<longleftrightarrow> 48 \<le> code c \<and> code c \<le> 57"

definition is_ws :: "char \<Rightarrow> bool" where
  "is_ws c \<longleftrightarrow> c = CHR 0x20 \<or> c = CHR 0x09 \<or> c = CHR 0x0A \<or> c = CHR 0x0D"

definition skip_ws :: "string \<Rightarrow> string" where
  "skip_ws s = dropWhile is_ws s"

subsection \<open>The encoder\<close>

text \<open>The bytes the encoder writes as \verb|\u00XX|: control characters and the HTML ones.\<close>

definition needs_u :: "char \<Rightarrow> bool" where
  "needs_u c \<longleftrightarrow> code c < 32 \<or> c = CHR ''<'' \<or> c = CHR ''>'' \<or> c = CHR ''&''"

definition escape_char :: "char \<Rightarrow> string" where
  "escape_char c =
     (if c = DQUOTE then [BACKSLASH, DQUOTE]
      else if c = BACKSLASH then [BACKSLASH, BACKSLASH]
      else if c = CHR 0x0A then [BACKSLASH, CHR ''n'']
      else if c = CHR 0x0D then [BACKSLASH, CHR ''r'']
      else if c = CHR 0x09 then [BACKSLASH, CHR ''t'']
      else if needs_u c then
        [BACKSLASH, CHR ''u'', CHR ''0'', CHR ''0'', hex_digit (code c div 16),
         hex_digit (code c mod 16)]
      else [c])"

definition quote :: "string \<Rightarrow> string" where
  "quote s = DQUOTE # concat (map escape_char s) @ [DQUOTE]"

fun json_print :: "json \<Rightarrow> string" where
  "json_print JNull = ''null''"
| "json_print (JBool b) = (if b then ''true'' else ''false'')"
| "json_print (JNum l) = l"
| "json_print (JStr s) = quote s"
| "json_print (JArr js) = ''['' @ join_with (CHR '','') (map json_print js) @ '']''"
| "json_print (JObj ms) =
     ''{'' @ join_with (CHR '','') (map (\<lambda>(k, v). quote k @ '':'' @ json_print v) ms) @ ''}''"
| "json_print JOpaque = []"

fun encodable :: "json \<Rightarrow> bool" where
  "encodable JOpaque = False"
| "encodable (JArr js) = list_all encodable js"
| "encodable (JObj ms) = list_all (\<lambda>(k, v). encodable v) ms"
| "encodable _ = True"

text \<open>json.Marshal: the text, or an error for a value it refuses.\<close>

definition json_marshal :: "json \<Rightarrow> string option" where
  "json_marshal j = (if encodable j then Some (json_print j) else None)"

subsection \<open>The decoder\<close>

definition simple_escape :: "char \<Rightarrow> char option" where
  "simple_escape e =
     (if e = DQUOTE \<or> e = BACKSLASH \<or> e = CHR ''/'' then Some e
      else if e = CHR ''b'' then Some (CHR 0x08)
      else if e = CHR ''f'' then Some (CHR 0x0C)
      else if e = CHR ''n'' then Some (CHR 0x0A)
      else if e = CHR ''r'' then Some (CHR 0x0D)
      else if e = CHR ''t'' then Some (CHR 0x09)
      else None)"

definition is_high :: "nat \<Rightarrow> bool" where
  "is_high n \<longleftrightarrow> 0xD800 \<le> n \<and> n < 0xDC00"

definition is_low :: "nat \<Rightarrow> bool" where
  "is_low n \<longleftrightarrow> 0xDC00 \<le> n \<and> n < 0xE000"

text \<open>A second escape that completes a surrogate pair, with the text after it.\<close>

fun low_escape :: "string \<Rightarrow> (nat \<times> string) option" where
  "low_escape (x # y # a # b # c # d # rest) =
     (if x = BACKSLASH \<and> y = CHR ''u'' then
        (case hex4 a b c d of
           Some m \<Rightarrow> if is_low m then Some (m, rest) else None
         | None \<Rightarrow> None)
      else None)"
| "low_escape _ = None"

text \<open>The code point an escape denotes, as UTF-8, and the text after it.\<close>

definition unescape_u :: "nat \<Rightarrow> string \<Rightarrow> string \<times> string" where
  "unescape_u n rest =
     (if is_high n then
        (case low_escape rest of
           Some (m, rest') \<Rightarrow> (utf8_encode (0x10000 + (n - 0xD800) * 1024 + (m - 0xDC00)), rest')
         | None \<Rightarrow> (utf8_encode 0xFFFD, rest))
      else if is_low n then (utf8_encode 0xFFFD, rest)
      else (utf8_encode n, rest))"

definition prepend :: "string \<Rightarrow> (string \<times> string) option \<Rightarrow> (string \<times> string) option" where
  "prepend p r = map_option (\<lambda>(s, rest). (p @ s, rest)) r"

lemma low_escape_length: "low_escape s = Some (m, r) \<Longrightarrow> length r < length s"
  by (induction s rule: low_escape.induct) (auto split: if_splits option.splits)

lemma unescape_u_length: "length (snd (unescape_u n rest)) \<le> length rest"
  by (auto simp: unescape_u_def dest: low_escape_length split: option.splits)

function scan_str :: "string \<Rightarrow> (string \<times> string) option" where
  "scan_str [] = None"
| "scan_str (c # cs) =
     (if c = DQUOTE then Some ([], cs)
      else if c = BACKSLASH then
        (case cs of
           [] \<Rightarrow> None
         | e # es \<Rightarrow>
             (if e = CHR ''u'' then
                (case es of
                   h1 # h2 # h3 # h4 # rest \<Rightarrow>
                     (case hex4 h1 h2 h3 h4 of
                        None \<Rightarrow> None
                      | Some n \<Rightarrow>
                          prepend (fst (unescape_u n rest)) (scan_str (snd (unescape_u n rest))))
                 | _ \<Rightarrow> None)
              else
                (case simple_escape e of
                   None \<Rightarrow> None
                 | Some x \<Rightarrow> prepend [x] (scan_str es))))
      else if code c < 32 then None
      else prepend [c] (scan_str cs))"
  by pat_completeness auto
termination
  by (relation "measure length") (auto simp: le_imp_less_Suc unescape_u_length trans_le_add2
      intro: le_less_trans [OF unescape_u_length])

declare scan_str.simps(2) [simp del]

definition scan_digits :: "string \<Rightarrow> (string \<times> string) option" where
  "scan_digits s =
     (if takeWhile is_digit s = [] then None else Some (takeWhile is_digit s, dropWhile is_digit s))"

definition scan_int :: "string \<Rightarrow> (string \<times> string) option" where
  "scan_int s =
     (case s of
        [] \<Rightarrow> None
      | c # cs \<Rightarrow> if c = CHR ''0'' then Some ([c], cs) else scan_digits s)"

definition scan_frac :: "string \<Rightarrow> (string \<times> string) option" where
  "scan_frac s =
     (case s of
        [] \<Rightarrow> Some ([], [])
      | c # cs \<Rightarrow> if c = CHR ''.'' then prepend [c] (scan_digits cs) else Some ([], s))"

definition scan_exp :: "string \<Rightarrow> (string \<times> string) option" where
  "scan_exp s =
     (case s of
        [] \<Rightarrow> Some ([], [])
      | c # cs \<Rightarrow>
          if c = CHR ''e'' \<or> c = CHR ''E'' then
            (case cs of
               [] \<Rightarrow> None
             | d # ds \<Rightarrow>
                 if d = CHR ''+'' \<or> d = CHR ''-'' then prepend [c, d] (scan_digits ds)
                 else prepend [c] (scan_digits cs))
          else Some ([], s))"

definition seq_scan :: "(string \<Rightarrow> (string \<times> string) option) \<Rightarrow> (string \<Rightarrow> (string \<times> string) option)
    \<Rightarrow> string \<Rightarrow> (string \<times> string) option" where
  "seq_scan p q s = (case p s of None \<Rightarrow> None | Some (a, r) \<Rightarrow> prepend a (q r))"

definition scan_number :: "string \<Rightarrow> (string \<times> string) option" where
  "scan_number s =
     (case s of
        [] \<Rightarrow> None
      | c # cs \<Rightarrow>
          if c = CHR ''-'' then prepend [c] (seq_scan scan_int (seq_scan scan_frac scan_exp) cs)
          else seq_scan scan_int (seq_scan scan_frac scan_exp) s)"

definition after_word :: "string \<Rightarrow> string \<Rightarrow> string option" where
  "after_word w s = (if take (length w) s = w then Some (drop (length w) s) else None)"

fun parse_value :: "nat \<Rightarrow> string \<Rightarrow> (json \<times> string) option"
  and parse_elems :: "nat \<Rightarrow> string \<Rightarrow> (json list \<times> string) option"
  and parse_members :: "nat \<Rightarrow> string \<Rightarrow> ((string \<times> json) list \<times> string) option"
where
  "parse_value 0 s = None"
| "parse_value (Suc n) s =
     (case skip_ws s of
        [] \<Rightarrow> None
      | c # cs \<Rightarrow>
          if c = DQUOTE then map_option (\<lambda>(x, r). (JStr x, r)) (scan_str cs)
          else if c = CHR ''{'' then
            (case skip_ws cs of
               [] \<Rightarrow> None
             | d # ds \<Rightarrow>
                 if d = CHR ''}'' then Some (JObj [], ds)
                 else map_option (\<lambda>(ms, r). (JObj ms, r)) (parse_members n (d # ds)))
          else if c = CHR ''['' then
            (case skip_ws cs of
               [] \<Rightarrow> None
             | d # ds \<Rightarrow>
                 if d = CHR '']'' then Some (JArr [], ds)
                 else map_option (\<lambda>(js, r). (JArr js, r)) (parse_elems n (d # ds)))
          else if c = CHR ''n'' then map_option (\<lambda>r. (JNull, r)) (after_word ''ull'' cs)
          else if c = CHR ''t'' then map_option (\<lambda>r. (JBool True, r)) (after_word ''rue'' cs)
          else if c = CHR ''f'' then map_option (\<lambda>r. (JBool False, r)) (after_word ''alse'' cs)
          else map_option (\<lambda>(l, r). (JNum l, r)) (scan_number (c # cs)))"
| "parse_elems 0 s = None"
| "parse_elems (Suc n) s =
     (case parse_value n s of
        None \<Rightarrow> None
      | Some (v, r) \<Rightarrow>
          (case skip_ws r of
             [] \<Rightarrow> None
           | c # cs \<Rightarrow>
               if c = CHR '','' then map_option (\<lambda>(vs, r'). (v # vs, r')) (parse_elems n cs)
               else if c = CHR '']'' then Some ([v], cs)
               else None))"
| "parse_members 0 s = None"
| "parse_members (Suc n) s =
     (case skip_ws s of
        [] \<Rightarrow> None
      | q # qs \<Rightarrow>
          if q = DQUOTE then
            (case scan_str qs of
               None \<Rightarrow> None
             | Some (k, r1) \<Rightarrow>
                 (case skip_ws r1 of
                    [] \<Rightarrow> None
                  | co # r2 \<Rightarrow>
                      if co = CHR '':'' then
                        (case parse_value n r2 of
                           None \<Rightarrow> None
                         | Some (v, r3) \<Rightarrow>
                             (case skip_ws r3 of
                                [] \<Rightarrow> None
                              | c # cs \<Rightarrow>
                                  if c = CHR '','' then
                                    map_option (\<lambda>(ms, r'). ((k, v) # ms, r')) (parse_members n cs)
                                  else if c = CHR ''}'' then Some ([(k, v)], cs)
                                  else None))
                      else None))
          else None)"

declare parse_value.simps(2) [simp del] parse_elems.simps(2) [simp del]
  parse_members.simps(2) [simp del]

text \<open>The whole text has to be one value, with white space around it.\<close>

definition json_parse :: "string \<Rightarrow> json option" where
  "json_parse s =
     (case parse_value (2 * length s + 2) s of
        None \<Rightarrow> None
      | Some (j, r) \<Rightarrow> if skip_ws r = [] then Some j else None)"

subsection \<open>Extending the text after a value\<close>

definition num_char :: "char \<Rightarrow> bool" where
  "num_char c \<longleftrightarrow> is_digit c \<or> c = CHR ''.'' \<or> c = CHR ''e'' \<or> c = CHR ''E'' \<or>
     c = CHR ''+'' \<or> c = CHR ''-''"

definition num_stop :: "string \<Rightarrow> bool" where
  "num_stop t \<longleftrightarrow> (case t of [] \<Rightarrow> True | c # cs \<Rightarrow> \<not> num_char c)"

lemma takeWhile_ext:
  "dropWhile P s \<noteq> [] \<or> t = [] \<or> \<not> P (hd t) \<Longrightarrow>
     takeWhile P (s @ t) = takeWhile P s \<and> dropWhile P (s @ t) = dropWhile P s @ t"
  by (induction s) (auto split: if_splits, (cases t; auto)+)

lemma num_stop_hd: "r \<noteq> [] \<or> num_stop t \<Longrightarrow> r \<noteq> [] \<or> t = [] \<or> \<not> num_char (hd t)"
  by (cases t) (auto simp: num_stop_def)

lemma scan_digits_ext:
  assumes "scan_digits s = Some (a, r)" and "r \<noteq> [] \<or> num_stop t"
  shows "scan_digits (s @ t) = Some (a, r @ t)"
proof -
  have "dropWhile is_digit s \<noteq> [] \<or> t = [] \<or> \<not> is_digit (hd t)"
    using assms by (cases t) (auto simp: scan_digits_def num_stop_def num_char_def split: if_splits)
  from takeWhile_ext [OF this] assms(1) show ?thesis
    by (auto simp: scan_digits_def split: if_splits)
qed

lemma scan_digits_ext_Cons:
  "scan_digits (x # s) = Some (a, r) \<Longrightarrow> r \<noteq> [] \<or> num_stop t \<Longrightarrow>
     scan_digits (x # s @ t) = Some (a, r @ t)"
  using scan_digits_ext [of "x # s"] by simp

lemma scan_int_ext:
  "scan_int s = Some (a, r) \<Longrightarrow> r \<noteq> [] \<or> num_stop t \<Longrightarrow> scan_int (s @ t) = Some (a, r @ t)"
  by (auto simp: scan_int_def scan_digits_ext split: list.splits if_splits)
     (simp_all add: scan_digits_ext_Cons)

lemma prepend_Some [simp]:
  "prepend p m = Some (a, r) \<longleftrightarrow> (\<exists>b. m = Some (b, r) \<and> a = p @ b)"
  by (auto simp: prepend_def)

lemma num_stop_scans: "num_stop t \<Longrightarrow> scan_frac t = Some ([], t)" "num_stop t \<Longrightarrow> scan_exp t = Some ([], t)"
  by (auto simp: scan_frac_def scan_exp_def num_stop_def num_char_def split: list.splits)

lemma scan_frac_exp_Nil [simp]: "scan_frac [] = Some ([], [])" "scan_exp [] = Some ([], [])"
  by (simp_all add: scan_frac_def scan_exp_def)

lemma scan_frac_ext:
  "scan_frac s = Some (a, r) \<Longrightarrow> r \<noteq> [] \<or> num_stop t \<Longrightarrow> scan_frac (s @ t) = Some (a, r @ t)"
proof (cases s)
  case (Cons x xs)
  assume "scan_frac s = Some (a, r)" and "r \<noteq> [] \<or> num_stop t"
  with Cons show ?thesis by (auto simp: scan_frac_def scan_digits_ext split: if_splits)
qed (auto simp: num_stop_scans)

lemma scan_exp_ext:
  "scan_exp s = Some (a, r) \<Longrightarrow> r \<noteq> [] \<or> num_stop t \<Longrightarrow> scan_exp (s @ t) = Some (a, r @ t)"
proof (cases s)
  case (Cons x xs)
  assume "scan_exp s = Some (a, r)" and "r \<noteq> [] \<or> num_stop t"
  with Cons show ?thesis
    by (auto simp: scan_exp_def scan_digits_ext scan_digits_ext_Cons split: if_splits list.splits)
qed (auto simp: num_stop_scans)

lemma seq_scan_ext:
  assumes p: "\<And>s a r. p s = Some (a, r) \<Longrightarrow> r \<noteq> [] \<or> num_stop t \<Longrightarrow> p (s @ t) = Some (a, r @ t)"
    and q: "\<And>s a r. q s = Some (a, r) \<Longrightarrow> r \<noteq> [] \<or> num_stop t \<Longrightarrow> q (s @ t) = Some (a, r @ t)"
    and nil: "\<And>a r. q [] = Some (a, r) \<Longrightarrow> r = []"
    and s: "seq_scan p q s = Some (a, r)" and t: "r \<noteq> [] \<or> num_stop t"
  shows "seq_scan p q (s @ t) = Some (a, r @ t)"
proof -
  from s obtain b r1 where 1: "p s = Some (b, r1)" and 2: "prepend b (q r1) = Some (a, r)"
    by (auto simp: seq_scan_def split: option.splits)
  from 2 t nil have "r1 \<noteq> [] \<or> num_stop t" by auto
  from p [OF 1 this] q [OF _ t] 2 show ?thesis by (auto simp: seq_scan_def)
qed

lemma scan_number_ext:
  assumes "scan_number s = Some (a, r)" and t: "r \<noteq> [] \<or> num_stop t"
  shows "scan_number (s @ t) = Some (a, r @ t)"
proof -
  have nil: "scan_exp [] = Some (a, r) \<Longrightarrow> r = []" "seq_scan scan_frac scan_exp [] = Some (a, r) \<Longrightarrow> r = []"
    for a r by (auto simp: seq_scan_def)
  have fe: "seq_scan scan_frac scan_exp (s @ t) = Some (a, r @ t)"
    if "seq_scan scan_frac scan_exp s = Some (a, r)" "r \<noteq> [] \<or> num_stop t" for s a r
    by (rule seq_scan_ext [OF scan_frac_ext scan_exp_ext nil(1) that])
  have all: "seq_scan scan_int (seq_scan scan_frac scan_exp) (s @ t) = Some (a, r @ t)"
    if "seq_scan scan_int (seq_scan scan_frac scan_exp) s = Some (a, r)" "r \<noteq> [] \<or> num_stop t" for s a r
    by (rule seq_scan_ext [OF scan_int_ext fe nil(2) that])
  show ?thesis
  proof (cases s)
    case Nil
    with assms show ?thesis by (simp add: scan_number_def)
  next
    case (Cons x xs)
    with assms all [of xs] all [of "x # xs"] show ?thesis
      by (auto simp: scan_number_def split: if_splits)
  qed
qed

subsection \<open>Strings round-trip\<close>

lemma scan_str_step: "code c \<ge> 32 \<Longrightarrow> c \<noteq> DQUOTE \<Longrightarrow> c \<noteq> BACKSLASH \<Longrightarrow>
    scan_str (c # r) = prepend [c] (scan_str r)"
  by (simp add: scan_str.simps(2))

lemma hex_table: "list_all (\<lambda>n. hex_val (hex_digit n) = Some n) [0..<16]"
  by code_simp

lemma hex_val_hex_digit [simp]: "n < 16 \<Longrightarrow> hex_val (hex_digit n) = Some n"
  using hex_table by (auto simp: list_all_iff)

lemma code_bound: "code c < 256"
  by (simp add: code_def)

lemma hex4_byte: "n < 256 \<Longrightarrow> hex4 (CHR ''0'') (CHR ''0'') (hex_digit (n div 16)) (hex_digit (n mod 16)) = Some n"
proof -
  assume "n < 256"
  then have "n div 16 < 16" by simp
  moreover have "hex_val (CHR ''0'') = Some 0" by code_simp
  ultimately show ?thesis by (simp add: hex4_def)
qed

lemma utf8_encode_code: "code c < 128 \<Longrightarrow> utf8_encode (code c) = [c]"
  by (simp add: utf8_encode_def code_def)

lemma needs_u_code: "needs_u c \<Longrightarrow> code c < 128"
  by (auto simp: needs_u_def code_def)

lemma scan_escape_char: "scan_str (escape_char c @ r) = prepend [c] (scan_str r)"
proof (cases "c \<in> {DQUOTE, BACKSLASH, CHR 0x0A, CHR 0x0D, CHR 0x09}")
  case True
  then show ?thesis by (auto simp: escape_char_def scan_str.simps(2) simple_escape_def)
next
  case False
  show ?thesis
  proof (cases "needs_u c")
    case True
    then have c: "code c < 128" by (rule needs_u_code)
    with False True have "escape_char c @ r =
        BACKSLASH # CHR ''u'' # CHR ''0'' # CHR ''0'' # hex_digit (code c div 16) # hex_digit (code c mod 16) # r"
      by (simp add: escape_char_def)
    moreover have "unescape_u (code c) r = ([c], r)"
      using c by (simp add: unescape_u_def is_high_def is_low_def utf8_encode_code)
    ultimately show ?thesis
      using hex4_byte [OF code_bound, of c] by (simp add: scan_str.simps(2))
  next
    case no: False
    with False have "escape_char c = [c]" "code c \<ge> 32" "c \<noteq> DQUOTE" "c \<noteq> BACKSLASH"
      by (auto simp: escape_char_def needs_u_def)
    then show ?thesis by (simp add: scan_str_step)
  qed
qed

lemma scan_str_quote: "scan_str (concat (map escape_char s) @ DQUOTE # r) = Some (s, r)"
  by (induction s) (auto simp: scan_escape_char scan_str.simps(2))

subsection \<open>Values round-trip\<close>

text \<open>The values the encoder prints and the decoder reads back: literals that are numbers.\<close>

fun wf_json :: "json \<Rightarrow> bool" where
  "wf_json JOpaque = False"
| "wf_json (JNum l) = (scan_number l = Some (l, []))"
| "wf_json (JArr js) = list_all wf_json js"
| "wf_json (JObj ms) = list_all (\<lambda>(k, v). wf_json v) ms"
| "wf_json _ = True"

fun is_JNum :: "json \<Rightarrow> bool" where
  "is_JNum (JNum l) = True"
| "is_JNum _ = False"

lemma scan_number_head: "scan_number (c # cs) = Some (a, r) \<Longrightarrow> is_digit c \<or> c = CHR ''-''"
  by (auto simp: scan_number_def seq_scan_def scan_int_def scan_digits_def is_digit_def code_def
      split: if_splits option.splits)

definition value_head :: "char \<Rightarrow> bool" where
  "value_head c \<longleftrightarrow> \<not> is_ws c \<and> c \<noteq> CHR '']'' \<and> c \<noteq> CHR ''}''"

lemma print_head:
  assumes "wf_json j"
  obtains c cs where "json_print j = c # cs" and "value_head c"
proof (cases j)
  case (JNum l)
  with assms obtain c cs where "l = c # cs" by (cases l) (auto simp: scan_number_def)
  with assms JNum show ?thesis
    by (intro that [of c cs]) (auto dest!: scan_number_head simp: value_head_def is_ws_def is_digit_def code_def)
next
  case (JBool b)
  then show ?thesis using that by (cases b) (auto simp: value_head_def is_ws_def)
qed (use assms that in \<open>auto simp: value_head_def is_ws_def quote_def\<close>)

lemma skip_ws_head [simp]: "value_head c \<Longrightarrow> skip_ws (c # cs) = c # cs"
  by (simp add: skip_ws_def value_head_def)

lemma skip_ws_punct [simp]:
  "skip_ws (CHR '','' # s) = CHR '','' # s" "skip_ws (CHR '']'' # s) = CHR '']'' # s"
  "skip_ws (CHR ''}'' # s) = CHR ''}'' # s" "skip_ws (CHR '':'' # s) = CHR '':'' # s"
  "skip_ws (CHR ''{'' # s) = CHR ''{'' # s" "skip_ws (CHR ''['' # s) = CHR ''['' # s"
  "skip_ws (DQUOTE # s) = DQUOTE # s" "skip_ws [] = []"
  by (simp_all add: skip_ws_def is_ws_def)

lemma num_stop_punct [simp]:
  "num_stop (CHR '','' # s)" "num_stop (CHR '']'' # s)" "num_stop (CHR ''}'' # s)" "num_stop []"
  by (auto simp: num_stop_def num_char_def is_digit_def code_def)

definition prints_back :: "json \<Rightarrow> bool" where
  "prints_back j \<longleftrightarrow> (\<forall>n r. 2 * length (json_print j) \<le> n \<longrightarrow> (is_JNum j \<longrightarrow> num_stop r) \<longrightarrow>
     parse_value n (json_print j @ r) = Some (j, r))"

lemma parse_elems_print:
  assumes "js \<noteq> []" and "\<And>j. j \<in> set js \<Longrightarrow> prints_back j"
    and "2 * length (join_with (CHR '','') (map json_print js)) + 1 \<le> n"
  shows "parse_elems n (join_with (CHR '','') (map json_print js) @ CHR '']'' # r) = Some (js, r)"
  using assms
proof (induction js arbitrary: n)
  case (Cons j js)
  then obtain m where n: "n = Suc m" by (cases n) auto
  have j: "prints_back j" using Cons.prems by simp
  show ?case
  proof (cases js)
    case Nil
    with Cons.prems n have "parse_value m (json_print j @ CHR '']'' # r) = Some (j, CHR '']'' # r)"
      using j by (auto simp: prints_back_def)
    with Nil n show ?thesis by (simp add: parse_elems.simps(2))
  next
    case (Cons j2 js2)
    let ?rest = "join_with (CHR '','') (map json_print js) @ CHR '']'' # r"
    have "parse_value m (json_print j @ CHR '','' # ?rest) = Some (j, CHR '','' # ?rest)"
      using j Cons.prems n Cons by (auto simp: prints_back_def)
    moreover have "parse_elems m ?rest = Some (js, r)"
      by (rule Cons.IH) (use Cons Cons.prems n in auto)
    ultimately show ?thesis using n Cons by (simp add: parse_elems.simps(2))
  qed
qed simp

definition print_member :: "string \<times> json \<Rightarrow> string" where
  "print_member m = (case m of (k, v) \<Rightarrow> quote k @ '':'' @ json_print v)"

lemma json_print_JObj:
  "json_print (JObj ms) = ''{'' @ join_with (CHR '','') (map print_member ms) @ ''}''"
proof -
  have "print_member = (\<lambda>(k, v). quote k @ '':'' @ json_print v)"
    by (auto simp: print_member_def)
  then show ?thesis by simp
qed

lemma parse_member_step:
  assumes "prints_back v" and "2 * length (print_member (k, v)) \<le> Suc m" and "num_stop r"
    and "skip_ws r = c # cs"
  shows "parse_members (Suc m) (print_member (k, v) @ r) =
     (if c = CHR '','' then map_option (\<lambda>(ms, r'). ((k, v) # ms, r')) (parse_members m cs)
      else if c = CHR ''}'' then Some ([(k, v)], cs) else None)"
proof -
  have "parse_value m (json_print v @ r) = Some (v, r)"
    using assms by (auto simp: prints_back_def print_member_def quote_def)
  with assms(4) show ?thesis
    by (simp add: parse_members.simps(2) print_member_def quote_def scan_str_quote)
qed

lemma parse_members_print:
  assumes "ms \<noteq> []" and "\<And>k v. (k, v) \<in> set ms \<Longrightarrow> prints_back v"
    and "2 * length (join_with (CHR '','') (map print_member ms)) + 1 \<le> n"
  shows "parse_members n (join_with (CHR '','') (map print_member ms) @ CHR ''}'' # r) = Some (ms, r)"
  using assms
proof (induction ms arbitrary: n)
  case (Cons kv ms)
  then obtain m where n: "n = Suc m" by (cases n) auto
  obtain k v where kv: "kv = (k, v)" by (cases kv)
  have v: "prints_back v" using Cons.prems kv by auto
  show ?case
  proof (cases ms)
    case Nil
    with Cons.prems n kv parse_member_step [OF v, of k m "CHR ''}'' # r" "CHR ''}''" r]
    show ?thesis by simp
  next
    case (Cons m2 ms2)
    let ?rest = "join_with (CHR '','') (map print_member ms) @ CHR ''}'' # r"
    have "parse_members m ?rest = Some (ms, r)"
      by (rule Cons.IH) (use Cons Cons.prems n in auto)
    with parse_member_step [OF v, of k m "CHR '','' # ?rest" "CHR '',''" ?rest] Cons Cons.prems n kv
    show ?thesis by simp
  qed
qed simp

lemma digit_or_minus_not_other:
  "is_digit c \<or> c = CHR ''-'' \<Longrightarrow> c \<noteq> DQUOTE \<and> c \<noteq> CHR ''{'' \<and> c \<noteq> CHR ''['' \<and> c \<noteq> CHR ''n'' \<and>
     c \<noteq> CHR ''t'' \<and> c \<noteq> CHR ''f'' \<and> \<not> is_ws c"
  by (auto simp: is_digit_def code_def is_ws_def)

lemma prints_back_num:
  assumes "scan_number l = Some (l, [])" and "num_stop r" and "2 * length l \<le> n"
  shows "parse_value n (l @ r) = Some (JNum l, r)"
proof -
  from assms(1) obtain c cs where l: "l = c # cs" by (cases l) (auto simp: scan_number_def)
  from assms(1) l have "is_digit c \<or> c = CHR ''-''" by (auto dest: scan_number_head)
  note c = digit_or_minus_not_other [OF this]
  obtain m where n: "n = Suc m" using assms(3) l by (cases n) auto
  have "scan_number (l @ r) = Some (l, r)"
    using scan_number_ext [OF assms(1)] assms(2) by simp
  with c l n show ?thesis by (simp add: parse_value.simps(2) skip_ws_def)
qed

lemma prints_backI:
  assumes "\<And>m r. parse_value (Suc m) (json_print j @ r) = Some (j, r)" and "json_print j \<noteq> []"
  shows "prints_back j"
  unfolding prints_back_def
proof (intro allI impI)
  fix n r assume "2 * length (json_print j) \<le> n"
  with assms(2) obtain m where "n = Suc m" by (cases n) auto
  with assms(1) show "parse_value n (json_print j @ r) = Some (j, r)" by simp
qed

lemma json_prints_back: "wf_json j \<Longrightarrow> prints_back j"
proof (induction j)
  case (JNum l)
  then show ?case by (auto simp: prints_back_def prints_back_num)
next
  case (JStr s)
  show ?case
    by (rule prints_backI) (simp_all add: quote_def parse_value.simps(2) scan_str_quote)
next
  case JNull
  show ?case
    by (rule prints_backI) (simp_all add: parse_value.simps(2) skip_ws_def is_ws_def after_word_def)
next
  case (JBool b)
  show ?case
    by (cases b; rule prints_backI)
      (simp_all add: parse_value.simps(2) skip_ws_def is_ws_def after_word_def)
next
  case (JArr js)
  have js: "prints_back j" "wf_json j" if "j \<in> set js" for j
    using that JArr by (auto simp: list_all_iff)
  show ?case unfolding prints_back_def
  proof (intro allI impI)
    fix n r assume n: "2 * length (json_print (JArr js)) \<le> n"
    then obtain m where m: "n = Suc m" by (cases n) auto
    show "parse_value n (json_print (JArr js) @ r) = Some (JArr js, r)"
    proof (cases js)
      case (Cons j js2)
      obtain c cs where hd: "json_print j = c # cs" "value_head c"
        using print_head js(2) [of j] Cons by auto
      then have "\<exists>ds. join_with (CHR '','') (map json_print js) = c # ds"
        using Cons by (cases js2) auto
      then obtain ds where ds: "join_with (CHR '','') (map json_print js) = c # ds" ..
      have "parse_elems m (join_with (CHR '','') (map json_print js) @ CHR '']'' # r) = Some (js, r)"
        by (rule parse_elems_print) (use js Cons n m in auto)
      with ds hd m show ?thesis by (simp add: parse_value.simps(2) value_head_def)
    qed (simp add: m parse_value.simps(2))
  qed
next
  case (JObj ms)
  have ms: "prints_back v" if "(k, v) \<in> set ms" for k v
    using that JObj by (fastforce simp: list_all_iff)
  show ?case unfolding prints_back_def
  proof (intro allI impI)
    fix n r assume n: "2 * length (json_print (JObj ms)) \<le> n"
    then obtain m where m: "n = Suc m" by (cases n) auto
    show "parse_value n (json_print (JObj ms) @ r) = Some (JObj ms, r)"
    proof (cases ms)
      case (Cons kv ms2)
      obtain k v where "kv = (k, v)" by (cases kv)
      then have "\<exists>ds. join_with (CHR '','') (map print_member ms) = DQUOTE # ds"
        using Cons by (cases ms2) (auto simp: print_member_def quote_def)
      then obtain ds where ds: "join_with (CHR '','') (map print_member ms) = DQUOTE # ds" ..
      have "parse_members m (join_with (CHR '','') (map print_member ms) @ CHR ''}'' # r) = Some (ms, r)"
        by (rule parse_members_print) (use ms Cons n m in \<open>auto simp: json_print_JObj simp del: json_print.simps\<close>)
      with ds m show ?thesis
        by (simp add: parse_value.simps(2) json_print_JObj del: json_print.simps)
    qed (simp add: m parse_value.simps(2))
  qed
qed simp

lemma json_parse_print: "wf_json j \<Longrightarrow> json_parse (json_print j) = Some j"
proof -
  assume "wf_json j"
  then have "prints_back j" by (rule json_prints_back)
  then have "parse_value (2 * length (json_print j) + 2) (json_print j @ []) = Some (j, [])"
    unfolding prints_back_def by (metis le_add1 num_stop_punct(4))
  then show ?thesis by (simp add: json_parse_def)
qed

lemma wf_json_encodable: "wf_json j \<Longrightarrow> encodable j"
  by (induction j) (auto simp: list_all_iff)

subsection \<open>The fuel of the decoder is enough\<close>

lemma skip_ws_length: "length (skip_ws s) \<le> length s"
  by (simp add: skip_ws_def length_dropWhile_le)

lemma skip_ws_Cons_length: "skip_ws s = c # cs \<Longrightarrow> length cs < length s"
  using skip_ws_length [of s] by simp

text \<open>The four ways a string scan can go on, as a case analysis.\<close>

lemma scan_str_cases [consumes 1, case_names stop unicode escape plain]:
  assumes "scan_str s = Some (a, r)"
  obtains "s = DQUOTE # r" "a = []"
  | h1 h2 h3 h4 rest n b where "s = BACKSLASH # CHR ''u'' # h1 # h2 # h3 # h4 # rest"
      "hex4 h1 h2 h3 h4 = Some n" "scan_str (snd (unescape_u n rest)) = Some (b, r)"
      "a = fst (unescape_u n rest) @ b"
  | e es x b where "s = BACKSLASH # e # es" "e \<noteq> CHR ''u''" "simple_escape e = Some x"
      "scan_str es = Some (b, r)" "a = x # b"
  | c cs b where "s = c # cs" "c \<noteq> DQUOTE" "c \<noteq> BACKSLASH" "32 \<le> code c"
      "scan_str cs = Some (b, r)" "a = c # b"
proof (cases s)
  case Nil
  with assms show ?thesis by simp
next
  case (Cons c cs)
  show ?thesis
  proof (cases "c = BACKSLASH")
    case True
    with assms Cons obtain e es where cs: "cs = e # es"
      by (auto simp: scan_str.simps(2) split: list.splits)
    show ?thesis
    proof (cases "e = CHR ''u''")
      case True
      with assms Cons \<open>c = BACKSLASH\<close> cs that(2) show ?thesis
        by (auto simp: scan_str.simps(2) split: list.splits option.splits)
    next
      case False
      with assms Cons \<open>c = BACKSLASH\<close> cs that(3) show ?thesis
        by (auto simp: scan_str.simps(2) split: option.splits)
    qed
  next
    case False
    with assms Cons that(1,4) show ?thesis
      by (auto simp: scan_str.simps(2) split: if_splits)
  qed
qed

lemma scan_str_length: "scan_str s = Some (a, r) \<Longrightarrow> length r < length s"
proof (induction "length s" arbitrary: s a rule: less_induct)
  case less
  from less.prems show ?case
  proof (cases rule: scan_str_cases)
    case (unicode h1 h2 h3 h4 rest n b)
    then show ?thesis
      using less.hyps [of "snd (unescape_u n rest)" b] unescape_u_length [of n rest] by simp
  next
    case (escape e es x b)
    then show ?thesis using less.hyps [of es b] by simp
  next
    case (plain c cs b)
    then show ?thesis using less.hyps [of cs b] by simp
  qed simp
qed

lemma scan_digits_length: "scan_digits s = Some (a, r) \<Longrightarrow> length r < length s"
  using length_dropWhile_le [of is_digit "tl s"]
  by (cases s) (auto simp: scan_digits_def split: if_splits)

lemma after_word_length: "after_word w s = Some r \<Longrightarrow> length r \<le> length s"
  by (auto simp: after_word_def split: if_splits)

lemma scan_frac_length: "scan_frac s = Some (a, r) \<Longrightarrow> length r \<le> length s"
  by (auto simp: scan_frac_def split: list.splits if_splits dest!: scan_digits_length)

lemma scan_exp_length: "scan_exp s = Some (a, r) \<Longrightarrow> length r \<le> length s"
  by (auto simp: scan_exp_def split: list.splits if_splits dest!: scan_digits_length)

lemma scan_int_length: "scan_int s = Some (a, r) \<Longrightarrow> length r < length s"
  by (auto simp: scan_int_def split: list.splits if_splits dest!: scan_digits_length)

lemma scan_number_length: "scan_number s = Some (a, r) \<Longrightarrow> length r < length s"
  by (fastforce simp: scan_number_def seq_scan_def split: list.splits if_splits option.splits
      dest!: scan_int_length scan_frac_length scan_exp_length)


lemma parse_length:
  "parse_value n s = Some (v, r) \<Longrightarrow> length r < length s"
  "parse_elems n s = Some (vs, r) \<Longrightarrow> length r < length s"
  "parse_members n s = Some (ms, r) \<Longrightarrow> length r < length s"
proof (induction n s and n s and n s arbitrary: v r and vs r and ms r
    rule: parse_value_parse_elems_parse_members.induct)
  case (2 n s)
  from "2.prems" obtain c cs where s: "skip_ws s = c # cs"
    by (auto simp: parse_value.simps(2) split: list.splits)
  note [dest!] = skip_ws_Cons_length scan_str_length after_word_length scan_number_length
  from 2 s skip_ws_length [of s] show ?case
    by (fastforce simp: parse_value.simps(2) split: list.splits if_splits)
next
  case (4 n s)
  note [dest!] = skip_ws_Cons_length
  from 4 show ?case
    by (fastforce simp: parse_elems.simps(2) split: list.splits if_splits option.splits)
next
  case (6 n s)
  note [dest!] = skip_ws_Cons_length scan_str_length
  from 6 show ?case
    by (fastforce simp: parse_members.simps(2) split: list.splits if_splits option.splits)
qed auto

lemma parse_fuel_enough:
  "parse_value n s = Some (v, r) \<Longrightarrow> 2 * length s + 1 \<le> k \<Longrightarrow> parse_value k s = Some (v, r)"
  "parse_elems n s = Some (vs, r) \<Longrightarrow> 2 * length s + 2 \<le> k \<Longrightarrow> parse_elems k s = Some (vs, r)"
  "parse_members n s = Some (ms, r) \<Longrightarrow> 2 * length s + 2 \<le> k \<Longrightarrow> parse_members k s = Some (ms, r)"
proof (induction n s and n s and n s arbitrary: v r k and vs r k and ms r k
    rule: parse_value_parse_elems_parse_members.induct)
  case (2 n s)
  from "2.prems"(2) obtain m where k: "k = Suc m" and m: "2 * length s \<le> m" by (cases k) auto
  from "2.prems"(1) obtain c cs where s: "skip_ws s = c # cs"
    by (auto simp: parse_value.simps(2) split: list.splits)
  then have cs: "length cs < length s" by (rule skip_ws_Cons_length)
  have sub: "2 * length (d # ds) + 2 \<le> m" if "skip_ws cs = d # ds" for d ds
    using skip_ws_Cons_length [OF that] cs m by simp
  note IH_members = "2.IH"(1)[OF s] and IH_elems = "2.IH"(2)[OF s]
  note prem = "2.prems"(1)
  consider (obj) "c = CHR ''{''" | (arr) "c = CHR ''[''" | (other) "c \<noteq> CHR ''{''" "c \<noteq> CHR ''[''"
    by blast
  then show ?case
  proof cases
    case obj
    with prem s obtain d ds where d: "skip_ws cs = d # ds"
      by (auto simp: parse_value.simps(2) split: list.splits)
    show ?thesis
    proof (cases "d = CHR ''}''")
      case False
      with prem s obj d obtain ms where ms: "parse_members n (d # ds) = Some (ms, r)" and v: "v = JObj ms"
        by (auto simp: parse_value.simps(2))
      have "parse_members m (d # ds) = Some (ms, r)"
        by (rule IH_members [OF _ obj d False ms sub [OF d]]) (simp add: obj)
      with s obj d False v k show ?thesis by (simp add: parse_value.simps(2))
    qed (use prem s obj d k in \<open>simp add: parse_value.simps(2)\<close>)
  next
    case arr
    with prem s obtain d ds where d: "skip_ws cs = d # ds"
      by (auto simp: parse_value.simps(2) split: list.splits)
    show ?thesis
    proof (cases "d = CHR '']''")
      case False
      with prem s arr d obtain js where js: "parse_elems n (d # ds) = Some (js, r)" and v: "v = JArr js"
        by (auto simp: parse_value.simps(2))
      have "parse_elems m (d # ds) = Some (js, r)"
        by (rule IH_elems [OF _ _ arr d False js sub [OF d]]) (simp_all add: arr)
      with s arr d False v k show ?thesis by (simp add: parse_value.simps(2))
    qed (use prem s arr d k in \<open>simp add: parse_value.simps(2)\<close>)
  next
    case other
    then have "parse_value (Suc m) s = parse_value (Suc n) s"
      by (simp only: parse_value.simps(2) s list.case if_False cong: if_cong)
    with prem k show ?thesis by simp
  qed
next
  case (4 n s)
  from "4.prems"(2) obtain m where k: "k = Suc m" and m: "2 * length s + 1 \<le> m" by (cases k) auto
  from "4.prems"(1) obtain v r1 where v: "parse_value n s = Some (v, r1)"
    by (auto simp: parse_elems.simps(2) split: option.splits)
  have vm: "parse_value m s = Some (v, r1)" by (rule "4.IH"(1) [OF v m])
  from v have r1: "length r1 < length s" by (rule parse_length)
  have sub: "2 * length cs + 2 \<le> m" if "skip_ws r1 = c # cs" for c cs
    using skip_ws_Cons_length [OF that] r1 m by simp
  from "4.prems"(1) v obtain c cs where c: "skip_ws r1 = c # cs"
    by (auto simp: parse_elems.simps(2) split: list.splits)
  show ?case
  proof (cases "c = CHR '',''")
    case True
    with "4.prems"(1) v c obtain vs' where vs: "parse_elems n cs = Some (vs', r)" "vs = v # vs'"
      by (auto simp: parse_elems.simps(2))
    have "parse_elems m cs = Some (vs', r)"
      by (rule "4.IH"(2) [OF v refl c True vs(1) sub [OF c]])
    with k vm c True vs show ?thesis by (simp add: parse_elems.simps(2))
  next
    case False
    with "4.prems"(1) k v vm c show ?thesis
      by (auto simp: parse_elems.simps(2) split: if_splits)
  qed
next
  case (6 n s)
  from "6.prems"(2) obtain m where k: "k = Suc m" and m: "2 * length s + 1 \<le> m" by (cases k) auto
  from "6.prems"(1) obtain qs key r1 r2 v r3 c cs where
    s: "skip_ws s = DQUOTE # qs" and key: "scan_str qs = Some (key, r1)"
    and co: "skip_ws r1 = CHR '':'' # r2" and v: "parse_value n r2 = Some (v, r3)"
    and c: "skip_ws r3 = c # cs"
    by (auto simp: parse_members.simps(2) split: list.splits if_splits option.splits)
  have len: "length r2 < length s" "length cs < length s"
    using skip_ws_Cons_length [OF s] scan_str_length [OF key] skip_ws_Cons_length [OF co]
      parse_length(1) [OF v] skip_ws_Cons_length [OF c] by simp_all
  have vm: "parse_value m r2 = Some (v, r3)"
    by (rule "6.IH"(1)[OF s _ key refl co _ v]) (use len m in auto)
  show ?case
  proof (cases "c = CHR '',''")
    case True
    with "6.prems"(1) s key co v c obtain ms' where
      ms: "parse_members n cs = Some (ms', r)" "ms = (key, v) # ms'"
      by (auto simp: parse_members.simps(2))
    have "parse_members m cs = Some (ms', r)"
      by (rule "6.IH"(2) [OF s _ key refl co _ v refl c True ms(1)]) (use len m in auto)
    with k s key co vm c True ms show ?thesis by (simp add: parse_members.simps(2))
  next
    case False
    with "6.prems"(1) k s key co v vm c show ?thesis
      by (auto simp: parse_members.simps(2) split: if_splits)
  qed
qed auto

text \<open>Any fuel that succeeds agrees with the fuel json_parse uses.\<close>

lemma json_parse_fuel:
  "parse_value n s = Some (j, r) \<Longrightarrow> json_parse s = (if skip_ws r = [] then Some j else None)"
  using parse_fuel_enough(1) [of n s j r "2 * length s + 2"] by (simp add: json_parse_def)

subsection \<open>Values delimit themselves\<close>

lemma skip_ws_ext: "skip_ws s = c # cs \<Longrightarrow> skip_ws (s @ t) = c # cs @ t"
  by (induction s) (auto simp: skip_ws_def split: if_splits)

lemma after_word_ext: "after_word w s = Some r \<Longrightarrow> after_word w (s @ t) = Some (r @ t)"
proof -
  assume "after_word w s = Some r"
  then have "take (length w) s = w" and r: "r = drop (length w) s"
    by (auto simp: after_word_def split: if_splits)
  then have "s = w @ r" by (metis append_take_drop_id)
  then show ?thesis by (simp add: after_word_def)
qed

lemma low_escape_SomeE:
  assumes "low_escape s = Some (m, r)"
  obtains h1 h2 h3 h4 where "s = BACKSLASH # CHR ''u'' # h1 # h2 # h3 # h4 # r"
    and "hex4 h1 h2 h3 h4 = Some m" and "is_low m"
proof (cases "6 \<le> length s")
  case True
  then obtain x y a b c d q where s: "s = x # y # a # b # c # d # q"
    by (auto simp: Suc_le_length_iff eval_nat_numeral)
  with assms have "x = BACKSLASH" "y = CHR ''u''" "hex4 a b c d = Some m" "is_low m" "q = r"
    by (simp_all split: if_splits option.splits)
  with s that show ?thesis by blast
next
  case False
  then have "low_escape s = None"
    by (cases s rule: low_escape.cases) simp_all
  with assms show ?thesis by simp
qed

lemma low_escape_ext: "low_escape s = Some (m, r) \<Longrightarrow> low_escape (s @ t) = Some (m, r @ t)"
  by (erule low_escape_SomeE) simp

lemma low_escape_None_ext:
  assumes none: "low_escape s = None" and scan: "scan_str s = Some (a, r)"
  shows "low_escape (s @ t) = None"
proof (rule ccontr)
  assume "low_escape (s @ t) \<noteq> None"
  then obtain m q where "low_escape (s @ t) = Some (m, q)" by auto
  then obtain h1 h2 h3 h4 where st: "s @ t = BACKSLASH # CHR ''u'' # h1 # h2 # h3 # h4 # q"
    and h: "hex4 h1 h2 h3 h4 = Some m" "is_low m"
    by (rule low_escape_SomeE)
  have "6 \<le> length s"
    using scan
  proof (cases rule: scan_str_cases)
    case (escape e es x b)
    then show ?thesis using st by simp
  next
    case (plain c cs b)
    then show ?thesis using st by simp
  qed (use st in auto)
  with st have "\<exists>q'. s = BACKSLASH # CHR ''u'' # h1 # h2 # h3 # h4 # q'"
    by (auto simp: append_eq_Cons_conv)
  with h have "low_escape s \<noteq> None" by auto
  with none show False by simp
qed

lemma scan_str_ext: "scan_str s = Some (a, r) \<Longrightarrow> scan_str (s @ t) = Some (a, r @ t)"
proof (induction "length s" arbitrary: s a rule: less_induct)
  case less
  from less.prems show ?case
  proof (cases rule: scan_str_cases)
    case stop
    then show ?thesis by (simp add: scan_str.simps(2))
  next
    case (unicode h1 h2 h3 h4 rest n b)
    let ?u = "unescape_u n rest"
    have sc: "scan_str (snd ?u @ t) = Some (b, r @ t)"
      by (rule less.hyps) (use unicode unescape_u_length [of n rest] in auto)
    have "unescape_u n (rest @ t) = (fst ?u, snd ?u @ t)"
      using unicode(3) low_escape_None_ext [of rest b r t]
      by (auto simp: unescape_u_def low_escape_ext split: option.splits)
    with unicode sc show ?thesis by (simp add: scan_str.simps(2))
  next
    case (escape e es x b)
    then have "scan_str (es @ t) = Some (b, r @ t)" by (intro less.hyps) auto
    with escape show ?thesis by (simp add: scan_str.simps(2))
  next
    case (plain c cs b)
    then have "scan_str (cs @ t) = Some (b, r @ t)" by (intro less.hyps) auto
    with plain show ?thesis by (simp add: scan_str.simps(2))
  qed
qed

lemma parse_ext:
  "parse_value n s = Some (v, r) \<Longrightarrow> r \<noteq> [] \<or> num_stop t \<or> \<not> is_JNum v \<Longrightarrow>
     parse_value n (s @ t) = Some (v, r @ t)"
  "parse_elems n s = Some (vs, r) \<Longrightarrow> parse_elems n (s @ t) = Some (vs, r @ t)"
  "parse_members n s = Some (ms, r) \<Longrightarrow> parse_members n (s @ t) = Some (ms, r @ t)"
proof (induction n s and n s and n s arbitrary: v r and vs r and ms r
    rule: parse_value_parse_elems_parse_members.induct)
  case (2 n s)
  from "2.prems"(1) obtain c cs where s: "skip_ws s = c # cs"
    by (auto simp: parse_value.simps(2) split: list.splits)
  note st = skip_ws_ext [OF s, of t]
  note IH_members = "2.IH"(1)[OF s] and IH_elems = "2.IH"(2)[OF s]
  note prem = "2.prems"(1)
  consider (obj) "c = CHR ''{''" | (arr) "c = CHR ''[''" | (other) "c \<noteq> CHR ''{''" "c \<noteq> CHR ''[''"
    by blast
  then show ?case
  proof cases
    case obj
    with prem s obtain d ds where d: "skip_ws cs = d # ds"
      by (auto simp: parse_value.simps(2) split: list.splits)
    show ?thesis
    proof (cases "d = CHR ''}''")
      case False
      with prem s obj d obtain ms where ms: "parse_members n (d # ds) = Some (ms, r)" and v: "v = JObj ms"
        by (auto simp: parse_value.simps(2))
      have "parse_members n ((d # ds) @ t) = Some (ms, r @ t)"
        by (rule IH_members [OF _ obj d False ms]) (simp add: obj)
      with st obj skip_ws_ext [OF d] False v show ?thesis by (simp add: parse_value.simps(2))
    qed (use prem s st obj d skip_ws_ext [OF d] in \<open>auto simp: parse_value.simps(2)\<close>)
  next
    case arr
    with prem s obtain d ds where d: "skip_ws cs = d # ds"
      by (auto simp: parse_value.simps(2) split: list.splits)
    show ?thesis
    proof (cases "d = CHR '']''")
      case False
      with prem s arr d obtain js where js: "parse_elems n (d # ds) = Some (js, r)" and v: "v = JArr js"
        by (auto simp: parse_value.simps(2))
      have "parse_elems n ((d # ds) @ t) = Some (js, r @ t)"
        by (rule IH_elems [OF _ _ arr d False js]) (simp_all add: arr)
      with st arr skip_ws_ext [OF d] False v show ?thesis by (simp add: parse_value.simps(2))
    qed (use prem s st arr d skip_ws_ext [OF d] in \<open>auto simp: parse_value.simps(2)\<close>)
  next
    case other
    consider (str) "c = DQUOTE" | (n) "c = CHR ''n''" | (t) "c = CHR ''t''" | (f) "c = CHR ''f''"
      | (num) "c \<noteq> DQUOTE" "c \<noteq> CHR ''n''" "c \<noteq> CHR ''t''" "c \<noteq> CHR ''f''"
      by blast
    then show ?thesis
    proof cases
      case str
      from prem s str obtain x where "scan_str cs = Some (x, r)" "v = JStr x"
        by (auto simp: parse_value.simps(2))
      with st str show ?thesis by (simp add: parse_value.simps(2) scan_str_ext)
    next
      case n
      from prem s n have "after_word ''ull'' cs = Some r" "v = JNull"
        by (simp_all add: parse_value.simps(2))
      with st n show ?thesis by (simp add: parse_value.simps(2) after_word_ext)
    next
      case t
      from prem s t have "after_word ''rue'' cs = Some r" "v = JBool True"
        by (simp_all add: parse_value.simps(2))
      with st t show ?thesis by (simp add: parse_value.simps(2) after_word_ext)
    next
      case f
      from prem s f have "after_word ''alse'' cs = Some r" "v = JBool False"
        by (simp_all add: parse_value.simps(2))
      with st f show ?thesis by (simp add: parse_value.simps(2) after_word_ext)
    next
      case num
      with prem s other obtain l where l: "scan_number (c # cs) = Some (l, r)" and v: "v = JNum l"
        by (auto simp: parse_value.simps(2))
      have "scan_number ((c # cs) @ t) = Some (l, r @ t)"
        by (rule scan_number_ext [OF l]) (use "2.prems"(2) v in auto)
      with num other st v show ?thesis by (simp add: parse_value.simps(2))
    qed
  qed
next
  case (4 n s)
  from "4.prems"(1) obtain v r1 where v: "parse_value n s = Some (v, r1)"
    by (auto simp: parse_elems.simps(2) split: option.splits)
  with "4.prems"(1) obtain c cs where c: "skip_ws r1 = c # cs"
    by (auto simp: parse_elems.simps(2) split: list.splits)
  then have "r1 \<noteq> []" by auto
  then have vt: "parse_value n (s @ t) = Some (v, r1 @ t)" by (intro "4.IH"(1) [OF v]) simp
  show ?case
  proof (cases "c = CHR '',''")
    case True
    with "4.prems"(1) v c obtain vs' where vs: "parse_elems n cs = Some (vs', r)" "vs = v # vs'"
      by (auto simp: parse_elems.simps(2))
    have "parse_elems n (cs @ t) = Some (vs', r @ t)"
      by (rule "4.IH"(2) [OF v refl c True vs(1)])
    with vt skip_ws_ext [OF c] True vs show ?thesis by (simp add: parse_elems.simps(2))
  next
    case False
    with "4.prems"(1) v vt c skip_ws_ext [OF c] show ?thesis
      by (auto simp: parse_elems.simps(2) split: if_splits)
  qed
next
  case (6 n s)
  from "6.prems"(1) obtain qs key r1 r2 v r3 c cs where
    s: "skip_ws s = DQUOTE # qs" and key: "scan_str qs = Some (key, r1)"
    and co: "skip_ws r1 = CHR '':'' # r2" and v: "parse_value n r2 = Some (v, r3)"
    and c: "skip_ws r3 = c # cs"
    by (auto simp: parse_members.simps(2) split: list.splits if_splits option.splits)
  then have "r3 \<noteq> []" by auto
  then have vt: "parse_value n (r2 @ t) = Some (v, r3 @ t)"
    by (intro "6.IH"(1)[OF s _ key refl co _ v]) simp_all
  note ext = skip_ws_ext [OF s] scan_str_ext [OF key] skip_ws_ext [OF co] skip_ws_ext [OF c] vt
  show ?case
  proof (cases "c = CHR '',''")
    case True
    with "6.prems"(1) s key co v c obtain ms' where
      ms: "parse_members n cs = Some (ms', r)" "ms = (key, v) # ms'"
      by (auto simp: parse_members.simps(2))
    have "parse_members n (cs @ t) = Some (ms', r @ t)"
      by (rule "6.IH"(2) [OF s _ key refl co _ v refl c True ms(1)]) simp_all
    with ext True ms show ?thesis by (simp add: parse_members.simps(2))
  next
    case False
    with "6.prems"(1) s key co v c ext show ?thesis
      by (auto simp: parse_members.simps(2) split: if_splits)
  qed
qed auto

text \<open>A proper prefix of the text of a value that is no number is never a complete value.\<close>

lemma print_head_not_number:
  "wf_json j \<Longrightarrow> \<not> is_JNum j \<Longrightarrow> json_print j = c # cs \<Longrightarrow> \<not> is_digit c \<and> c \<noteq> CHR ''-''"
  by (cases j) (auto simp: quote_def is_digit_def code_def split: if_splits)

lemma parse_value_number_head:
  "parse_value n (c # cs) = Some (JNum l, r) \<Longrightarrow> \<not> is_ws c \<Longrightarrow> is_digit c \<or> c = CHR ''-''"
  by (cases n) (auto simp: parse_value.simps(2) skip_ws_def dest: scan_number_head
      split: list.splits if_splits)

lemma truncated_value_fails:
  assumes wf: "wf_json j" and no_num: "\<not> is_JNum j" and cut: "json_print j = p @ t" and t: "t \<noteq> []"
  shows "json_parse p = None"
proof (rule ccontr)
  assume "json_parse p \<noteq> None"
  then obtain v r where p: "parse_value (2 * length p + 2) p = Some (v, r)" and r: "skip_ws r = []"
    by (auto simp: json_parse_def split: option.splits if_splits)
  have "p \<noteq> []" using p by (auto simp: parse_value.simps(2) numeral_2_eq_2)
  then obtain c cs where ps: "p = c # cs" by (cases p) auto
  with cut print_head [OF wf] have ws: "\<not> is_ws c" by (metis append_Cons list.inject value_head_def)
  have "\<not> is_digit c \<and> c \<noteq> CHR ''-''"
    using print_head_not_number [OF wf no_num] cut ps by simp
  with p ps ws have "\<not> is_JNum v"
    by (cases v) (auto dest: parse_value_number_head)
  then have ext: "parse_value (2 * length p + 2) (p @ t) = Some (v, r @ t)"
    by (intro parse_ext(1) [OF p]) simp
  have "parse_value (2 * length (p @ t) + 2) (p @ t) = Some (j, [])"
    using json_prints_back [OF wf] cut [symmetric] unfolding prints_back_def
    by (metis append_Nil2 le_add1 num_stop_punct(4))
  moreover have "parse_value (2 * length (p @ t) + 2) (p @ t) = Some (v, r @ t)"
    using ext by (rule parse_fuel_enough(1)) simp
  ultimately show False using t by simp
qed

subsection \<open>Where an at sign can come from\<close>

text \<open>Escaping leaves the at sign as it is, so it occurs in the text where a string has it.\<close>

fun has_at :: "json \<Rightarrow> bool" where
  "has_at (JStr s) = (CHR ''@'' \<in> set s)"
| "has_at (JArr js) = (\<exists>j \<in> set js. has_at j)"
| "has_at (JObj ms) = (\<exists>(k, v) \<in> set ms. CHR ''@'' \<in> set k \<or> has_at v)"
| "has_at j = False"

lemma hex_digit_not_at: "n < 16 \<Longrightarrow> hex_digit n \<noteq> CHR ''@''"
proof -
  have "list_all (\<lambda>n. hex_digit n \<noteq> CHR ''@'') [0..<16]" by code_simp
  then show "n < 16 \<Longrightarrow> hex_digit n \<noteq> CHR ''@''" by (auto simp: list_all_iff)
qed

lemma escape_char_at: "CHR ''@'' \<in> set (escape_char c) \<longleftrightarrow> c = CHR ''@''"
proof -
  have "code c < 256" by (rule code_bound)
  then have "hex_digit (code c div 16) \<noteq> CHR ''@''" "hex_digit (code c mod 16) \<noteq> CHR ''@''"
    by (simp_all add: hex_digit_not_at)
  then show ?thesis by (auto simp: escape_char_def needs_u_def code_def)
qed

lemma quote_at: "CHR ''@'' \<in> set (quote s) \<longleftrightarrow> CHR ''@'' \<in> set s"
  by (auto simp: quote_def escape_char_at)

lemma scan_digits_at: "scan_digits s = Some (a, r) \<Longrightarrow> CHR ''@'' \<in> set a \<Longrightarrow> False"
  by (auto simp: scan_digits_def is_digit_def code_def dest: set_takeWhileD split: if_splits)

lemma scan_parts_at:
  "scan_int s = Some (a, r) \<Longrightarrow> CHR ''@'' \<in> set a \<Longrightarrow> False"
  "scan_frac s = Some (a, r) \<Longrightarrow> CHR ''@'' \<in> set a \<Longrightarrow> False"
  "scan_exp s = Some (a, r) \<Longrightarrow> CHR ''@'' \<in> set a \<Longrightarrow> False"
  by (auto simp: scan_int_def scan_frac_def scan_exp_def
      dest: scan_digits_at split: list.splits if_splits)

lemma scan_number_at: "scan_number s = Some (a, r) \<Longrightarrow> CHR ''@'' \<notin> set a"
  by (auto simp: scan_number_def seq_scan_def split: list.splits if_splits option.splits)
     (use scan_parts_at in blast)+

lemma join_with_set:
  "set (join_with c xs) = (\<Union>x \<in> set xs. set x) \<union> (if 2 \<le> length xs then {c} else {})"
  by (induction c xs rule: join_with.induct) auto

lemma json_print_at: "wf_json j \<Longrightarrow> CHR ''@'' \<in> set (json_print j) \<longleftrightarrow> has_at j"
proof (induction j)
  case (JNum l)
  then show ?case by (auto dest: scan_number_at)
next
  case (JArr js)
  then show ?case by (auto simp: join_with_set list_all_iff)
next
  case (JObj ms)
  have v: "CHR ''@'' \<in> set (json_print v) \<longleftrightarrow> has_at v" if "(k, v) \<in> set ms" for k v
    using that JObj by (fastforce simp: list_all_iff)
  have "CHR ''@'' \<in> set (json_print (JObj ms)) \<longleftrightarrow> (\<exists>m \<in> set ms. CHR ''@'' \<in> set (print_member m))"
    by (simp add: json_print_JObj join_with_set del: json_print.simps)
  also have "\<dots> \<longleftrightarrow> (\<exists>(k, v) \<in> set ms. CHR ''@'' \<in> set k \<or> has_at v)"
    by (rule bex_cong) (auto simp: print_member_def quote_at v)
  finally show ?case by simp
qed (simp_all add: quote_at)

end
