(* ===== verification/Go_Base64.thy ===== *)
theory Go_Base64
  imports Nethub_Prelude
begin

text \<open>
  encoding/base64, StdEncoding: what encoding/json uses for a byte slice and crypto.go for
  public keys. Encoding works on groups of three bytes; decoding drops carriage returns and
  newlines, wants the padding, and ignores the spare bits before it, as the library does.
\<close>

definition b64_alphabet :: string where
  "b64_alphabet = ''ABCDEFGHIJKLMNOPQRSTUVWXYZabcdefghijklmnopqrstuvwxyz0123456789+/''"

fun index_from :: "nat \<Rightarrow> char \<Rightarrow> string \<Rightarrow> nat option" where
  "index_from i c [] = None"
| "index_from i c (x # xs) = (if x = c then Some i else index_from (Suc i) c xs)"

definition b64_char :: "nat \<Rightarrow> char" where
  "b64_char n = b64_alphabet ! n"

definition b64_val :: "char \<Rightarrow> nat option" where
  "b64_val c = index_from 0 c b64_alphabet"

text \<open>The four 6-bit digits of three bytes, and back.\<close>

definition b64_digits :: "nat \<Rightarrow> nat \<Rightarrow> nat \<Rightarrow> nat \<times> nat \<times> nat \<times> nat" where
  "b64_digits a b c =
     (a div 4, (a mod 4) * 16 + b div 16, (b mod 16) * 4 + c div 64, c mod 64)"

definition b64_byte1 :: "nat \<Rightarrow> nat \<Rightarrow> nat" where
  "b64_byte1 p q = p * 4 + q div 16"

definition b64_byte2 :: "nat \<Rightarrow> nat \<Rightarrow> nat" where
  "b64_byte2 q r = (q mod 16) * 16 + r div 4"

definition b64_byte3 :: "nat \<Rightarrow> nat \<Rightarrow> nat" where
  "b64_byte3 r s = (r mod 4) * 64 + s"

fun b64_encode :: "bytes \<Rightarrow> string" where
  "b64_encode [] = []"
| "b64_encode [a] =
     (case b64_digits (unat a) 0 0 of (p, q, r, s) \<Rightarrow> [b64_char p, b64_char q] @ ''=='')"
| "b64_encode [a, b] =
     (case b64_digits (unat a) (unat b) 0 of (p, q, r, s) \<Rightarrow>
        [b64_char p, b64_char q, b64_char r] @ ''='')"
| "b64_encode (a # b # c # xs) =
     (case b64_digits (unat a) (unat b) (unat c) of (p, q, r, s) \<Rightarrow>
        [b64_char p, b64_char q, b64_char r, b64_char s] @ b64_encode xs)"

fun b64_decode_groups :: "string \<Rightarrow> bytes option" where
  "b64_decode_groups [] = Some []"
| "b64_decode_groups (w # x # y # z # cs) =
     (case (b64_val w, b64_val x) of
        (Some p, Some q) \<Rightarrow>
          (if y = CHR ''='' then
             (if z = CHR ''='' \<and> cs = [] then Some [of_nat (b64_byte1 p q)] else None)
           else
             (case b64_val y of
                None \<Rightarrow> None
              | Some r \<Rightarrow>
                  (if z = CHR ''='' then
                     (if cs = [] then Some [of_nat (b64_byte1 p q), of_nat (b64_byte2 q r)]
                      else None)
                   else
                     (case b64_val z of
                        None \<Rightarrow> None
                      | Some s \<Rightarrow>
                          map_option (\<lambda>bs. of_nat (b64_byte1 p q) # of_nat (b64_byte2 q r)
                              # of_nat (b64_byte3 r s) # bs) (b64_decode_groups cs)))))
      | _ \<Rightarrow> None)"
| "b64_decode_groups cs = None"

definition b64_decode :: "string \<Rightarrow> bytes option" where
  "b64_decode s = b64_decode_groups (filter (\<lambda>c. c \<noteq> CHR 0x0A \<and> c \<noteq> CHR 0x0D) s)"

lemma b64_table:
  "list_all (\<lambda>n. b64_val (b64_char n) = Some n \<and> b64_char n \<noteq> CHR ''='' \<and>
     b64_char n \<noteq> CHR ''@'' \<and> b64_char n \<noteq> CHR 0x0A \<and> b64_char n \<noteq> CHR 0x0D \<and>
     32 \<le> (of_char (b64_char n) :: nat)) [0..<64]"
  by code_simp

lemma b64_char_facts:
  assumes "n < 64"
  shows "b64_val (b64_char n) = Some n" and "b64_char n \<noteq> CHR ''=''"
    and "b64_char n \<noteq> CHR ''@''" and "b64_char n \<noteq> CHR 0x0A" and "b64_char n \<noteq> CHR 0x0D"
  using b64_table assms by (auto simp: list_all_iff)

lemma b64_digits_bounds:
  assumes "b64_digits a b c = (p, q, r, s)" and "a < 256" "b < 256" "c < 256"
  shows "p < 64" "q < 64" "r < 64" "s < 64"
    and "b64_byte1 p q = a" "b64_byte2 q r = b" "b64_byte3 r s = c"
proof -
  from assms(1) have d: "p = a div 4" "q = (a mod 4) * 16 + b div 16"
      "r = (b mod 16) * 4 + c div 64" "s = c mod 64"
    by (auto simp: b64_digits_def)
  show "p < 64" and "s < 64" using d assms(2) by auto
  have b: "b div 16 < 16" and c: "c div 64 < 4" using assms(3,4) by auto
  have a4: "a mod 4 < 4" and b16: "b mod 16 < 16" by auto
  show "q < 64" using d(2) b a4 by linarith
  show "r < 64" using d(3) c b16 by linarith
  show "b64_byte1 p q = a" using b by (simp add: b64_byte1_def d)
  show "b64_byte2 q r = b" using b c by (simp add: b64_byte2_def d)
  show "b64_byte3 r s = c" using c by (simp add: b64_byte3_def d)
qed

lemma unat_byte_bound [simp]: "unat (b :: 8 word) < 256"
  using unsigned_less [of b] by simp

lemma b64_decode_encode_groups: "b64_decode_groups (b64_encode bs) = Some bs"
proof (induction bs rule: b64_encode.induct)
  case 1
  then show ?case by simp
next
  case (2 a)
  obtain p q r s where d: "b64_digits (unat a) 0 0 = (p, q, r, s)"
    by (metis surj_pair)
  from b64_digits_bounds [OF d] d show ?case by (simp add: b64_char_facts)
next
  case (3 a b)
  obtain p q r s where d: "b64_digits (unat a) (unat b) 0 = (p, q, r, s)"
    by (metis surj_pair)
  from b64_digits_bounds [OF d] d show ?case by (simp add: b64_char_facts)
next
  case (4 a b c xs)
  obtain p q r s where d: "b64_digits (unat a) (unat b) (unat c) = (p, q, r, s)"
    by (metis surj_pair)
  from b64_digits_bounds [OF d] d 4 show ?case by (simp add: b64_char_facts)
qed

lemma b64_encode_chars:
  "c \<in> set (b64_encode bs) \<Longrightarrow> c \<noteq> CHR ''@'' \<and> c \<noteq> CHR 0x0A \<and> c \<noteq> CHR 0x0D"
proof (induction bs rule: b64_encode.induct)
  case (2 a)
  obtain p q r s where d: "b64_digits (unat a) 0 0 = (p, q, r, s)"
    by (metis surj_pair)
  from b64_digits_bounds [OF d] d 2 show ?case by (auto simp: b64_char_facts)
next
  case (3 a b)
  obtain p q r s where d: "b64_digits (unat a) (unat b) 0 = (p, q, r, s)"
    by (metis surj_pair)
  from b64_digits_bounds [OF d] d 3 show ?case by (auto simp: b64_char_facts)
next
  case (4 a b c xs)
  obtain p q r s where d: "b64_digits (unat a) (unat b) (unat c) = (p, q, r, s)"
    by (metis surj_pair)
  from b64_digits_bounds [OF d] d 4 show ?case by (auto simp: b64_char_facts)
qed simp

lemma b64_round_trip [simp]: "b64_decode (b64_encode bs) = Some bs"
proof -
  have "filter (\<lambda>c. c \<noteq> CHR 0x0A \<and> c \<noteq> CHR 0x0D) (b64_encode bs) = b64_encode bs"
    by (rule filter_True) (use b64_encode_chars in blast)
  then show ?thesis by (simp add: b64_decode_def b64_decode_encode_groups)
qed

end
