(* ===== verification/Go_Strconv.thy ===== *)
theory Go_Strconv
  imports Go_Json
begin

text \<open>
  Decimal integers: the \<open>%v\<close> of package fmt on an int and strconv.Atoi, with the range of a
  64-bit int.
\<close>

definition digit_char :: "nat \<Rightarrow> char" where
  "digit_char d = char_of (48 + d)"

fun show_nat :: "nat \<Rightarrow> string" where
  "show_nat n = (if n < 10 then [digit_char n] else show_nat (n div 10) @ [digit_char (n mod 10)])"

declare show_nat.simps [simp del]

definition show_int :: "int \<Rightarrow> string" where
  "show_int i = (if i < 0 then CHR ''-'' # show_nat (nat (- i)) else show_nat (nat i))"

definition show_int64 :: "int64 \<Rightarrow> string" where
  "show_int64 w = show_int (sint w)"

fun digits_val :: "nat \<Rightarrow> string \<Rightarrow> nat option" where
  "digits_val acc [] = Some acc"
| "digits_val acc (c # cs) =
     (if is_digit c then digits_val (acc * 10 + (code c - 48)) cs else None)"

definition parse_uint :: "string \<Rightarrow> nat option" where
  "parse_uint s = (if s = [] then None else digits_val 0 s)"

definition int_range :: "int \<Rightarrow> bool" where
  "int_range i \<longleftrightarrow> - (2 ^ 63) \<le> i \<and> i < 2 ^ 63"

definition signed_val :: "string \<Rightarrow> int option" where
  "signed_val s =
     (case s of
        [] \<Rightarrow> None
      | c # cs \<Rightarrow>
          if c = CHR ''-'' then map_option (\<lambda>n. - int n) (parse_uint cs)
          else if c = CHR ''+'' then map_option int (parse_uint cs)
          else map_option int (parse_uint s))"

definition atoi :: "string \<Rightarrow> int option" where
  "atoi s = (case signed_val s of Some i \<Rightarrow> if int_range i then Some i else None | None \<Rightarrow> None)"

lemma digit_char_facts [simp]:
  "d < 10 \<Longrightarrow> code (digit_char d) = 48 + d" "d < 10 \<Longrightarrow> is_digit (digit_char d)"
  by (simp_all add: digit_char_def code_def is_digit_def)

lemma show_nat_digits: "c \<in> set (show_nat n) \<Longrightarrow> is_digit c"
  by (induction n rule: show_nat.induct) (subst (asm) (2) show_nat.simps, auto split: if_splits)

lemma show_nat_not_Nil [simp]: "show_nat n \<noteq> []"
  by (subst show_nat.simps) simp

lemma digits_val_append:
  "digits_val acc (s @ t) = (case digits_val acc s of None \<Rightarrow> None | Some a \<Rightarrow> digits_val a t)"
  by (induction s arbitrary: acc) auto

lemma digits_val_show_nat:
  "digits_val 0 (show_nat n) = Some n"
proof (induction n rule: show_nat.induct)
  case (1 n)
  then show ?case by (subst show_nat.simps) (auto simp: digits_val_append)
qed

lemma parse_uint_show_nat [simp]: "parse_uint (show_nat n) = Some n"
  by (simp add: parse_uint_def digits_val_show_nat)

lemma is_digit_not: "is_digit c \<Longrightarrow> c \<noteq> CHR ''-'' \<and> c \<noteq> CHR ''+'' \<and> c \<noteq> CHR ''@'' \<and> c \<noteq> CHR ''/''"
  by (auto simp: is_digit_def code_def)

lemma signed_val_show_int [simp]: "signed_val (show_int i) = Some i"
proof (cases "i < 0")
  case False
  obtain c cs where s: "show_nat (nat i) = c # cs"
    using show_nat_not_Nil by (cases "show_nat (nat i)") auto
  then have "is_digit c" using show_nat_digits [of c "nat i"] by simp
  with False s show ?thesis
    using parse_uint_show_nat [of "nat i"] is_digit_not [of c] by (simp add: signed_val_def show_int_def)
qed (simp add: signed_val_def show_int_def)

lemma atoi_show_int [simp]: "int_range i \<Longrightarrow> atoi (show_int i) = Some i"
  by (simp add: atoi_def)

lemma show_int_chars: "c \<in> set (show_int i) \<Longrightarrow> c \<noteq> CHR ''@'' \<and> c \<noteq> CHR ''/''"
  by (auto simp: show_int_def dest!: show_nat_digits is_digit_not split: if_splits)

lemma show_int64_no_slash [simp]: "CHR ''/'' \<notin> set (show_int64 w)"
  using show_int_chars by (fastforce simp: show_int64_def)

lemma show_int_inject: "show_int i = show_int j \<longleftrightarrow> i = j"
  by (metis option.inject signed_val_show_int)

lemma show_int64_inject: "show_int64 v = show_int64 w \<longleftrightarrow> v = w"
  by (auto simp: show_int64_def show_int_inject intro: signed_word_eqI)

end
