(* ===== verification/Packets.thy ===== *)
theory Packets
  imports Go_Json Go_Base64 Go_Strconv
begin

text \<open>
  packet.go: the packets, their type codes and ids, and their JSON form under the struct
  tags (the names, omitempty, a byte slice as base64). A field of type interface{} holds
  the JSON value it is encoded as or decoded from; a json.RawMessage holds the value its
  text denotes. A nil slice (None) differs from an empty one, as in Go.
\<close>

type_synonym packet_type_code = int

definition UNKOWN_PACKET :: packet_type_code where "UNKOWN_PACKET = 0"
definition REQUEST_PACKET :: packet_type_code where "REQUEST_PACKET = 1"
definition ACK_PACKET :: packet_type_code where "ACK_PACKET = 2"
definition RESPONSE_PACKET :: packet_type_code where "RESPONSE_PACKET = 3"
definition PUBLISH_PACKET :: packet_type_code where "PUBLISH_PACKET = 4"
definition SUBSCRIBE_PACKET :: packet_type_code where "SUBSCRIBE_PACKET = 5"
definition UNSUBSCRIBE_PACKET :: packet_type_code where "UNSUBSCRIBE_PACKET = 6"
definition BROADCAST_PACKET :: packet_type_code where "BROADCAST_PACKET = 7"
definition PING_PACKET :: packet_type_code where "PING_PACKET = 10"
definition PONG_PACKET :: packet_type_code where "PONG_PACKET = 11"
definition HEARTBEAT_PACKET :: packet_type_code where "HEARTBEAT_PACKET = 12"
definition STREAM_REQUEST_PACKET :: packet_type_code where "STREAM_REQUEST_PACKET = 20"
definition STREAM_RESPONSE_PACKET :: packet_type_code where "STREAM_RESPONSE_PACKET = 21"
definition STREAM_CLOSE_PACKET :: packet_type_code where "STREAM_CLOSE_PACKET = 22"

lemmas packet_codes =
  UNKOWN_PACKET_def REQUEST_PACKET_def ACK_PACKET_def RESPONSE_PACKET_def PUBLISH_PACKET_def
  SUBSCRIBE_PACKET_def UNSUBSCRIBE_PACKET_def BROADCAST_PACKET_def PING_PACKET_def
  PONG_PACKET_def HEARTBEAT_PACKET_def STREAM_REQUEST_PACKET_def STREAM_RESPONSE_PACKET_def
  STREAM_CLOSE_PACKET_def

subsection \<open>The packets\<close>

record request_packet =
  rq_Id :: string
  rq_Method :: string
  rq_Params :: "bytes option"
  rq_ClientId :: string

record publish_packet =
  pb_Id :: string
  pb_Topic :: string
  pb_Params :: "bytes option"
  pb_ClientId :: string

record subscribe_packet =
  sb_Id :: string
  sb_Topic :: string
  sb_Attributes :: "string list option"

record response_packet =
  rs_Id :: string
  rs_Result :: json
  rs_Error :: string

record ack_packet =
  ak_Id :: string

record stream_request_packet =
  sr_StreamId :: string
  sr_Id :: string
  sr_Method :: string
  sr_Params :: json

record stream_response_packet =
  sp_StreamId :: string
  sp_Id :: string
  sp_Result :: json
  sp_Error :: string

record stream_close_packet =
  sc_Id :: string
  sc_StreamId :: string
  sc_Error :: string

text \<open>
  The dynamic types behind INetPacket. UnSubscribePacket and BroadcastPacket are defined
  types over the fields of SubscribePacket and PublishPacket: the same fields, another
  type, so a type assertion to one of them fails on the other.
\<close>

datatype inet_packet =
    RequestPacket request_packet
  | AckPacket ack_packet
  | ResponsePacket response_packet
  | PublishPacket publish_packet
  | SubscribePacket subscribe_packet
  | UnSubscribePacket subscribe_packet
  | BroadcastPacket publish_packet
  | StreamRequestPacket stream_request_packet
  | StreamRequestRawPacket stream_request_packet
  | StreamResponsePacket stream_response_packet
  | StreamClosePacket stream_close_packet
  | PingPacket string
  | PongPacket string
  | HeartbeatPacket string

fun TypeCode :: "inet_packet \<Rightarrow> packet_type_code" where
  "TypeCode (RequestPacket r) = REQUEST_PACKET"
| "TypeCode (AckPacket r) = ACK_PACKET"
| "TypeCode (ResponsePacket r) = RESPONSE_PACKET"
| "TypeCode (PublishPacket r) = PUBLISH_PACKET"
| "TypeCode (SubscribePacket r) = SUBSCRIBE_PACKET"
| "TypeCode (UnSubscribePacket r) = UNSUBSCRIBE_PACKET"
| "TypeCode (BroadcastPacket r) = BROADCAST_PACKET"
| "TypeCode (StreamRequestPacket r) = STREAM_REQUEST_PACKET"
| "TypeCode (StreamRequestRawPacket r) = STREAM_REQUEST_PACKET"
| "TypeCode (StreamResponsePacket r) = STREAM_RESPONSE_PACKET"
| "TypeCode (StreamClosePacket r) = STREAM_CLOSE_PACKET"
| "TypeCode (PingPacket s) = PING_PACKET"
| "TypeCode (PongPacket s) = PONG_PACKET"
| "TypeCode (HeartbeatPacket s) = HEARTBEAT_PACKET"

fun GetId :: "inet_packet \<Rightarrow> string" where
  "GetId (RequestPacket r) = rq_Id r"
| "GetId (AckPacket r) = ak_Id r"
| "GetId (ResponsePacket r) = rs_Id r"
| "GetId (PublishPacket r) = pb_Id r"
| "GetId (SubscribePacket r) = sb_Id r"
| "GetId (UnSubscribePacket r) = sb_Id r"
| "GetId (BroadcastPacket r) = pb_Id r"
| "GetId (StreamRequestPacket r) = sr_Id r"
| "GetId (StreamRequestRawPacket r) = sr_Id r"
| "GetId (StreamResponsePacket r) = sp_Id r"
| "GetId (StreamClosePacket r) = sc_Id r"
| "GetId (PingPacket s) = []"
| "GetId (PongPacket s) = []"
| "GetId (HeartbeatPacket s) = []"

subsection \<open>Packets as JSON values\<close>

text \<open>omitempty on a string drops the empty one; on an interface it drops nil.\<close>

definition opt_str :: "string \<Rightarrow> string \<Rightarrow> (string \<times> json) list" where
  "opt_str k s = (if s = [] then [] else [(k, JStr s)])"

definition opt_any :: "string \<Rightarrow> json \<Rightarrow> (string \<times> json) list" where
  "opt_any k j = (if j = JNull then [] else [(k, j)])"

definition json_bytes :: "bytes option \<Rightarrow> json" where
  "json_bytes b = (case b of None \<Rightarrow> JNull | Some bs \<Rightarrow> JStr (b64_encode bs))"

definition json_strings :: "string list option \<Rightarrow> json" where
  "json_strings a = (case a of None \<Rightarrow> JNull | Some ss \<Rightarrow> JArr (map JStr ss))"

definition request_fields :: "request_packet \<Rightarrow> (string \<times> json) list" where
  "request_fields r = opt_str ''id'' (rq_Id r) @ [(''method'', JStr (rq_Method r)),
     (''params'', json_bytes (rq_Params r))] @ opt_str ''client_id'' (rq_ClientId r)"

definition publish_fields :: "publish_packet \<Rightarrow> (string \<times> json) list" where
  "publish_fields r = opt_str ''id'' (pb_Id r) @ [(''topic'', JStr (pb_Topic r)),
     (''params'', json_bytes (pb_Params r))] @ opt_str ''client_id'' (pb_ClientId r)"

definition subscribe_fields :: "subscribe_packet \<Rightarrow> (string \<times> json) list" where
  "subscribe_fields r = opt_str ''id'' (sb_Id r) @ [(''topic'', JStr (sb_Topic r)),
     (''attributes'', json_strings (sb_Attributes r))]"

definition response_fields :: "response_packet \<Rightarrow> (string \<times> json) list" where
  "response_fields r = opt_str ''id'' (rs_Id r) @ opt_any ''result'' (rs_Result r) @
     opt_str ''error'' (rs_Error r)"

definition ack_fields :: "ack_packet \<Rightarrow> (string \<times> json) list" where
  "ack_fields r = opt_str ''id'' (ak_Id r)"

definition stream_request_fields :: "stream_request_packet \<Rightarrow> (string \<times> json) list" where
  "stream_request_fields r = [(''stream_id'', JStr (sr_StreamId r))] @ opt_str ''id'' (sr_Id r) @
     opt_str ''method'' (sr_Method r) @ [(''params'', sr_Params r)]"

definition stream_response_fields :: "stream_response_packet \<Rightarrow> (string \<times> json) list" where
  "stream_response_fields r = [(''stream_id'', JStr (sp_StreamId r))] @ opt_str ''id'' (sp_Id r) @
     opt_any ''result'' (sp_Result r) @ opt_str ''error'' (sp_Error r)"

definition stream_close_fields :: "stream_close_packet \<Rightarrow> (string \<times> json) list" where
  "stream_close_fields r = opt_str ''id'' (sc_Id r) @ [(''stream_id'', JStr (sc_StreamId r))] @
     opt_str ''error'' (sc_Error r)"

fun packet_json :: "inet_packet \<Rightarrow> json" where
  "packet_json (RequestPacket r) = JObj (request_fields r)"
| "packet_json (AckPacket r) = JObj (ack_fields r)"
| "packet_json (ResponsePacket r) = JObj (response_fields r)"
| "packet_json (PublishPacket r) = JObj (publish_fields r)"
| "packet_json (SubscribePacket r) = JObj (subscribe_fields r)"
| "packet_json (UnSubscribePacket r) = JObj (subscribe_fields r)"
| "packet_json (BroadcastPacket r) = JObj (publish_fields r)"
| "packet_json (StreamRequestPacket r) = JObj (stream_request_fields r)"
| "packet_json (StreamRequestRawPacket r) = JObj (stream_request_fields r)"
| "packet_json (StreamResponsePacket r) = JObj (stream_response_fields r)"
| "packet_json (StreamClosePacket r) = JObj (stream_close_fields r)"
| "packet_json (PingPacket s) = JStr s"
| "packet_json (PongPacket s) = JStr s"
| "packet_json (HeartbeatPacket s) = JStr s"

lemmas packet_fields =
  request_fields_def publish_fields_def subscribe_fields_def response_fields_def ack_fields_def
  stream_request_fields_def stream_response_fields_def stream_close_fields_def

end
