(* ===== verification/Simple_Codec.thy ===== *)
theory Simple_Codec
  imports Packets
begin

text \<open>
  codec.go: the ICodec interface and SimpleCodec, which writes a packet as its type code,
  an at sign and the JSON text of its content, and reads it back by splitting at every at
  sign. The decoding of each struct follows encoding/json: keys match field names without
  regard to (ASCII) case, unknown keys are skipped, null leaves a field as it is, a value of
  the wrong type makes the decoding fail.
\<close>

subsection \<open>Values for interface{} and struct fields\<close>

text \<open>
  A decoded object becomes a map with string keys: later keys win, and the encoder prints
  it in the order of its keys. canon is that order.
\<close>

fun str_less :: "string \<Rightarrow> string \<Rightarrow> bool" where
  "str_less [] [] = False"
| "str_less [] (y # ys) = True"
| "str_less (x # xs) [] = False"
| "str_less (x # xs) (y # ys) = (code x < code y \<or> code x = code y \<and> str_less xs ys)"

fun put_sorted :: "string \<Rightarrow> json \<Rightarrow> (string \<times> json) list \<Rightarrow> (string \<times> json) list" where
  "put_sorted k v [] = [(k, v)]"
| "put_sorted k v ((k', v') # ms) =
     (if k = k' then (k, v) # ms
      else if str_less k k' then (k, v) # (k', v') # ms
      else (k', v') # put_sorted k v ms)"

fun canon :: "json \<Rightarrow> json" where
  "canon (JArr js) = JArr (map canon js)"
| "canon (JObj ms) =
     JObj (fold (\<lambda>(k, v). put_sorted k v) (map (\<lambda>(k, v). (k, canon v)) ms) [])"
| "canon j = j"

fun canonical :: "json \<Rightarrow> bool" where
  "canonical (JArr js) = list_all canonical js"
| "canonical (JObj ms) =
     (list_all (\<lambda>(k, v). canonical v) ms \<and> sorted_wrt str_less (map fst ms))"
| "canonical j = True"

lemma str_less_irrefl [simp]: "\<not> str_less k k"
  by (induction k) auto

lemma str_less_asym: "str_less a b \<Longrightarrow> \<not> str_less b a"
  by (induction a b rule: str_less.induct) auto

lemma put_sorted_last:
  "(\<And>k'. k' \<in> fst ` set ms \<Longrightarrow> str_less k' k) \<Longrightarrow> put_sorted k v ms = ms @ [(k, v)]"
proof (induction ms)
  case (Cons m ms)
  obtain k' v' where m: "m = (k', v')" by (cases m)
  then have "str_less k' k" using Cons.prems by simp
  then have "k \<noteq> k'" "\<not> str_less k k'" using str_less_asym by auto
  with Cons m show ?case by simp
qed simp

lemma fold_put_sorted:
  "sorted_wrt str_less (map fst (acc @ ms)) \<Longrightarrow> fold (\<lambda>(k, v). put_sorted k v) ms acc = acc @ ms"
proof (induction ms arbitrary: acc)
  case (Cons m ms)
  obtain k v where m: "m = (k, v)" by (cases m)
  have "put_sorted k v acc = acc @ [(k, v)]"
    by (rule put_sorted_last) (use Cons.prems m in \<open>auto simp: sorted_wrt_append\<close>)
  with Cons.IH [of "acc @ [(k, v)]"] Cons.prems m show ?case by simp
qed simp

lemma canon_canonical: "canonical j \<Longrightarrow> canon j = j"
proof (induction j)
  case (JArr js)
  then show ?case by (simp add: list_all_iff map_idI)
next
  case (JObj ms)
  have "map (\<lambda>(k, v). (k, canon v)) ms = ms"
    by (rule map_idI) (use JObj in \<open>fastforce simp: list_all_iff\<close>)
  with JObj.prems fold_put_sorted [of "[]" ms] show ?case by simp
qed auto

definition to_lower :: "char \<Rightarrow> char" where
  "to_lower c = (if 65 \<le> code c \<and> code c \<le> 90 then char_of (code c + 32) else c)"

definition fold_eq :: "string \<Rightarrow> string \<Rightarrow> bool" where
  "fold_eq a b \<longleftrightarrow> map to_lower a = map to_lower b"

fun decode_field :: "string \<Rightarrow> (json \<Rightarrow> 'a \<Rightarrow> 'a option) \<Rightarrow> (string \<times> json) list \<Rightarrow> 'a \<Rightarrow> 'a option" where
  "decode_field name dec [] cur = Some cur"
| "decode_field name dec ((k, v) # ms) cur =
     (if fold_eq k name then
        (case dec v cur of None \<Rightarrow> None | Some c \<Rightarrow> decode_field name dec ms c)
      else decode_field name dec ms cur)"

fun dec_string :: "json \<Rightarrow> string \<Rightarrow> string option" where
  "dec_string (JStr s) cur = Some s"
| "dec_string JNull cur = Some cur"
| "dec_string _ cur = None"

definition dec_any :: "json \<Rightarrow> json \<Rightarrow> json option" where
  "dec_any v cur = Some (canon v)"

text \<open>A json.RawMessage takes the value as it stands.\<close>

definition dec_raw :: "json \<Rightarrow> json \<Rightarrow> json option" where
  "dec_raw v cur = Some v"

fun dec_uint8 :: "json \<Rightarrow> 8 word option" where
  "dec_uint8 (JNum l) =
     (case parse_uint l of Some n \<Rightarrow> if n < 256 then Some (of_nat n) else None | None \<Rightarrow> None)"
| "dec_uint8 JNull = Some 0"
| "dec_uint8 _ = None"

fun dec_bytes :: "json \<Rightarrow> bytes option \<Rightarrow> bytes option option" where
  "dec_bytes (JStr s) cur = map_option Some (b64_decode s)"
| "dec_bytes JNull cur = Some None"
| "dec_bytes (JArr js) cur = map_option Some (those (map dec_uint8 js))"
| "dec_bytes _ cur = None"

definition dec_strings :: "json \<Rightarrow> string list option \<Rightarrow> string list option option" where
  "dec_strings v cur =
     (case v of
        JNull \<Rightarrow> Some None
      | JArr js \<Rightarrow> map_option Some (those (map (\<lambda>j. dec_string j []) js))
      | _ \<Rightarrow> None)"

text \<open>A struct accepts an object, or null, which leaves it zero.\<close>

definition decode_struct :: "json \<Rightarrow> 'r \<Rightarrow> ((string \<times> json) list \<Rightarrow> 'r option) \<Rightarrow> 'r option" where
  "decode_struct j zero dec =
     (case j of JObj ms \<Rightarrow> dec ms | JNull \<Rightarrow> Some zero | _ \<Rightarrow> None)"

definition decode_request :: "json \<Rightarrow> request_packet option" where
  "decode_request j = decode_struct j
     \<lparr>rq_Id = [], rq_Method = [], rq_Params = None, rq_ClientId = []\<rparr>
     (\<lambda>ms. case (decode_field ''id'' dec_string ms [], decode_field ''method'' dec_string ms [],
                 decode_field ''params'' dec_bytes ms None,
                 decode_field ''client_id'' dec_string ms []) of
             (Some i, Some m, Some p, Some c) \<Rightarrow>
               Some \<lparr>rq_Id = i, rq_Method = m, rq_Params = p, rq_ClientId = c\<rparr>
           | _ \<Rightarrow> None)"

definition decode_publish :: "json \<Rightarrow> publish_packet option" where
  "decode_publish j = decode_struct j
     \<lparr>pb_Id = [], pb_Topic = [], pb_Params = None, pb_ClientId = []\<rparr>
     (\<lambda>ms. case (decode_field ''id'' dec_string ms [], decode_field ''topic'' dec_string ms [],
                 decode_field ''params'' dec_bytes ms None,
                 decode_field ''client_id'' dec_string ms []) of
             (Some i, Some m, Some p, Some c) \<Rightarrow>
               Some \<lparr>pb_Id = i, pb_Topic = m, pb_Params = p, pb_ClientId = c\<rparr>
           | _ \<Rightarrow> None)"

definition decode_subscribe :: "json \<Rightarrow> subscribe_packet option" where
  "decode_subscribe j = decode_struct j
     \<lparr>sb_Id = [], sb_Topic = [], sb_Attributes = None\<rparr>
     (\<lambda>ms. case (decode_field ''id'' dec_string ms [], decode_field ''topic'' dec_string ms [],
                 decode_field ''attributes'' dec_strings ms None) of
             (Some i, Some t, Some a) \<Rightarrow> Some \<lparr>sb_Id = i, sb_Topic = t, sb_Attributes = a\<rparr>
           | _ \<Rightarrow> None)"

definition decode_response :: "json \<Rightarrow> response_packet option" where
  "decode_response j = decode_struct j
     \<lparr>rs_Id = [], rs_Result = JNull, rs_Error = []\<rparr>
     (\<lambda>ms. case (decode_field ''id'' dec_string ms [], decode_field ''result'' dec_any ms JNull,
                 decode_field ''error'' dec_string ms []) of
             (Some i, Some r, Some e) \<Rightarrow> Some \<lparr>rs_Id = i, rs_Result = r, rs_Error = e\<rparr>
           | _ \<Rightarrow> None)"

definition decode_ack :: "json \<Rightarrow> ack_packet option" where
  "decode_ack j = decode_struct j \<lparr>ak_Id = []\<rparr>
     (\<lambda>ms. case decode_field ''id'' dec_string ms [] of
             Some i \<Rightarrow> Some \<lparr>ak_Id = i\<rparr> | None \<Rightarrow> None)"

definition decode_stream_request :: "json \<Rightarrow> stream_request_packet option" where
  "decode_stream_request j = decode_struct j
     \<lparr>sr_StreamId = [], sr_Id = [], sr_Method = [], sr_Params = JNull\<rparr>
     (\<lambda>ms. case (decode_field ''stream_id'' dec_string ms [], decode_field ''id'' dec_string ms [],
                 decode_field ''method'' dec_string ms [],
                 decode_field ''params'' dec_raw ms JNull) of
             (Some s, Some i, Some m, Some p) \<Rightarrow>
               Some \<lparr>sr_StreamId = s, sr_Id = i, sr_Method = m, sr_Params = p\<rparr>
           | _ \<Rightarrow> None)"

definition decode_stream_response :: "json \<Rightarrow> stream_response_packet option" where
  "decode_stream_response j = decode_struct j
     \<lparr>sp_StreamId = [], sp_Id = [], sp_Result = JNull, sp_Error = []\<rparr>
     (\<lambda>ms. case (decode_field ''stream_id'' dec_string ms [], decode_field ''id'' dec_string ms [],
                 decode_field ''result'' dec_any ms JNull,
                 decode_field ''error'' dec_string ms []) of
             (Some s, Some i, Some r, Some e) \<Rightarrow>
               Some \<lparr>sp_StreamId = s, sp_Id = i, sp_Result = r, sp_Error = e\<rparr>
           | _ \<Rightarrow> None)"

definition decode_stream_close :: "json \<Rightarrow> stream_close_packet option" where
  "decode_stream_close j = decode_struct j
     \<lparr>sc_Id = [], sc_StreamId = [], sc_Error = []\<rparr>
     (\<lambda>ms. case (decode_field ''id'' dec_string ms [], decode_field ''stream_id'' dec_string ms [],
                 decode_field ''error'' dec_string ms []) of
             (Some i, Some s, Some e) \<Rightarrow> Some \<lparr>sc_Id = i, sc_StreamId = s, sc_Error = e\<rparr>
           | _ \<Rightarrow> None)"

subsection \<open>SimpleCodec\<close>

text \<open>The table of content decoders NewSimpleCodec builds, by type code.\<close>

definition contentDecoder :: "packet_type_code \<rightharpoonup> (json \<Rightarrow> inet_packet option)" where
  "contentDecoder = map_of
     [(REQUEST_PACKET, \<lambda>j. map_option RequestPacket (decode_request j)),
      (ACK_PACKET, \<lambda>j. map_option AckPacket (decode_ack j)),
      (RESPONSE_PACKET, \<lambda>j. map_option ResponsePacket (decode_response j)),
      (PUBLISH_PACKET, \<lambda>j. map_option PublishPacket (decode_publish j)),
      (SUBSCRIBE_PACKET, \<lambda>j. map_option SubscribePacket (decode_subscribe j)),
      (UNSUBSCRIBE_PACKET, \<lambda>j. map_option UnSubscribePacket (decode_subscribe j)),
      (BROADCAST_PACKET, \<lambda>j. map_option BroadcastPacket (decode_publish j)),
      (STREAM_REQUEST_PACKET, \<lambda>j. map_option StreamRequestRawPacket (decode_stream_request j)),
      (STREAM_RESPONSE_PACKET, \<lambda>j. map_option StreamResponsePacket (decode_stream_response j)),
      (STREAM_CLOSE_PACKET, \<lambda>j. map_option StreamClosePacket (decode_stream_close j)),
      (PING_PACKET, \<lambda>j. map_option PingPacket (dec_string j [])),
      (PONG_PACKET, \<lambda>j. map_option PongPacket (dec_string j [])),
      (HEARTBEAT_PACKET, \<lambda>j. map_option HeartbeatPacket (dec_string j []))]"

datatype codec_error = HeaderError | StructureError | ContentError

text \<open>json.Unmarshal on the body: a syntax error or a decoding error.\<close>

definition decode_body :: "(json \<Rightarrow> inet_packet option) \<Rightarrow> string \<Rightarrow> codec_error + inet_packet" where
  "decode_body dec body =
     (case json_parse body of
        None \<Rightarrow> Inl ContentError
      | Some j \<Rightarrow> (case dec j of None \<Rightarrow> Inl ContentError | Some p \<Rightarrow> Inr p))"

definition Unmarshal :: "bytes \<Rightarrow> codec_error + inet_packet" where
  "Unmarshal rawPacket =
     (let strArr = split_on (CHR ''@'') (string_of_bytes rawPacket) in
      case atoi (strArr ! 0) of
        None \<Rightarrow> Inl HeaderError
      | Some intCode \<Rightarrow>
          (case contentDecoder intCode of
             None \<Rightarrow> Inl HeaderError
           | Some dec \<Rightarrow>
               if length strArr < 2 then Inl StructureError
               else decode_body dec (strArr ! 1)))"

text \<open>Marshal returns a nil slice when the content cannot be encoded.\<close>

definition Marshal :: "inet_packet \<Rightarrow> bytes option" where
  "Marshal pkt =
     (case json_marshal (packet_json pkt) of
        None \<Rightarrow> None
      | Some body \<Rightarrow> Some (bytes_of_string (show_int (TypeCode pkt) @ ''@'' @ body)))"

subsection \<open>Decoding the fields of a packet\<close>

definition field_names :: "string list" where
  "field_names = [''id'', ''method'', ''params'', ''client_id'', ''topic'', ''attributes'',
     ''result'', ''error'', ''stream_id'']"

lemma fold_eq_table:
  "list_all (\<lambda>a. list_all (\<lambda>b. fold_eq a b \<longleftrightarrow> a = b) field_names) field_names"
  by code_simp

lemma fold_eq_names:
  "a \<in> set field_names \<Longrightarrow> b \<in> set field_names \<Longrightarrow> fold_eq a b \<longleftrightarrow> a = b"
  using fold_eq_table by (simp add: list_all_iff)

lemma in_field_names [simp]:
  "''id'' \<in> set field_names" "''method'' \<in> set field_names" "''params'' \<in> set field_names"
  "''client_id'' \<in> set field_names" "''topic'' \<in> set field_names"
  "''attributes'' \<in> set field_names" "''result'' \<in> set field_names"
  "''error'' \<in> set field_names" "''stream_id'' \<in> set field_names"
  by (simp_all add: field_names_def)

lemma decode_field_opt_str [simp]:
  "k \<in> set field_names \<Longrightarrow> name \<in> set field_names \<Longrightarrow>
     decode_field name dec (opt_str k s @ ms) cur =
       (if k = name \<and> s \<noteq> [] then
          (case dec (JStr s) cur of None \<Rightarrow> None | Some c \<Rightarrow> decode_field name dec ms c)
        else decode_field name dec ms cur)"
  by (auto simp: opt_str_def fold_eq_names)

lemma decode_field_opt_any [simp]:
  "k \<in> set field_names \<Longrightarrow> name \<in> set field_names \<Longrightarrow>
     decode_field name dec (opt_any k j @ ms) cur =
       (if k = name \<and> j \<noteq> JNull then
          (case dec j cur of None \<Rightarrow> None | Some c \<Rightarrow> decode_field name dec ms c)
        else decode_field name dec ms cur)"
  by (auto simp: opt_any_def fold_eq_names)

lemma decode_field_last [simp]:
  "k \<in> set field_names \<Longrightarrow> name \<in> set field_names \<Longrightarrow>
     decode_field name dec (opt_str k s) cur =
       (if k = name \<and> s \<noteq> [] then dec (JStr s) cur else Some cur)"
  using decode_field_opt_str [of k name dec s "[]" cur] by (auto split: option.splits)

lemma dec_bytes_json [simp]: "dec_bytes (json_bytes b) cur = Some b"
  by (cases b) (simp_all add: json_bytes_def)

lemma those_map_Some [simp]: "those (map Some xs) = Some xs"
  by (induction xs) auto

lemma dec_strings_json [simp]: "dec_strings (json_strings a) cur = Some a"
  by (cases a) (simp_all add: json_strings_def dec_strings_def comp_def)

lemmas decode_packet_defs =
  decode_request_def decode_publish_def decode_subscribe_def decode_response_def decode_ack_def
  decode_stream_request_def decode_stream_response_def decode_stream_close_def
  decode_struct_def packet_fields

lemma decode_packet_fields:
  "decode_request (JObj (request_fields rq)) = Some rq"
  "decode_publish (JObj (publish_fields pb)) = Some pb"
  "decode_subscribe (JObj (subscribe_fields sb)) = Some sb"
  "decode_ack (JObj (ack_fields ak)) = Some ak"
  "decode_stream_request (JObj (stream_request_fields sr)) = Some sr"
  "decode_stream_close (JObj (stream_close_fields sc)) = Some sc"
  by (simp_all add: decode_packet_defs fold_eq_names dec_raw_def)

lemma decode_response_fields:
  "canonical (rs_Result rs) \<Longrightarrow> decode_response (JObj (response_fields rs)) = Some rs"
  "canonical (sp_Result sp) \<Longrightarrow>
     decode_stream_response (JObj (stream_response_fields sp)) = Some sp"
  by (simp_all add: decode_packet_defs fold_eq_names dec_any_def canon_canonical)

subsection \<open>Packets survive the codec\<close>

text \<open>The packets the encoder accepts and whose interface{} values are in map-key order.\<close>

fun wf_packet :: "inet_packet \<Rightarrow> bool" where
  "wf_packet (ResponsePacket r) = (wf_json (rs_Result r) \<and> canonical (rs_Result r))"
| "wf_packet (StreamResponsePacket r) = (wf_json (sp_Result r) \<and> canonical (sp_Result r))"
| "wf_packet (StreamRequestPacket r) = wf_json (sr_Params r)"
| "wf_packet (StreamRequestRawPacket r) = wf_json (sr_Params r)"
| "wf_packet p = True"

text \<open>A stream request is sent as one Go type and decoded as its raw sibling.\<close>

fun received :: "inet_packet \<Rightarrow> inet_packet" where
  "received (StreamRequestPacket r) = StreamRequestRawPacket r"
| "received p = p"

definition packet_has_at :: "inet_packet \<Rightarrow> bool" where
  "packet_has_at p = has_at (packet_json p)"

definition sendable :: "inet_packet \<Rightarrow> bool" where
  "sendable p \<longleftrightarrow> wf_packet p \<and> \<not> packet_has_at p"

lemma wf_json_parts [simp]:
  "list_all (\<lambda>(k, v). wf_json v) (opt_str k s)"
  "list_all (\<lambda>(k, v). wf_json v) (opt_any k j) \<longleftrightarrow> wf_json j"
  "wf_json (json_bytes b)" "wf_json (json_strings a)"
  by (auto simp: opt_str_def opt_any_def json_bytes_def json_strings_def list_all_iff split: option.splits)

lemma wf_packet_json: "wf_packet p \<Longrightarrow> wf_json (packet_json p)"
  by (cases p) (auto simp: packet_fields)

lemma packet_json_not_number: "\<not> is_JNum (packet_json p)"
  by (cases p) auto

lemma has_at_parts [simp]:
  "(\<exists>(k', v) \<in> set (opt_str k s). CHR ''@'' \<in> set k' \<or> has_at v) \<longleftrightarrow>
     s \<noteq> [] \<and> (CHR ''@'' \<in> set k \<or> CHR ''@'' \<in> set s)"
  "\<not> has_at (json_bytes b)"
  by (auto simp: opt_str_def json_bytes_def dest: b64_encode_chars split: option.splits)

lemma request_has_at:
  "packet_has_at (RequestPacket r) \<longleftrightarrow>
     CHR ''@'' \<in> set (rq_Id r) \<union> set (rq_Method r) \<union> set (rq_ClientId r)"
  by (auto simp: packet_has_at_def packet_fields bex_Un)

lemma publish_has_at:
  "packet_has_at (PublishPacket r) \<longleftrightarrow>
     CHR ''@'' \<in> set (pb_Id r) \<union> set (pb_Topic r) \<union> set (pb_ClientId r)"
  by (auto simp: packet_has_at_def packet_fields bex_Un)

lemma contentDecoder_packet:
  "wf_packet p \<Longrightarrow> \<exists>dec. contentDecoder (TypeCode p) = Some dec \<and> dec (packet_json p) = Some (received p)"
  by (cases p) (simp_all add: contentDecoder_def packet_codes decode_packet_fields decode_response_fields)

lemma TypeCode_range: "int_range (TypeCode p)"
  by (cases p) (simp_all add: packet_codes int_range_def)

lemma Unmarshal_text:
  assumes "CHR ''@'' \<notin> set hdr"
  shows "Unmarshal (bytes_of_string (hdr @ ''@'' @ body)) =
     (case atoi hdr of None \<Rightarrow> Inl HeaderError
      | Some c \<Rightarrow> (case contentDecoder c of None \<Rightarrow> Inl HeaderError
                  | Some dec \<Rightarrow> decode_body dec (hd (split_on (CHR ''@'') body))))"
proof -
  have "split_on (CHR ''@'') (hdr @ CHR ''@'' # body) = hdr # split_on (CHR ''@'') body"
    using assms by (rule split_on_append_sep)
  moreover have "\<not> Suc (length (split_on (CHR ''@'') body)) < 2"
    using split_on_not_Nil [of "CHR ''@''" body] by (cases "split_on (CHR ''@'') body") auto
  ultimately show ?thesis
    by (simp add: Unmarshal_def hd_conv_nth split: option.splits)
qed

lemma Unmarshal_Marshal:
  assumes "wf_packet p"
  shows "\<exists>bs. Marshal p = Some bs \<and>
    Unmarshal bs = (if packet_has_at p then Inl ContentError else Inr (received p))"
proof -
  let ?j = "packet_json p" and ?hdr = "show_int (TypeCode p)"
  have wf: "wf_json ?j" using assms by (rule wf_packet_json)
  define bs where "bs = bytes_of_string (?hdr @ ''@'' @ json_print ?j)"
  have m: "Marshal p = Some bs"
    using wf_json_encodable [OF wf] by (simp add: Marshal_def json_marshal_def bs_def)
  obtain dec where dec: "contentDecoder (TypeCode p) = Some dec" "dec ?j = Some (received p)"
    using contentDecoder_packet [OF assms] by blast
  have "CHR ''@'' \<notin> set ?hdr" using show_int_chars by blast
  from Unmarshal_text [OF this] dec(1) TypeCode_range
  have u: "Unmarshal bs = decode_body dec (hd (split_on (CHR ''@'') (json_print ?j)))"
    by (simp add: bs_def)
  have at: "CHR ''@'' \<in> set (json_print ?j) \<longleftrightarrow> packet_has_at p"
    using json_print_at [OF wf] by (simp add: packet_has_at_def)
  show ?thesis
  proof (cases "packet_has_at p")
    case True
    with at split_on_hd_prefix [of "json_print ?j" "CHR ''@''"] obtain t where
      "json_print ?j = hd (split_on (CHR ''@'') (json_print ?j)) @ t" "t \<noteq> []" by auto
    from truncated_value_fails [OF wf packet_json_not_number this] u m True show ?thesis
      by (simp add: decode_body_def)
  next
    case False
    with at u m dec(2) json_parse_print [OF wf] show ?thesis by (simp add: decode_body_def)
  qed
qed

subsection \<open>The ICodec interface\<close>

locale packet_codec =
  fixes marshal :: "'p \<Rightarrow> bytes option"
    and unmarshal :: "bytes \<Rightarrow> 'e + 'p"
    and accepts :: "'p \<Rightarrow> bool"
    and peer_sees :: "'p \<Rightarrow> 'p"
  assumes round_trip: "accepts p \<Longrightarrow> \<exists>bs. marshal p = Some bs \<and> unmarshal bs = Inr (peer_sees p)"
begin

lemma marshal_Some: "accepts p \<Longrightarrow> marshal p \<noteq> None"
  using round_trip by fastforce

lemma unmarshal_marshal: "accepts p \<Longrightarrow> marshal p = Some bs \<Longrightarrow> unmarshal bs = Inr (peer_sees p)"
  using round_trip by fastforce

lemma marshal_inject:
  "accepts p \<Longrightarrow> accepts q \<Longrightarrow> marshal p = marshal q \<Longrightarrow> peer_sees p = peer_sees q"
  using unmarshal_marshal marshal_Some by (metis option.exhaust sum.inject(2))

lemma decode_sequence:
  "(\<And>p. p \<in> set ps \<Longrightarrow> accepts p) \<Longrightarrow>
     map (\<lambda>p. unmarshal (the (marshal p))) ps = map (\<lambda>p. Inr (peer_sees p)) ps"
  by (induction ps) (auto simp: unmarshal_marshal marshal_Some)

end

interpretation simple_codec: packet_codec Marshal Unmarshal sendable received
  by unfold_locales (metis Unmarshal_Marshal sendable_def)

subsection \<open>Properties of the codec\<close>


definition sample_publish :: publish_packet where
  "sample_publish = \<lparr>pb_Id = ''7'', pb_Topic = ''room/temp'', pb_Params = Some [1, 255], pb_ClientId = []\<rparr>"

lemma sendable_sample: "sendable (PublishPacket sample_publish)"
  by (simp add: sendable_def publish_has_at sample_publish_def)


text \<open>
  C33: A packet with an at sign in one of its strings is cut at that sign by the receiver's
  split, and its content never decodes: the packet is lost with a content error.
\<close>

theorem codec_at_sign_lost:
  assumes "wf_packet p" and "packet_has_at p"
  shows "\<exists>bs. Marshal p = Some bs \<and> Unmarshal bs = Inl ContentError"
  using Unmarshal_Marshal [OF assms(1)] assms(2) by simp

theorem codec_at_sign_lost_witness:
  "\<exists>bs. Marshal (PublishPacket (sample_publish\<lparr>pb_Topic := ''user@host''\<rparr>)) = Some bs \<and>
     Unmarshal bs = Inl ContentError"
  by (rule codec_at_sign_lost) (simp_all add: publish_has_at)

text \<open>The type codes the decoder table knows.\<close>

definition known_codes :: "packet_type_code set" where
  "known_codes = {1, 2, 3, 4, 5, 6, 7, 10, 11, 12, 20, 21, 22}"

lemma contentDecoder_None: "contentDecoder c = None \<longleftrightarrow> c \<notin> known_codes"
  by (auto simp: contentDecoder_def packet_codes known_codes_def)

lemma contentDecoder_Some: "contentDecoder c = Some dec \<Longrightarrow> c \<in> known_codes"
  using contentDecoder_None [of c] by auto

text \<open>
  The header decides: bytes whose part before the first at sign is no decimal integer, or
  is none of the thirteen type codes, give a header error; a known code without an at sign
  gives a structure error; otherwise only the content can fail.
\<close>

theorem codec_header_errors:
  "(Unmarshal raw = Inl HeaderError \<longleftrightarrow>
      (case atoi (hd (split_on (CHR ''@'') (string_of_bytes raw))) of
         None \<Rightarrow> True
       | Some c \<Rightarrow> c \<notin> known_codes)) \<and>
   (Unmarshal raw = Inl StructureError \<longleftrightarrow>
      (\<exists>c \<in> known_codes. atoi (string_of_bytes raw) = Some c) \<and>
      CHR ''@'' \<notin> set (string_of_bytes raw))"
proof -
  let ?s = "string_of_bytes raw"
  obtain x xs where sp: "split_on (CHR ''@'') ?s = x # xs"
    using split_on_not_Nil by (meson neq_Nil_conv)
  have len: "xs = [] \<longleftrightarrow> CHR ''@'' \<notin> set ?s"
  proof
    assume "xs = []"
    then have "?s = x" using join_split_on [of "CHR ''@''" ?s] sp by simp
    with split_on_parts [of x "CHR ''@''" ?s] sp show "CHR ''@'' \<notin> set ?s" by simp
  qed (use sp in simp)
  have one: "x = ?s" if "xs = []"
    using that sp join_split_on [of "CHR ''@''" ?s] by simp
  have body: "decode_body dec b \<noteq> Inl HeaderError" "decode_body dec b \<noteq> Inl StructureError" for dec b
    by (auto simp: decode_body_def split: option.splits)
  have u: "Unmarshal raw = (case atoi x of None \<Rightarrow> Inl HeaderError
      | Some c \<Rightarrow> (case contentDecoder c of None \<Rightarrow> Inl HeaderError
          | Some dec \<Rightarrow> if xs = [] then Inl StructureError else decode_body dec (xs ! 0)))"
    using sp by (auto simp: Unmarshal_def split: option.splits)
  have "Unmarshal raw = Inl HeaderError \<longleftrightarrow>
      (case atoi x of None \<Rightarrow> True | Some c \<Rightarrow> c \<notin> known_codes)"
    by (cases "atoi x"; cases "contentDecoder (the (atoi x))")
      (auto simp: u body contentDecoder_None [symmetric])
  moreover have "Unmarshal raw = Inl StructureError \<longleftrightarrow>
      (\<exists>c \<in> known_codes. atoi x = Some c) \<and> xs = []"
    by (cases "atoi x"; cases "contentDecoder (the (atoi x))")
      (auto simp: u body contentDecoder_None [symmetric] dest: contentDecoder_Some)
  ultimately show ?thesis unfolding sp list.sel using one len by metis
qed

end
