(* ===== verification/Topic_PubSub.thy ===== *)
theory Topic_PubSub
  imports Packets
begin

text \<open>
  pub_sub.go: the topic center. Its operations put a request on a buffered channel; one
  goroutine takes the requests and keeps the list of listeners. The channels are queues, the
  goroutine's select is a step relation with one rule per case, and what a step calls back is
  the label of the step. The record type is parametric in the callbacks.
\<close>

subsection \<open>Listeners\<close>

record 'cb topic_listener =
  tl_topic :: string
  tl_callBack :: "'cb option"
  tl_topicSplits :: "string list"
  tl_clientId :: string

definition NewTopicListener :: "string \<Rightarrow> 'cb option \<Rightarrow> 'cb topic_listener" where
  "NewTopicListener topic cb = \<lparr>tl_topic = topic, tl_callBack = cb,
     tl_topicSplits = split_on (CHR ''/'') topic, tl_clientId = []\<rparr>"

fun validate_loop :: "nat \<Rightarrow> string list \<Rightarrow> string list \<Rightarrow> bool" where
  "validate_loop i [] pubTopic = True"
| "validate_loop i (split # splits) pubTopic =
     (if split = ''#'' then True
      else if split = ''+'' then validate_loop (Suc i) splits pubTopic
      else if split \<noteq> pubTopic ! i then False
      else validate_loop (Suc i) splits pubTopic)"

definition Validate :: "'cb topic_listener \<Rightarrow> string list \<Rightarrow> bool" where
  "Validate t pubTopic =
     (if length (tl_topicSplits t) > length pubTopic then False
      else validate_loop 0 (tl_topicSplits t) pubTopic)"

subsection \<open>The center\<close>

record pub_topic =
  pt_pkt :: publish_packet
  pt_from :: nat

record 'cb pubsub =
  ps_subCh :: "'cb topic_listener list"
  ps_unsubCh :: "'cb topic_listener list"
  ps_pubCh :: "pub_topic list"
  ps_clearCh :: "unit list"
  ps_pubSize :: nat
  ps_listeners :: "'cb topic_listener list"
  ps_ctxDone :: bool
  ps_running :: bool

text \<open>The process-wide counters PubQueue and PubConsume.\<close>

record pub_counters =
  PubQueue :: int64
  PubConsume :: int64

definition newPubSub :: "nat \<Rightarrow> 'cb pubsub" where
  "newPubSub pubSize = \<lparr>ps_subCh = [], ps_unsubCh = [], ps_pubCh = [], ps_clearCh = [],
     ps_pubSize = pubSize, ps_listeners = [], ps_ctxDone = False, ps_running = True\<rparr>"

definition SubTopic :: "'cb topic_listener \<Rightarrow> 'cb pubsub \<Rightarrow> 'cb pubsub outcome" where
  "SubTopic l p = and_then (chan_send 100 l (ps_subCh p)) (\<lambda>q. Done (p\<lparr>ps_subCh := q\<rparr>))"

definition UnsubTopic :: "string \<Rightarrow> 'cb pubsub \<Rightarrow> 'cb pubsub outcome" where
  "UnsubTopic topic p =
     and_then (chan_send 100 (NewTopicListener topic None) (ps_unsubCh p))
       (\<lambda>q. Done (p\<lparr>ps_unsubCh := q\<rparr>))"

definition ClearAllSubTopics :: "'cb pubsub \<Rightarrow> 'cb pubsub outcome" where
  "ClearAllSubTopics p = and_then (chan_send 1 () (ps_clearCh p)) (\<lambda>q. Done (p\<lparr>ps_clearCh := q\<rparr>))"

definition PubTopic :: "publish_packet \<Rightarrow> nat \<Rightarrow> pub_counters \<times> 'cb pubsub
    \<Rightarrow> (pub_counters \<times> 'cb pubsub) outcome" where
  "PubTopic pkt from s =
     (case s of (cnt, p) \<Rightarrow>
        and_then (chan_send (ps_pubSize p) \<lparr>pt_pkt = pkt, pt_from = from\<rparr> (ps_pubCh p))
          (\<lambda>q. Done (cnt\<lparr>PubQueue := PubQueue cnt + 1\<rparr>, p\<lparr>ps_pubCh := q\<rparr>)))"

text \<open>Cancelling the context the center was made with.\<close>

definition ps_cancel :: "'cb pubsub \<Rightarrow> 'cb pubsub" where
  "ps_cancel p = p\<lparr>ps_ctxDone := True\<rparr>"

subsection \<open>The goroutine\<close>

fun contains_topic :: "string \<Rightarrow> 'cb topic_listener list \<Rightarrow> bool" where
  "contains_topic t [] = False"
| "contains_topic t (se # ls) = (if tl_topic se = t then True else contains_topic t ls)"

definition on_sub :: "'cb topic_listener \<Rightarrow> 'cb topic_listener list \<Rightarrow> 'cb topic_listener list" where
  "on_sub sub ls = (if \<not> contains_topic (tl_topic sub) ls then ls @ [sub] else ls)"

fun on_unsub :: "'cb topic_listener \<Rightarrow> 'cb topic_listener list \<Rightarrow> 'cb topic_listener list" where
  "on_unsub unsub [] = []"
| "on_unsub unsub (l # ls) = (if tl_topic l = tl_topic unsub then ls else l # on_unsub unsub ls)"

text \<open>The callbacks a publication calls, in order; calling a nil one panics.\<close>

type_synonym 'cb call = "'cb \<times> publish_packet \<times> nat"

fun deliver :: "string list \<Rightarrow> pub_topic \<Rightarrow> 'cb topic_listener list \<Rightarrow> 'cb call list outcome" where
  "deliver splitTopics pub [] = Done []"
| "deliver splitTopics pub (l # ls) =
     (if Validate l splitTopics then
        (case tl_callBack l of
           None \<Rightarrow> Panic ''nil pointer dereference''
         | Some cb \<Rightarrow>
             and_then (deliver splitTopics pub ls)
               (\<lambda>calls. Done ((cb, pt_pkt pub, pt_from pub) # calls)))
      else deliver splitTopics pub ls)"

definition on_pub :: "pub_topic \<Rightarrow> 'cb topic_listener list \<Rightarrow> 'cb call list outcome" where
  "on_pub pub ls = deliver (split_on (CHR ''/'') (pb_Topic (pt_pkt pub))) pub ls"

text \<open>One pass of the loop: the cases of the select that are ready; which one runs is open.\<close>

inductive loop_step :: "pub_counters \<times> 'cb pubsub \<Rightarrow> 'cb call list
    \<Rightarrow> pub_counters \<times> 'cb pubsub \<Rightarrow> bool" where
  loop_done: "ps_running p \<Longrightarrow> ps_ctxDone p \<Longrightarrow> loop_step (cnt, p) [] (cnt, p\<lparr>ps_running := False\<rparr>)"
| loop_sub: "ps_running p \<Longrightarrow> ps_subCh p = sub # q \<Longrightarrow>
     loop_step (cnt, p) []
       (cnt, p\<lparr>ps_subCh := q, ps_listeners := on_sub sub (ps_listeners p)\<rparr>)"
| loop_unsub: "ps_running p \<Longrightarrow> ps_unsubCh p = unsub # q \<Longrightarrow>
     loop_step (cnt, p) []
       (cnt, p\<lparr>ps_unsubCh := q, ps_listeners := on_unsub unsub (ps_listeners p)\<rparr>)"
| loop_pub: "ps_running p \<Longrightarrow> ps_pubCh p = pub # q \<Longrightarrow> on_pub pub (ps_listeners p) = Done calls \<Longrightarrow>
     loop_step (cnt, p) calls
       (cnt\<lparr>PubQueue := PubQueue cnt - 1, PubConsume := PubConsume cnt + of_nat (length calls)\<rparr>,
        p\<lparr>ps_pubCh := q\<rparr>)"
| loop_clear: "ps_running p \<Longrightarrow> ps_clearCh p = u # q \<Longrightarrow>
     loop_step (cnt, p) [] (cnt, p\<lparr>ps_clearCh := q, ps_listeners := []\<rparr>)"

inductive_cases loop_stepE: "loop_step (cnt, p) calls s'"

text \<open>What users of the center do to it.\<close>

inductive user_step :: "pub_counters \<times> 'cb pubsub \<Rightarrow> pub_counters \<times> 'cb pubsub \<Rightarrow> bool" where
  user_sub: "SubTopic (NewTopicListener t (Some cb)) p = Done p' \<Longrightarrow> user_step (cnt, p) (cnt, p')"
| user_unsub: "UnsubTopic t p = Done p' \<Longrightarrow> user_step (cnt, p) (cnt, p')"
| user_pub: "PubTopic pkt from (cnt, p) = Done s' \<Longrightarrow> user_step (cnt, p) s'"
| user_clear: "ClearAllSubTopics p = Done p' \<Longrightarrow> user_step (cnt, p) (cnt, p')"
| user_cancel: "user_step (cnt, p) (cnt, ps_cancel p)"

inductive ps_reachable :: "pub_counters \<times> 'cb pubsub \<Rightarrow> bool" where
  ps_start: "ps_reachable (cnt, newPubSub n)"
| ps_user: "ps_reachable s \<Longrightarrow> user_step s s' \<Longrightarrow> ps_reachable s'"
| ps_loop: "ps_reachable s \<Longrightarrow> loop_step s calls s' \<Longrightarrow> ps_reachable s'"

lemmas pubsub_ops = SubTopic_def UnsubTopic_def ClearAllSubTopics_def PubTopic_def ps_cancel_def

subsection \<open>Topic filters\<close>

text \<open>
  The MQTT rule for a filter against a topic, level by level: a plus stands for one level, a
  final hash for the rest, including no level at all, and without a hash the lengths agree.
\<close>

fun mqtt_match :: "string list \<Rightarrow> string list \<Rightarrow> bool" where
  "mqtt_match [] [] = True"
| "mqtt_match [] (p # ps) = False"
| "mqtt_match (f # fs) [] = (f = ''#'' \<and> fs = [])"
| "mqtt_match (f # fs) (p # ps) =
     (if f = ''#'' then fs = [] else (f = ''+'' \<or> f = p) \<and> mqtt_match fs ps)"

definition wf_filter :: "string list \<Rightarrow> bool" where
  "wf_filter fs \<longleftrightarrow> fs \<noteq> [] \<and> ''#'' \<notin> set (butlast fs)"

text \<open>The loop without its index: the two lists side by side.\<close>

fun levels_match :: "string list \<Rightarrow> string list \<Rightarrow> bool" where
  "levels_match (f # fs) (p # ps) =
     (if f = ''#'' then True else (f = ''+'' \<or> f = p) \<and> levels_match fs ps)"
| "levels_match fs ps = True"

lemma validate_loop_levels:
  "i + length fs \<le> length ps \<Longrightarrow> validate_loop i fs ps = levels_match fs (drop i ps)"
proof (induction fs arbitrary: i)
  case (Cons f fs)
  then have "drop i ps = ps ! i # drop (Suc i) ps" by (simp add: Cons_nth_drop_Suc)
  with Cons show ?case by auto
qed simp

lemma Validate_levels:
  "Validate l ps \<longleftrightarrow> length (tl_topicSplits l) \<le> length ps \<and> levels_match (tl_topicSplits l) ps"
  by (auto simp: Validate_def validate_loop_levels)

lemma levels_match_mqtt:
  "length fs \<le> length ps \<Longrightarrow> wf_filter fs \<Longrightarrow>
     levels_match fs ps \<longleftrightarrow>
       mqtt_match fs (if last fs = ''#'' then ps else take (length fs) ps)"
proof (induction fs ps rule: levels_match.induct)
  case (1 f fs p ps)
  then show ?case
    by (cases fs) (auto simp: wf_filter_def)
qed (auto simp: wf_filter_def)

text \<open>A listener and the levels of its filter.\<close>

definition wf_listener :: "'cb topic_listener \<Rightarrow> bool" where
  "wf_listener l \<longleftrightarrow> tl_topicSplits l = split_on (CHR ''/'') (tl_topic l) \<and> tl_callBack l \<noteq> None"

lemma wf_NewTopicListener [simp]: "wf_listener (NewTopicListener t (Some cb))"
  by (simp add: wf_listener_def NewTopicListener_def)

subsection \<open>The list of listeners as a table of topics\<close>

definition topic_table :: "'cb topic_listener list \<Rightarrow> string \<Rightarrow> 'cb option" where
  "topic_table ls t = (case find (\<lambda>l. tl_topic l = t) ls of None \<Rightarrow> None | Some l \<Rightarrow> tl_callBack l)"

definition listeners_ok :: "'cb topic_listener list \<Rightarrow> bool" where
  "listeners_ok ls \<longleftrightarrow> distinct (map tl_topic ls) \<and> (\<forall>l \<in> set ls. wf_listener l)"

lemma contains_topic_iff: "contains_topic t ls \<longleftrightarrow> t \<in> tl_topic ` set ls"
  by (induction ls) auto

lemma topic_table_None: "listeners_ok ls \<Longrightarrow> topic_table ls t = None \<longleftrightarrow> t \<notin> tl_topic ` set ls"
  by (induction ls) (auto simp: topic_table_def listeners_ok_def wf_listener_def)

lemma listeners_ok_on_sub: "listeners_ok ls \<Longrightarrow> wf_listener l \<Longrightarrow> listeners_ok (on_sub l ls)"
  by (auto simp: listeners_ok_def on_sub_def contains_topic_iff)

lemma on_unsub_filter:
  "distinct (map tl_topic ls) \<Longrightarrow> on_unsub u ls = filter (\<lambda>l. tl_topic l \<noteq> tl_topic u) ls"
proof (induction ls)
  case (Cons l ls)
  then have "tl_topic l = tl_topic u \<Longrightarrow> filter (\<lambda>l. tl_topic l \<noteq> tl_topic u) ls = ls"
    by (intro filter_True) (force simp: image_iff)
  with Cons show ?case by auto
qed simp

lemma listeners_ok_on_unsub: "listeners_ok ls \<Longrightarrow> listeners_ok (on_unsub u ls)"
  by (auto simp: listeners_ok_def on_unsub_filter distinct_map_filter)

lemma topic_table_on_sub:
  "listeners_ok ls \<Longrightarrow>
     topic_table (on_sub l ls) t =
       (if t = tl_topic l \<and> topic_table ls t = None then tl_callBack l else topic_table ls t)"
proof -
  assume ok: "listeners_ok ls"
  have "find (\<lambda>l. tl_topic l = t) (ls @ [l]) =
      (case find (\<lambda>l. tl_topic l = t) ls of
         None \<Rightarrow> if tl_topic l = t then Some l else None | Some x \<Rightarrow> Some x)"
    by (induction ls) auto
  moreover have "find (\<lambda>l. tl_topic l = t) ls = None \<longleftrightarrow> t \<notin> tl_topic ` set ls"
    by (auto simp: find_None_iff)
  ultimately show ?thesis
    using topic_table_None [OF ok, of t] topic_table_None [OF ok, of "tl_topic l"]
    by (auto simp: topic_table_def on_sub_def contains_topic_iff split: option.splits)
qed

lemma topic_table_on_unsub:
  "listeners_ok ls \<Longrightarrow>
     topic_table (on_unsub u ls) t = (if t = tl_topic u then None else topic_table ls t)"
proof -
  assume ok: "listeners_ok ls"
  then have f: "on_unsub u ls = filter (\<lambda>l. tl_topic l \<noteq> tl_topic u) ls"
    by (simp add: on_unsub_filter listeners_ok_def)
  have "find (\<lambda>l. tl_topic l = t) (filter (\<lambda>l. tl_topic l \<noteq> tl_topic u) ls) =
      (if t = tl_topic u then None else find (\<lambda>l. tl_topic l = t) ls)"
    by (induction ls) auto
  with f show ?thesis by (auto simp: topic_table_def)
qed

text \<open>
  The contract of a subscription table: the first subscription of a topic counts, a
  cancelled one is gone, other topics are untouched.
\<close>

locale subscription_table =
  fixes add :: "string \<Rightarrow> 'cb \<Rightarrow> 's \<Rightarrow> 's"
    and cancel :: "string \<Rightarrow> 's \<Rightarrow> 's"
    and look :: "'s \<Rightarrow> string \<Rightarrow> 'cb option"
    and inv :: "'s \<Rightarrow> bool"
  assumes look_add: "inv s \<Longrightarrow>
      look (add t c s) t' = (if t' = t \<and> look s t' = None then Some c else look s t')"
    and look_cancel: "inv s \<Longrightarrow> look (cancel t s) t' = (if t' = t then None else look s t')"
    and inv_add: "inv s \<Longrightarrow> inv (add t c s)"
    and inv_cancel: "inv s \<Longrightarrow> inv (cancel t s)"
begin

lemma add_subscribed: "inv s \<Longrightarrow> look s t \<noteq> None \<Longrightarrow> look (add t c s) = look s"
  by (rule ext) (auto simp: look_add)

lemma cancel_add: "inv s \<Longrightarrow> look s t = None \<Longrightarrow> look (cancel t (add t c s)) = look s"
  by (rule ext) (auto simp: look_add look_cancel inv_add)

lemma add_cancel: "inv s \<Longrightarrow> look (add t c (cancel t s)) t = Some c"
  by (simp add: look_add look_cancel inv_cancel)

lemma inv_fold_add: "inv s \<Longrightarrow> inv (fold (\<lambda>(t, c). add t c) tcs s)"
  by (induction tcs arbitrary: s) (auto simp: inv_add)

lemma look_fold_add:
  "inv s \<Longrightarrow> look (fold (\<lambda>(t, c). add t c) tcs s) t =
     (case look s t of Some c \<Rightarrow> Some c | None \<Rightarrow> map_of tcs t)"
  by (induction tcs arbitrary: s) (auto simp: look_add inv_add split: option.splits)

end

definition sub_listener :: "string \<Rightarrow> 'cb \<Rightarrow> 'cb topic_listener list \<Rightarrow> 'cb topic_listener list" where
  "sub_listener t cb = on_sub (NewTopicListener t (Some cb))"

definition unsub_listener :: "string \<Rightarrow> 'cb topic_listener list \<Rightarrow> 'cb topic_listener list" where
  "unsub_listener t = on_unsub (NewTopicListener t None)"

interpretation listener_table: subscription_table sub_listener unsub_listener topic_table listeners_ok
  by unfold_locales
    (auto simp: sub_listener_def unsub_listener_def topic_table_on_sub topic_table_on_unsub
      listeners_ok_on_sub listeners_ok_on_unsub, auto simp: NewTopicListener_def)

subsection \<open>The goroutine keeps its table in order\<close>

text \<open>
  Listeners are distinct by topic and well formed, requests waiting on the subscription
  channel are well formed, and no channel holds more than its buffer.
\<close>

definition ps_inv :: "'cb pubsub \<Rightarrow> bool" where
  "ps_inv p \<longleftrightarrow> listeners_ok (ps_listeners p) \<and> (\<forall>l \<in> set (ps_subCh p). wf_listener l) \<and>
     length (ps_subCh p) \<le> 100 \<and> length (ps_unsubCh p) \<le> 100 \<and>
     length (ps_pubCh p) \<le> ps_pubSize p \<and> length (ps_clearCh p) \<le> 1"

lemma ps_inv_new [simp]: "ps_inv (newPubSub n)"
  by (simp add: ps_inv_def newPubSub_def listeners_ok_def)

lemma ps_inv_user: "user_step s s' \<Longrightarrow> ps_inv (snd s) \<Longrightarrow> ps_inv (snd s')"
  by (induction rule: user_step.induct)
    (auto simp: ps_inv_def pubsub_ops outcome_simps chan_simps)

lemma ps_inv_loop: "loop_step s calls s' \<Longrightarrow> ps_inv (snd s) \<Longrightarrow> ps_inv (snd s')"
  by (induction rule: loop_step.induct)
    (auto simp: ps_inv_def listeners_ok_on_sub listeners_ok_on_unsub, simp add: listeners_ok_def)

lemma ps_reachable_inv: "ps_reachable s \<Longrightarrow> ps_inv (snd s)"
  by (induction rule: ps_reachable.induct) (auto intro: ps_inv_user ps_inv_loop)

lemma deliver_ok:
  "(\<And>l. l \<in> set ls \<Longrightarrow> wf_listener l) \<Longrightarrow>
     deliver sp pub ls =
       Done (map (\<lambda>l. (the (tl_callBack l), pt_pkt pub, pt_from pub)) (filter (\<lambda>l. Validate l sp) ls))"
proof (induction ls)
  case (Cons l ls)
  then have "tl_callBack l \<noteq> None" by (simp add: wf_listener_def)
  with Cons show ?case by auto
qed simp

lemma on_pub_ok:
  "listeners_ok ls \<Longrightarrow>
     on_pub pub ls =
       Done (map (\<lambda>l. (the (tl_callBack l), pt_pkt pub, pt_from pub))
         (filter (\<lambda>l. Validate l (split_on (CHR ''/'') (pb_Topic (pt_pkt pub)))) ls))"
  unfolding on_pub_def by (rule deliver_ok) (simp add: listeners_ok_def)

subsection \<open>Properties of the topic center\<close>

text \<open>
  C22: On a filter that has a hash at most in its last level, Validate holds exactly when the
  topic has at least as many levels as the filter and the MQTT rule matches the filter with
  the whole topic if it ends in a hash, with as many leading levels as it has otherwise.
\<close>

theorem validate_against_mqtt:
  assumes "wf_filter (split_on (CHR ''/'') t)"
  shows "Validate (NewTopicListener t cb) ps \<longleftrightarrow>
    (let fs = split_on (CHR ''/'') t in
     length fs \<le> length ps \<and>
     mqtt_match fs (if last fs = ''#'' then ps else take (length fs) ps))"
  using assms levels_match_mqtt by (auto simp: Validate_levels NewTopicListener_def Let_def)

theorem validate_against_mqtt_witness:
  "Validate (NewTopicListener ''+/rt'' (Some (0::nat))) [''c1'', ''rt''] \<longleftrightarrow>
     mqtt_match [''+'', ''rt''] [''c1'', ''rt'']"
  by (subst validate_against_mqtt) (simp_all add: wf_filter_def)

text \<open>
  The filters are not the MQTT ones the ReadMe promises: a filter without wildcards
  receives every topic below it, which MQTT excludes, and a filter ending in slash hash does not
  receive its parent topic, which MQTT includes.
\<close>

theorem validate_not_mqtt:
  "(Validate (NewTopicListener ''room'' (cb :: nat option)) [''room'', ''c1'', ''rt''] \<and>
      \<not> mqtt_match [''room''] [''room'', ''c1'', ''rt'']) \<and>
   (\<not> Validate (NewTopicListener ''room/#'' cb) [''room''] \<and> mqtt_match [''room'', ''#''] [''room''])"
  by (simp add: Validate_def NewTopicListener_def)

lemma topic_table_mem:
  "listeners_ok ls \<Longrightarrow> l \<in> set ls \<Longrightarrow> topic_table ls (tl_topic l) = tl_callBack l"
proof (induction ls)
  case (Cons x xs)
  then have "listeners_ok xs" by (simp add: listeners_ok_def)
  moreover have "l \<noteq> x \<Longrightarrow> tl_topic x \<noteq> tl_topic l"
    using Cons.prems by (auto simp: listeners_ok_def)
  ultimately show ?case
    using Cons by (cases "l = x") (auto simp: topic_table_def)
qed simp

text \<open>
  C8: In every reachable state the goroutine can take the next publication, and what it then
  calls is exactly the callbacks of the subscribed topics whose filter accepts the publication's
  topic, each once, with the publication and its sender; the table of listeners stays.
\<close>

theorem publish_reaches_matching:
  assumes "ps_reachable (cnt, p)" and "ps_running p" and "ps_pubCh p = pub # q"
  shows "\<exists>calls cnt' p'. loop_step (cnt, p) calls (cnt', p') \<and> ps_pubCh p' = q \<and>
    topic_table (ps_listeners p') = topic_table (ps_listeners p) \<and>
    (let sp = split_on (CHR ''/'') (pb_Topic (pt_pkt pub));
         hit = {t. topic_table (ps_listeners p) t \<noteq> None \<and>
                   Validate (NewTopicListener t (None :: 'cb option)) sp}
     in set calls = (\<lambda>t. (the (topic_table (ps_listeners p) t), pt_pkt pub, pt_from pub)) ` hit \<and>
        length calls = card hit)"
proof -
  let ?ls = "ps_listeners p" and ?sp = "split_on (CHR ''/'') (pb_Topic (pt_pkt pub))"
  let ?acc = "filter (\<lambda>l. Validate l ?sp) ?ls"
  let ?call = "\<lambda>l. (the (tl_callBack l), pt_pkt pub, pt_from pub)"
  let ?hit = "{t. topic_table ?ls t \<noteq> None \<and> Validate (NewTopicListener t (None :: 'cb option)) ?sp}"
  have ok: "listeners_ok ?ls" using ps_reachable_inv [OF assms(1)] by (simp add: ps_inv_def)
  have step: "loop_step (cnt, p) (map ?call ?acc)
      (cnt\<lparr>PubQueue := PubQueue cnt - 1, PubConsume := PubConsume cnt + of_nat (length (map ?call ?acc))\<rparr>,
       p\<lparr>ps_pubCh := q\<rparr>)"
    by (rule loop_pub [OF assms(2,3) on_pub_ok [OF ok]])
  have val: "Validate l ?sp \<longleftrightarrow> Validate (NewTopicListener (tl_topic l) (None :: 'cb option)) ?sp"
    if "l \<in> set ?ls" for l
    using that ok by (simp add: listeners_ok_def wf_listener_def Validate_def NewTopicListener_def)
  have tab: "topic_table ?ls (tl_topic l) = tl_callBack l" if "l \<in> set ?ls" for l
    using topic_table_mem [OF ok that] .
  have hit: "?hit = tl_topic ` set ?acc"
    using topic_table_None [OF ok] val by auto
  have "card ?hit = length ?acc"
    using ok distinct_card [of "map tl_topic ?acc"] hit
    by (simp add: listeners_ok_def distinct_map_filter)
  moreover have "set (map ?call ?acc) = (\<lambda>t. (the (topic_table ?ls t), pt_pkt pub, pt_from pub)) ` ?hit"
    unfolding hit by (auto simp: image_iff tab)
  ultimately show ?thesis
    by (intro exI conjI) (rule step, simp_all add: Let_def)
qed

text \<open>A center with one listener and one publication waiting, reached in three steps.\<close>

definition sample_pub :: pub_topic where
  "sample_pub = \<lparr>pt_pkt = \<lparr>pb_Id = [], pb_Topic = ''a/b'', pb_Params = None, pb_ClientId = []\<rparr>,
     pt_from = 5\<rparr>"

definition sample_center :: "nat pubsub" where
  "sample_center = (newPubSub 10)\<lparr>ps_listeners := [NewTopicListener ''a/+'' (Some 0)],
     ps_pubCh := [sample_pub]\<rparr>"

lemma sample_center_reachable:
  "ps_reachable (\<lparr>PubQueue = 1, PubConsume = 0\<rparr>, sample_center)"
proof -
  let ?c = "\<lparr>PubQueue = 0, PubConsume = 0\<rparr>"
  let ?l = "NewTopicListener ''a/+'' (Some 0)"
  let ?p1 = "(newPubSub 10)\<lparr>ps_subCh := [?l]\<rparr> :: nat pubsub"
  let ?p2 = "(newPubSub 10)\<lparr>ps_listeners := [?l]\<rparr> :: nat pubsub"
  have "ps_reachable (?c, ?p1)"
    by (rule ps_user [OF ps_start user_sub]) (simp add: SubTopic_def chan_send_def newPubSub_def)
  moreover have "loop_step (?c, ?p1) [] (?c, ?p1\<lparr>ps_subCh := [], ps_listeners := on_sub ?l (ps_listeners ?p1)\<rparr>)"
    by (rule loop_sub) (simp_all add: newPubSub_def)
  ultimately have "ps_reachable (?c, ?p2)"
    using ps_loop by (fastforce simp: newPubSub_def on_sub_def)
  then show ?thesis
    by (rule ps_user [OF _ user_pub [of "pt_pkt sample_pub" "pt_from sample_pub"]])
      (simp add: PubTopic_def chan_send_def newPubSub_def sample_center_def)
qed

theorem publish_reaches_matching_witness:
  "\<exists>calls cnt' p'. loop_step (\<lparr>PubQueue = 1, PubConsume = 0\<rparr>, sample_center) calls (cnt', p') \<and>
     length calls = card {t. topic_table (ps_listeners sample_center) t \<noteq> None \<and>
       Validate (NewTopicListener t (None :: nat option)) [''a'', ''b'']}"
proof -
  have "ps_running sample_center" "ps_pubCh sample_center = sample_pub # []"
    by (simp_all add: sample_center_def newPubSub_def)
  from publish_reaches_matching [OF sample_center_reachable this] show ?thesis
    by (fastforce simp: Let_def sample_pub_def)
qed

text \<open>
  Taking subscription requests in any order of topics, the table holds for every topic the
  callback of its first subscription, as long as it is not cancelled; cancelling a topic
  removes that topic and no other, after which it can be subscribed afresh.
\<close>

theorem first_subscription_wins:
  "topic_table (fold (\<lambda>(t, cb). on_sub (NewTopicListener t (Some cb))) tcs []) t = map_of tcs t \<and>
   topic_table (on_unsub (NewTopicListener u None)
      (fold (\<lambda>(t, cb). on_sub (NewTopicListener t (Some cb))) tcs [])) t =
     (if t = u then None else map_of tcs t) \<and>
   topic_table (on_sub (NewTopicListener u (Some c)) (on_unsub (NewTopicListener u None)
      (fold (\<lambda>(t, cb). on_sub (NewTopicListener t (Some cb))) tcs []))) u = Some c"
proof -
  let ?ls = "fold (\<lambda>(t, cb). sub_listener t cb) tcs []"
  have "listeners_ok []" by (simp add: listeners_ok_def)
  then have ok: "listeners_ok ?ls" by (rule listener_table.inv_fold_add)
  have 1: "topic_table ?ls t = map_of tcs t"
    using listener_table.look_fold_add [OF \<open>listeners_ok []\<close>] by (simp add: topic_table_def)
  have 2: "topic_table (unsub_listener u ?ls) t = (if t = u then None else map_of tcs t)"
    using listener_table.look_cancel [OF ok] 1 by simp
  have 3: "topic_table (sub_listener u c (unsub_listener u ?ls)) u = Some c"
    using ok by (rule listener_table.add_cancel)
  from 1 2 3 show ?thesis unfolding sub_listener_def unsub_listener_def by blast
qed



subsection \<open>After the goroutine has stopped\<close>

definition ps_move :: "pub_counters \<times> 'cb pubsub \<Rightarrow> pub_counters \<times> 'cb pubsub \<Rightarrow> bool" where
  "ps_move s s' \<longleftrightarrow> user_step s s' \<or> (\<exists>calls. loop_step s calls s')"

lemma stopped_stays:
  "ps_move s s' \<Longrightarrow> \<not> ps_running (snd s) \<Longrightarrow>
     \<not> ps_running (snd s') \<and> length (ps_clearCh (snd s)) \<le> length (ps_clearCh (snd s'))"
  unfolding ps_move_def
  by (auto elim!: user_step.cases loop_step.cases simp: pubsub_ops outcome_simps chan_simps)

text \<open>
  Once the goroutine has seen its context cancelled, nothing drains the clear channel any
  more: after one further ClearAllSubTopics every later one blocks, whatever happens in between.
\<close>

theorem clear_after_stop_blocks:
  assumes "\<not> ps_running p" and "ClearAllSubTopics p = Done p1"
    and "rtranclp ps_move (cnt, p1) (cnt', p')"
  shows "ClearAllSubTopics p' = Block"
proof -
  have p1: "\<not> ps_running p1" "1 \<le> length (ps_clearCh p1)"
    using assms(1,2) by (auto simp: ClearAllSubTopics_def outcome_simps chan_simps)
  have "\<not> ps_running (snd s) \<and> 1 \<le> length (ps_clearCh (snd s))"
    if "rtranclp ps_move (cnt, p1) s" for s
    using that by (induction rule: rtranclp_induct) (use p1 stopped_stays in \<open>auto intro: order_trans\<close>)
  from this [OF assms(3)] have "\<not> length (ps_clearCh p') < 1" by (metis linorder_not_less snd_conv)
  then show ?thesis unfolding ClearAllSubTopics_def chan_send_def by simp
qed

theorem clear_after_stop_blocks_witness:
  "ClearAllSubTopics ((newPubSub 1 :: nat pubsub)\<lparr>ps_running := False, ps_clearCh := [()]\<rparr>) = Block"
  by (rule clear_after_stop_blocks [where p = "(newPubSub 1)\<lparr>ps_running := False\<rparr>", OF _ _ rtranclp.rtrancl_refl])
    (simp_all add: newPubSub_def ClearAllSubTopics_def chan_send_def)

end
