(* ===== verification/Handler_Registry.thy ===== *)
theory Handler_Registry
  imports Nethub_Prelude
begin

text \<open>
  handler_mgr.go and the two execute methods of client.go: the tables of request and
  stream handlers with their defaults, and running a handler under recover.
\<close>

record ('rh, 'sh) handler_mgr =
  handlers :: "string \<rightharpoonup> 'rh"
  streamHandlers :: "string \<rightharpoonup> 'sh"
  defaultHandler :: "'rh option"
  defaultStreamHandler :: "'sh option"

definition empty_handler_mgr :: "('rh, 'sh) handler_mgr" where
  "empty_handler_mgr = \<lparr>handlers = Map.empty, streamHandlers = Map.empty,
     defaultHandler = None, defaultStreamHandler = None\<rparr>"

definition RegisterRequestHandler ::
    "string \<Rightarrow> 'rh \<Rightarrow> ('rh, 'sh) handler_mgr \<Rightarrow> ('rh, 'sh) handler_mgr" where
  "RegisterRequestHandler method h mgr = mgr\<lparr>handlers := sm_store method h (handlers mgr)\<rparr>"

definition findRequestHandler :: "string \<Rightarrow> ('rh, 'sh) handler_mgr \<Rightarrow> 'rh option" where
  "findRequestHandler method mgr =
     (case sm_load method (handlers mgr) of
        Some h \<Rightarrow> Some h
      | None \<Rightarrow> (case defaultHandler mgr of Some h \<Rightarrow> Some h | None \<Rightarrow> None))"

definition RegisterStreamHandler ::
    "string \<Rightarrow> 'sh \<Rightarrow> ('rh, 'sh) handler_mgr \<Rightarrow> ('rh, 'sh) handler_mgr" where
  "RegisterStreamHandler method h mgr =
     mgr\<lparr>streamHandlers := sm_store method h (streamHandlers mgr)\<rparr>"

definition findStreamHandler :: "string \<Rightarrow> ('rh, 'sh) handler_mgr \<Rightarrow> 'sh option" where
  "findStreamHandler method mgr =
     (case sm_load method (streamHandlers mgr) of
        Some h \<Rightarrow> Some h
      | None \<Rightarrow> (case defaultStreamHandler mgr of Some h \<Rightarrow> Some h | None \<Rightarrow> None))"

lemmas handler_mgr_defs =
  RegisterRequestHandler_def findRequestHandler_def RegisterStreamHandler_def
  findStreamHandler_def sync_map_defs

interpretation request_handlers: keyed_store RegisterRequestHandler findRequestHandler
  by unfold_locales (auto simp: handler_mgr_defs split: option.splits)

interpretation stream_handlers: keyed_store RegisterStreamHandler findStreamHandler
  by unfold_locales (auto simp: handler_mgr_defs split: option.splits)

lemma find_after_registrations:
  "findRequestHandler m (fold (\<lambda>(k, h). RegisterRequestHandler k h) kvs mgr) =
     (case map_of (rev kvs) m of None \<Rightarrow> findRequestHandler m mgr | Some h \<Rightarrow> Some h)"
  by (rule request_handlers.get_fold_put)

text \<open>The two tables are independent.\<close>

lemma find_stream_register_request [simp]:
  "findStreamHandler m (RegisterRequestHandler k h mgr) = findStreamHandler m mgr"
  by (auto simp: handler_mgr_defs split: option.splits)

lemma find_request_register_stream [simp]:
  "findRequestHandler m (RegisterStreamHandler k h mgr) = findRequestHandler m mgr"
  by (auto simp: handler_mgr_defs split: option.splits)

subsection \<open>Running a handler under recover\<close>

text \<open>
  A handler is code outside the repository: it returns a result and an error, or panics
  with a value that is an error (a runtime error, say) or with any other value.
\<close>

datatype 'a go_run = Returns 'a "string option" | PanicsError string | PanicsValue string

text \<open>
  execute recovers, then asserts the recovered value to be an error; for another value the
  assertion itself panics, inside the deferred call, and nothing recovers that. On a panic
  the result variable keeps its zero value.
\<close>

fun execute_request :: "'a \<Rightarrow> 'a go_run \<Rightarrow> ('a \<times> string option) outcome" where
  "execute_request zero (Returns r err) = Done (r, err)"
| "execute_request zero (PanicsError e) = Done (zero, Some e)"
| "execute_request zero (PanicsValue v) = Panic (''interface conversion: interface {} is not error: '' @ v)"

fun execute_stream :: "unit go_run \<Rightarrow> string option outcome" where
  "execute_stream (Returns u err) = Done err"
| "execute_stream (PanicsError e) = Done (Some e)"
| "execute_stream (PanicsValue v) = Panic (''interface conversion: interface {} is not error: '' @ v)"

text \<open>A call outside execute has no recover around it.\<close>

fun call_unprotected :: "'a go_run \<Rightarrow> ('a \<times> string option) outcome" where
  "call_unprotected (Returns r err) = Done (r, err)"
| "call_unprotected (PanicsError e) = Panic e"
| "call_unprotected (PanicsValue v) = Panic v"

lemma execute_request_no_panic:
  "is_panic (execute_request z r) \<longleftrightarrow> (\<exists>v. r = PanicsValue v)"
  by (cases r) auto

subsection \<open>Properties of the tables\<close>

text \<open>
  A request is handled by the handler registered last for its method, by the default
  handler when there is none, and by nothing when there is no default either; the tables of
  requests and streams do not affect each other.
\<close>

theorem last_registration_handles:
  "findRequestHandler m (fold (\<lambda>(k, h). RegisterRequestHandler k h) kvs (empty_handler_mgr\<lparr>defaultHandler := d\<rparr>)) =
     (case map_of (rev kvs) m of Some h \<Rightarrow> Some h | None \<Rightarrow> d) \<and>
   findStreamHandler m (fold (\<lambda>(k, h). RegisterRequestHandler k h) kvs mgr) = findStreamHandler m mgr"
proof
  show "findRequestHandler m (fold (\<lambda>(k, h). RegisterRequestHandler k h) kvs (empty_handler_mgr\<lparr>defaultHandler := d\<rparr>)) =
     (case map_of (rev kvs) m of Some h \<Rightarrow> Some h | None \<Rightarrow> d)"
    unfolding find_after_registrations
    by (auto simp: handler_mgr_defs empty_handler_mgr_def split: option.splits)
  show "findStreamHandler m (fold (\<lambda>(k, h). RegisterRequestHandler k h) kvs mgr) = findStreamHandler m mgr"
    by (induction kvs arbitrary: mgr) auto
qed

text \<open>
  execute turns a panic of the handler into an error of the call exactly when the panic
  value is an error; the assertion on any other value panics anew.
\<close>

theorem execute_recovers_errors:
  "(case r of
      Returns x err \<Rightarrow> execute_request z r = Done (x, err)
    | PanicsError e \<Rightarrow> execute_request z r = Done (z, Some e)
    | PanicsValue v \<Rightarrow> is_panic (execute_request z r)) \<and>
   (is_panic (execute_stream s) \<longleftrightarrow> (\<exists>v. s = PanicsValue v))"
  by (cases r; cases s) auto

end
