(* ===== verification/Rc4_Crypto.thy ===== *)
theory Rc4_Crypto
  imports Go_Base64
begin

unbundle bit_operations_syntax

text \<open>
  crypto.go: the key agreement and the two RC4 ciphers of a connection. crypto/rc4 is
  modelled as it computes; the P-256 curve of crypto/ecdh is a parameter, three functions,
  and what the code relies on (both sides derive one secret) is a hypothesis of the theorems
  that need it. XORKeyStream works on buffers, so Encode and Decode act on a store of
  buffers by address: the source and the destination may be one buffer.
\<close>

subsection \<open>crypto/rc4\<close>

record rc4 =
  rc_s :: "8 word list"
  rc_i :: "8 word"
  rc_j :: "8 word"

definition ksa_step :: "bytes \<Rightarrow> nat \<Rightarrow> 8 word list \<times> 8 word \<Rightarrow> 8 word list \<times> 8 word" where
  "ksa_step key i sj =
     (case sj of (s, j) \<Rightarrow>
        let j' = j + s ! i + key ! (i mod length key)
        in (s[i := s ! unat j', unat j' := s ! i], j'))"

definition NewCipher :: "bytes \<Rightarrow> rc4 option" where
  "NewCipher key =
     (if length key < 1 \<or> length key > 256 then None
      else Some \<lparr>rc_s = fst (fold (ksa_step key) [0..<256] (map of_nat [0..<256], 0)),
                 rc_i = 0, rc_j = 0\<rparr>)"

text \<open>One byte of key stream and the next state.\<close>

definition next_key :: "rc4 \<Rightarrow> 8 word \<times> rc4" where
  "next_key c =
     (let i = rc_i c + 1;
          x = rc_s c ! unat i;
          j = rc_j c + x;
          y = rc_s c ! unat j;
          s = (rc_s c)[unat i := y, unat j := x]
      in (s ! unat (x + y), \<lparr>rc_s = s, rc_i = i, rc_j = j\<rparr>))"

fun xor_stream :: "rc4 \<Rightarrow> bytes \<Rightarrow> bytes \<times> rc4" where
  "xor_stream c [] = ([], c)"
| "xor_stream c (b # bs) =
     (case next_key c of (k, c1) \<Rightarrow>
        (case xor_stream c1 bs of (out, c2) \<Rightarrow> ((b XOR k) # out, c2)))"

text \<open>The same key stream, as a list, and the state after it.\<close>

fun key_stream :: "rc4 \<Rightarrow> nat \<Rightarrow> bytes" where
  "key_stream c 0 = []"
| "key_stream c (Suc n) = fst (next_key c) # key_stream (snd (next_key c)) n"

fun advance :: "rc4 \<Rightarrow> nat \<Rightarrow> rc4" where
  "advance c 0 = c"
| "advance c (Suc n) = advance (snd (next_key c)) n"

definition xor_bytes :: "bytes \<Rightarrow> bytes \<Rightarrow> bytes" where
  "xor_bytes a b = map2 (XOR) a b"

lemma length_key_stream [simp]: "length (key_stream c n) = n"
  by (induction n arbitrary: c) auto

lemma xor_stream_eq: "xor_stream c bs = (xor_bytes bs (key_stream c (length bs)), advance c (length bs))"
  by (induction bs arbitrary: c) (auto simp: xor_bytes_def split: prod.splits)

lemma xor_bytes_cancel [simp]: "length a \<le> length k \<Longrightarrow> xor_bytes (xor_bytes a k) k = a"
proof (induction a arbitrary: k)
  case (Cons x a)
  then obtain y ys where "k = y # ys" by (cases k) auto
  moreover have "(x XOR y) XOR y = x" by (simp add: xor.assoc)
  ultimately show ?case using Cons by (simp add: xor_bytes_def)
qed (simp add: xor_bytes_def)

lemma length_xor_bytes [simp]: "length (xor_bytes a k) = min (length a) (length k)"
  by (simp add: xor_bytes_def)

lemma xor_stream_involution:
  "xor_stream c (fst (xor_stream c m)) = (m, snd (xor_stream c m))"
  by (simp add: xor_stream_eq)

subsection \<open>A stream cipher over a sequence of messages\<close>

fun crypt_all :: "('c \<Rightarrow> bytes \<Rightarrow> bytes \<times> 'c) \<Rightarrow> 'c \<Rightarrow> bytes list \<Rightarrow> bytes list \<times> 'c" where
  "crypt_all f c [] = ([], c)"
| "crypt_all f c (m # ms) =
     (case f c m of (x, c1) \<Rightarrow> (case crypt_all f c1 ms of (xs, c2) \<Rightarrow> (x # xs, c2)))"

locale stream_cipher =
  fixes crypt :: "'c \<Rightarrow> bytes \<Rightarrow> bytes \<times> 'c"
  assumes involution: "crypt c (fst (crypt c m)) = (m, snd (crypt c m))"
begin

lemma decrypt: "crypt c m = (x, c') \<Longrightarrow> crypt c x = (m, c')"
  using involution [of c m] by simp

lemma crypt_inject: "fst (crypt c m) = fst (crypt c m') \<Longrightarrow> m = m'"
  by (metis involution fst_conv)

lemma decrypt_all: "crypt_all crypt c ms = (xs, c') \<Longrightarrow> crypt_all crypt c xs = (ms, c')"
proof (induction ms arbitrary: c xs c')
  case (Cons m ms)
  obtain x c1 where x: "crypt c m = (x, c1)" by (cases "crypt c m")
  obtain ys c2 where ys: "crypt_all crypt c1 ms = (ys, c2)" by (cases "crypt_all crypt c1 ms")
  from Cons.prems x ys have "xs = x # ys" "c' = c2" by auto
  with Cons.IH [OF ys] decrypt [OF x] show ?case by simp
qed simp

text \<open>Encrypting the same buffer twice in place: the receiver's second message.\<close>

lemma double_encryption:
  assumes "crypt c m = (x, c1)" and "crypt c1 x = (y, c2)"
  shows "crypt_all crypt c [x, y] = ([m, x], c2)"
  using decrypt [OF assms(1)] decrypt [OF assms(2)] by simp

end

interpretation rc4_stream: stream_cipher xor_stream
  by unfold_locales (rule xor_stream_involution)

subsection \<open>The Crypto object\<close>

text \<open>
  crypto/ecdh as three functions: the encoded public key of a private one, which encodings
  are valid public keys, and the shared secret, which may fail.
\<close>

record 'k curve =
  pub_bytes :: "'k \<Rightarrow> bytes"
  valid_pub :: "bytes \<Rightarrow> bool"
  shared :: "'k \<Rightarrow> bytes \<Rightarrow> bytes option"

record 'k crypto =
  priKey :: 'k
  encoder :: "rc4 option"
  decoder :: "rc4 option"

definition NewCrypto :: "'k \<Rightarrow> 'k crypto" where
  "NewCrypto k = \<lparr>priKey = k, encoder = None, decoder = None\<rparr>"

definition Base64PubKey :: "'k curve \<Rightarrow> 'k crypto \<Rightarrow> string" where
  "Base64PubKey E c = b64_encode (pub_bytes E (priKey c))"

datatype crypto_error = BadBase64 | BadPublicKey | BadExchange

definition ComputeSecret :: "'k curve \<Rightarrow> string \<Rightarrow> 'k crypto \<Rightarrow> (crypto_error + string) \<times> 'k crypto" where
  "ComputeSecret E remotePubBase64 c =
     (case b64_decode remotePubBase64 of
        None \<Rightarrow> (Inl BadBase64, c)
      | Some remotePubKey \<Rightarrow>
          if \<not> valid_pub E remotePubKey then (Inl BadPublicKey, c)
          else
            (case shared E (priKey c) remotePubKey of
               None \<Rightarrow> (Inl BadExchange, c)
             | Some secret \<Rightarrow>
                 (Inr (b64_encode (pub_bytes E (priKey c))),
                  c\<lparr>encoder := NewCipher secret, decoder := NewCipher secret\<rparr>)))"

text \<open>
  XORKeyStream (dst, src) on a store of buffers. An empty source returns at once; a nil
  cipher or a destination shorter than the source panics.
\<close>

type_synonym buffers = "nat \<Rightarrow> bytes"

definition XORKeyStream :: "rc4 option \<Rightarrow> nat \<Rightarrow> nat \<Rightarrow> buffers \<Rightarrow> (rc4 option \<times> buffers) outcome" where
  "XORKeyStream cipher dst src st =
     (if st src = [] then Done (cipher, st)
      else
        (case cipher of
           None \<Rightarrow> Panic ''nil pointer dereference''
         | Some c \<Rightarrow>
             if length (st dst) < length (st src) then Panic ''index out of range''
             else
               (case xor_stream c (st src) of (out, c') \<Rightarrow>
                  Done (Some c', st(dst := out @ drop (length (st src)) (st dst))))))"

text \<open>Encode hands its parameters to XORKeyStream in the other order than Decode.\<close>

definition Encode :: "nat \<Rightarrow> nat \<Rightarrow> 'k crypto \<times> buffers \<Rightarrow> ('k crypto \<times> buffers) outcome" where
  "Encode src dst cs =
     (case cs of (c, st) \<Rightarrow>
        and_then (XORKeyStream (encoder c) src dst st)
          (\<lambda>(e, st'). Done (c\<lparr>encoder := e\<rparr>, st')))"

definition Decode :: "nat \<Rightarrow> nat \<Rightarrow> 'k crypto \<times> buffers \<Rightarrow> ('k crypto \<times> buffers) outcome" where
  "Decode src dst cs =
     (case cs of (c, st) \<Rightarrow>
        and_then (XORKeyStream (decoder c) dst src st)
          (\<lambda>(d, st'). Done (c\<lparr>decoder := d\<rparr>, st')))"

lemma encode_in_place:
  "encoder c = Some e \<Longrightarrow>
     Encode b b (c, st) =
       Done (c\<lparr>encoder := Some (snd (xor_stream e (st b)))\<rparr>, st(b := fst (xor_stream e (st b))))"
  by (auto simp: Encode_def XORKeyStream_def split: prod.splits)

lemma decode_in_place:
  "decoder c = Some d \<Longrightarrow>
     Decode b b (c, st) =
       Done (c\<lparr>decoder := Some (snd (xor_stream d (st b)))\<rparr>, st(b := fst (xor_stream d (st b))))"
  by (auto simp: Decode_def XORKeyStream_def split: prod.splits)

subsection \<open>Properties of the encryption\<close>


definition toy_curve :: "8 word curve" where
  "toy_curve = \<lparr>pub_bytes = (\<lambda>k. [k]), valid_pub = (\<lambda>b. length b = 1),
     shared = (\<lambda>k b. Some [k + hd b])\<rparr>"


text \<open>
  A failed exchange changes nothing: on any of the three errors the object keeps its
  ciphers, and without an error both ciphers start from the same secret.
\<close>

theorem compute_secret_cases:
  "(case ComputeSecret E r c of
      (Inl e, c') \<Rightarrow> c' = c
    | (Inr p, c') \<Rightarrow> p = Base64PubKey E c \<and> priKey c' = priKey c \<and> encoder c' = decoder c' \<and>
        (\<exists>k s. b64_decode r = Some k \<and> valid_pub E k \<and> shared E (priKey c) k = Some s \<and>
           encoder c' = NewCipher s))"
  by (auto simp: ComputeSecret_def Base64PubKey_def split: option.splits)

text \<open>
  Encode passes its buffers to XORKeyStream in the wrong order. With one buffer for both
  that is harmless, but with two buffers of one length the destination keeps its old content
  and the source is overwritten with the encryption of the destination.
\<close>

theorem encode_swaps_buffers:
  assumes "encoder c = Some e" and "src \<noteq> dst" and "length (st src) = length (st dst)"
  shows "\<exists>c' st'. Encode src dst (c, st) = Done (c', st') \<and> st' dst = st dst \<and>
    st' src = fst (xor_stream e (st dst))"
  using assms by (cases "st dst = []")
    (auto simp: Encode_def XORKeyStream_def split: prod.splits)

theorem encode_swaps_buffers_witness:
  "\<exists>c' st'. Encode 0 1 ((NewCrypto (0::nat))\<lparr>encoder := NewCipher [1]\<rparr>, (\<lambda>n. if n = 0 then [104, 105] else [0, 0])) = Done (c', st') \<and>
     st' 1 = [0, 0]"
proof -
  obtain e where e: "NewCipher [1] = Some e" by (simp add: NewCipher_def)
  have "\<exists>c' st'. Encode 0 1 ((NewCrypto (0::nat))\<lparr>encoder := NewCipher [1]\<rparr>, (\<lambda>n. if n = 0 then [104, 105] else [0, 0])) = Done (c', st') \<and>
      st' 1 = (\<lambda>n. if n = 0 then [104, 105] else [0, 0]) (1::nat) \<and>
      st' 0 = fst (xor_stream e ((\<lambda>n. if n = 0 then [104, 105] else [0, 0]) (1::nat)))"
    by (rule encode_swaps_buffers) (simp_all add: e)
  then show ?thesis by auto
qed

end
