(* ===== verification/Conn_Interface.thy ===== *)
theory Conn_Interface
  imports Event_Listeners
begin

text \<open>
  iconn.go: what the connections have in common. Their Close methods take a mutex, return at
  once on a closed connection, and otherwise raise OnDisconnect while they hold the mutex.
  The locale states this contract once; the TCP, WebSocket and UDP connections interpret it.
\<close>

text \<open>The data a connection passes to its listeners.\<close>

datatype conn_event = MessageEvent bytes | ErrorEvent string | DisconnectEvent

text \<open>The errors SendMessage returns, and any other by its text.\<close>

datatype send_error = TxQueueFull string | ConnClosed | WriteError string

text \<open>A listener is run by name on a world that holds the connection.\<close>

type_synonym ('f, 'w) runner = "'f \<Rightarrow> conn_event \<Rightarrow> 'w \<Rightarrow> 'w outcome"

abbreviation rise :: "('f, 'w) runner \<Rightarrow> conn_event \<Rightarrow> 'f event_target \<Rightarrow> 'w \<Rightarrow> 'w outcome" where
  "rise run ev e w \<equiv> RiseEvent (\<lambda>f. run f ev) e w"

text \<open>No listener opens a closed connection again: the code has no way to.\<close>

definition keeps :: "('w \<Rightarrow> bool) \<Rightarrow> ('f, 'w) runner \<Rightarrow> bool" where
  "keeps P run \<longleftrightarrow> (\<forall>f ev w w'. run f ev w = Done w' \<longrightarrow> P w \<longrightarrow> P w')"

lemma rise_listeners_keeps:
  "(\<And>f w w'. run f w = Done w' \<Longrightarrow> P w \<Longrightarrow> P w') \<Longrightarrow> rise_listeners run fs w = Done w' \<Longrightarrow> P w \<Longrightarrow> P w'"
  by (induction fs arbitrary: w) (auto simp: outcome_simps)

lemma rise_keeps: "keeps P run \<Longrightarrow> rise run ev e w = Done w' \<Longrightarrow> P w \<Longrightarrow> P w'"
  unfolding RiseEvent_def keeps_def by (rule rise_listeners_keeps) auto

locale closable_conn =
  fixes close :: "('f, 'w) runner \<Rightarrow> 'w \<Rightarrow> 'w outcome"
    and closed :: "'w \<Rightarrow> bool"
    and locked :: "'w \<Rightarrow> bool"
    and listening :: "'w \<Rightarrow> 'f event_target"
    and shut :: "'w \<Rightarrow> 'w"
    and release :: "'w \<Rightarrow> 'w"
  assumes close_locked: "locked w \<Longrightarrow> close run w = Block"
    and close_closed: "\<not> locked w \<Longrightarrow> closed w \<Longrightarrow> close run w = Done w"
    and close_open: "\<not> locked w \<Longrightarrow> \<not> closed w \<Longrightarrow>
      close run w = and_then (rise run DisconnectEvent (listening w) (shut w)) (\<lambda>w'. Done (release w'))"
    and shut: "closed (shut w)" "locked (shut w)"
    and release: "closed (release w) = closed w" "\<not> locked (release w)"
begin

text \<open>After a close that returned, every further close returns at once and calls nobody.\<close>

lemma close_done:
  assumes "keeps closed run" and "close run w = Done w'"
  shows "closed w' \<and> \<not> locked w'"
proof (cases "locked w \<or> closed w")
  case True
  with assms(2) show ?thesis by (cases "locked w") (auto simp: close_locked close_closed)
next
  case False
  with assms(2) obtain u where u: "rise run DisconnectEvent (listening w) (shut w) = Done u" "w' = release u"
    by (auto simp: close_open outcome_simps)
  have "closed u" by (rule rise_keeps [OF assms(1) u(1)]) (rule shut)
  with u show ?thesis by (simp add: release)
qed

lemma close_again: "keeps closed run \<Longrightarrow> close run w = Done w' \<Longrightarrow> close run' w' = Done w'"
  using close_done close_closed by blast

lemma close_many:
  "keeps closed run \<Longrightarrow> close run w = Done w' \<Longrightarrow>
     fold (\<lambda>r m. and_then m (close r)) runs (Done w') = Done w'"
  by (induction runs) (simp_all add: close_again)

text \<open>A listener of OnDisconnect that closes the same connection waits for itself.\<close>

lemma reentrant_close:
  assumes "\<not> locked w" "\<not> closed w" and "listening w = \<lparr>et_listeners = f # fs\<rparr>"
    and "run f DisconnectEvent = close run'"
  shows "close run w = Block"
  using assms by (simp add: close_open RiseEvent_def close_locked shut)

end

subsection \<open>Listeners that record\<close>

text \<open>
  The properties of the readers speak of which listeners are called with what, in order. They
  use listeners that append their call to a log somewhere in the world.
\<close>

definition log_event :: "((('f \<times> conn_event) list \<Rightarrow> ('f \<times> conn_event) list) \<Rightarrow> 'w \<Rightarrow> 'w) \<Rightarrow> ('f, 'w) runner" where
  "log_event upd f ev w = Done (upd (\<lambda>l. l @ [(f, ev)]) w)"

definition calls_of :: "'f event_target \<Rightarrow> conn_event \<Rightarrow> ('f \<times> conn_event) list" where
  "calls_of e ev = map (\<lambda>f. (f, ev)) (et_listeners e)"

definition message_calls :: "'f event_target \<Rightarrow> bytes list \<Rightarrow> ('f \<times> conn_event) list" where
  "message_calls e ms = concat (map (\<lambda>m. calls_of e (MessageEvent m)) ms)"

lemma message_calls_simps [simp]:
  "message_calls e [] = []"
  "message_calls e (m # ms) = calls_of e (MessageEvent m) @ message_calls e ms"
  by (simp_all add: message_calls_def)

locale event_log =
  fixes upd :: "(('f \<times> conn_event) list \<Rightarrow> ('f \<times> conn_event) list) \<Rightarrow> 'w \<Rightarrow> 'w"
  assumes upd_upd: "upd g (upd h w) = upd (\<lambda>l. g (h l)) w"
    and upd_same: "upd (\<lambda>l. l) w = w"
begin

lemma rise_log: "rise (log_event upd) ev e w = Done (upd (\<lambda>l. l @ calls_of e ev) w)"
proof -
  have "rise_listeners (\<lambda>f. log_event upd f ev) fs w = Done (upd (\<lambda>l. l @ map (\<lambda>f. (f, ev)) fs) w)" for fs
    by (induction fs arbitrary: w) (simp_all add: log_event_def upd_upd upd_same)
  then show ?thesis by (simp add: RiseEvent_def calls_of_def)
qed

lemma keeps_log: "(\<And>g w. P w \<Longrightarrow> P (upd g w)) \<Longrightarrow> keeps P (log_event upd)"
  by (auto simp: keeps_def log_event_def)

end

end
