(* ===== verification/Tcp_Conn.thy ===== *)
theory Tcp_Conn
  imports Conn_Interface "HOL-Library.Word"
begin

text \<open>
  tcp_conn.go: the frames of four length bytes and a payload (packetRead, packetWrite), the
  queue a writer goroutine empties, the reader goroutine that raises OnMessage, and Close.
  The socket is a parameter: what is available to read with the error at its end, and what a
  write returns.
\<close>

unbundle bit_operations_syntax

subsection \<open>Frames\<close>

text \<open>binary.BigEndian.\<close>

definition PutUint32 :: "32 word \<Rightarrow> bytes" where
  "PutUint32 v = map (\<lambda>k. ucast (drop_bit k v)) [24, 16, 8, 0]"

definition Uint32 :: "bytes \<Rightarrow> 32 word" where
  "Uint32 b = foldl (\<lambda>acc x. push_bit 8 acc OR ucast x) 0 b"

datatype io_error = EOF | UnexpectedEOF | OtherError string

fun io_text :: "io_error \<Rightarrow> string" where
  "io_text EOF = ''EOF''"
| "io_text UnexpectedEOF = ''unexpected EOF''"
| "io_text (OtherError e) = e"

text \<open>
  io.ReadFull on a reader that still delivers avail and then fails with fin: all n bytes, or
  fin itself, where an end after at least one byte is an unexpected one.
\<close>

definition ReadFull :: "nat \<Rightarrow> io_error \<Rightarrow> bytes \<Rightarrow> (io_error + bytes) \<times> bytes" where
  "ReadFull n fin avail =
     (if n \<le> length avail then (Inr (take n avail), drop n avail)
      else (Inl (if avail \<noteq> [] \<and> fin = EOF then UnexpectedEOF else fin), []))"

record tcp_counters =
  TcpWritePkts :: "64 word"
  TcpWriteByte :: "64 word"
  TcpReadPkts :: "64 word"
  TcpReadByte :: "64 word"

text \<open>The sum msgLen + 4 is taken in 32 bits before it is widened.\<close>

definition packetRead :: "io_error \<Rightarrow> tcp_counters \<times> bytes \<Rightarrow> (io_error + bytes) \<times> tcp_counters \<times> bytes" where
  "packetRead fin s =
     (case s of (cnt, avail) \<Rightarrow>
       (case ReadFull 4 fin avail of
          (Inl e, rest) \<Rightarrow> (Inl e, cnt, rest)
        | (Inr bufMsgLen, rest) \<Rightarrow>
            (let msgLen = Uint32 bufMsgLen in
             (case ReadFull (unat msgLen) fin rest of
                (Inl e, rest') \<Rightarrow> (Inl e, cnt, rest')
              | (Inr msgData, rest') \<Rightarrow>
                  (Inr msgData,
                   cnt\<lparr>TcpReadByte := TcpReadByte cnt + ucast (msgLen + 4),
                       TcpReadPkts := TcpReadPkts cnt + 1\<rparr>, rest')))))"

text \<open>writer.Write is a parameter: the number of bytes it took and its error.\<close>

definition frame :: "bytes \<Rightarrow> bytes" where
  "frame msg = PutUint32 (of_nat (length msg)) @ msg"

definition packetWrite :: "(bytes \<Rightarrow> nat \<times> string option) \<Rightarrow> bytes \<Rightarrow> tcp_counters \<Rightarrow> string option \<times> tcp_counters" where
  "packetWrite Write msg cnt =
     (case Write (frame msg) of (n, err) \<Rightarrow>
        (err, cnt\<lparr>TcpWriteByte := TcpWriteByte cnt + of_nat n, TcpWritePkts := TcpWritePkts cnt + 1\<rparr>))"

lemma length_PutUint32 [simp]: "length (PutUint32 v) = 4"
  by (simp add: PutUint32_def)

lemma PutUint32_not_Nil [simp]: "PutUint32 v \<noteq> []"
  by (simp add: PutUint32_def)

lemma Uint32_PutUint32 [simp]: "Uint32 (PutUint32 v) = v"
proof (rule bit_word_eqI)
  fix n assume "n < LENGTH(32)"
  then consider "n < 8" | "8 \<le> n" "n < 16" | "16 \<le> n" "n < 24" | "24 \<le> n" "n < 32"
    by fastforce
  then show "bit (Uint32 (PutUint32 v)) n = bit v n"
    by cases (auto simp: Uint32_def PutUint32_def bit_simps)
qed

lemma length_frame [simp]: "length (frame m) = 4 + length m"
  by (simp add: frame_def)

lemma unat_len: "length m < 2 ^ 32 \<Longrightarrow> unat (of_nat (length m) :: 32 word) = length m"
  by (simp add: unsigned_of_nat take_bit_nat_eq_self)

text \<open>A complete frame at the front is read whole, whatever follows it.\<close>

lemma packetRead_frame:
  "length m < 2 ^ 32 \<Longrightarrow>
     packetRead fin (cnt, frame m @ rest) =
       (Inr m, cnt\<lparr>TcpReadByte := TcpReadByte cnt + ucast (of_nat (length m) + 4 :: 32 word),
                   TcpReadPkts := TcpReadPkts cnt + 1\<rparr>, rest)"
  by (simp add: packetRead_def ReadFull_def frame_def Let_def unat_len)

text \<open>A frame cut after k bytes is never read, and the error tells where it was cut.\<close>

lemma packetRead_cut:
  "length m < 2 ^ 32 \<Longrightarrow> k < length (frame m) \<Longrightarrow>
     packetRead fin (cnt, take k (frame m)) =
       (Inl (if fin = EOF \<and> k \<noteq> 0 \<and> k \<noteq> 4 then UnexpectedEOF else fin), cnt, [])"
  by (cases "4 \<le> k") (auto simp: packetRead_def ReadFull_def frame_def Let_def unat_len min_def)

lemma packetRead_shorter:
  "packetRead fin (cnt, avail) = (Inr m, cnt', rest) \<Longrightarrow> length rest < length avail"
  by (auto simp: packetRead_def ReadFull_def Let_def split: if_splits)

subsection \<open>The connection\<close>

text \<open>The dynamic type behind net.Conn: a plain TCP socket, or another one such as a TLS one.\<close>

datatype net_conn = TCPConn string | OtherConn string

text \<open>
  The context is a flag (cancelled), the mutex closeMu a flag (held), the socket a flag (open)
  with its remote address.
\<close>

record ('f, 'v) tcp_conn =
  tc_ctxDone :: bool
  tc_id :: string
  tc_txQueue :: "bytes list"
  tc_closeMu :: bool
  tc_isClosed :: bool
  tc_LoginData :: bytes
  tc_OnMessage :: "'f event_target"
  tc_OnError :: "'f event_target"
  tc_OnDisconnect :: "'f event_target"
  tc_sockOpen :: bool
  tc_remote :: string
  tc_properties :: "string \<rightharpoonup> 'v"

text \<open>The world of a connection: the process counters, the connection, and the rest.\<close>

record ('f, 'v, 'e) tcp_world =
  tw_cnt :: tcp_counters
  tw_conn :: "('f, 'v) tcp_conn"
  tw_env :: 'e

definition TcpConnTxQueueLen :: nat where
  "TcpConnTxQueueLen = 100"

text \<open>The assertion of the dynamic type has no second result, so it panics.\<close>

fun NewTcpConn :: "string \<Rightarrow> net_conn \<Rightarrow> ('f, 'v) tcp_conn outcome" where
  "NewTcpConn uuid (TCPConn addr) =
     Done \<lparr>tc_ctxDone = False, tc_id = uuid, tc_txQueue = [], tc_closeMu = False, tc_isClosed = False,
       tc_LoginData = [], tc_OnMessage = newEventTarget, tc_OnError = newEventTarget,
       tc_OnDisconnect = newEventTarget, tc_sockOpen = True, tc_remote = addr, tc_properties = Map.empty\<rparr>"
| "NewTcpConn uuid (OtherConn ty) = Panic (''interface conversion: net.Conn is '' @ ty)"

definition TcpConn_GetProperty :: "string \<Rightarrow> ('f, 'v) tcp_conn \<Rightarrow> 'v option" where
  "TcpConn_GetProperty k c = sm_load k (tc_properties c)"

definition TcpConn_SetProperty :: "string \<Rightarrow> 'v \<Rightarrow> ('f, 'v) tcp_conn \<Rightarrow> ('f, 'v) tcp_conn" where
  "TcpConn_SetProperty k v c = c\<lparr>tc_properties := sm_store k v (tc_properties c)\<rparr>"

interpretation tcp_properties: keyed_store TcpConn_SetProperty TcpConn_GetProperty
  by unfold_locales (auto simp: TcpConn_SetProperty_def TcpConn_GetProperty_def sync_map_defs)

definition TcpConn_ListenToOnDisconnect :: "'f \<Rightarrow> ('f, 'v) tcp_conn \<Rightarrow> ('f, 'v) tcp_conn" where
  "TcpConn_ListenToOnDisconnect f c = c\<lparr>tc_OnDisconnect := AddEventListener f (tc_OnDisconnect c)\<rparr>"

definition TcpConn_ListenToOnMessage :: "'f \<Rightarrow> ('f, 'v) tcp_conn \<Rightarrow> ('f, 'v) tcp_conn" where
  "TcpConn_ListenToOnMessage f c = c\<lparr>tc_OnMessage := AddEventListener f (tc_OnMessage c)\<rparr>"

text \<open>
  SendMessage selects among what is ready: with the context cancelled and room in the queue
  the runtime may take either case. The list holds every possible result.
\<close>

definition TcpConn_SendMessage :: "bytes \<Rightarrow> ('f, 'v) tcp_conn \<Rightarrow> (send_error option \<times> ('f, 'v) tcp_conn) list" where
  "TcpConn_SendMessage m c =
     (let ready =
        (if tc_ctxDone c then [(None, c)] else []) @
        (if length (tc_txQueue c) < TcpConnTxQueueLen
         then [(None, c\<lparr>tc_txQueue := tc_txQueue c @ [m]\<rparr>)] else [])
      in if ready = [] then [(Some (TxQueueFull (tc_remote c)), c)] else ready)"

definition TcpConn_SendMessageDirect :: "(bytes \<Rightarrow> nat \<times> string option) \<Rightarrow> bytes \<Rightarrow> tcp_counters \<Rightarrow> string option \<times> tcp_counters" where
  "TcpConn_SendMessageDirect Write m cnt = packetWrite Write m cnt"

definition shut_conn :: "('f, 'v) tcp_conn \<Rightarrow> ('f, 'v) tcp_conn" where
  "shut_conn c = c\<lparr>tc_sockOpen := False, tc_isClosed := True, tc_ctxDone := True, tc_closeMu := True\<rparr>"

definition on_conn :: "(('f, 'v) tcp_conn \<Rightarrow> ('f, 'v) tcp_conn) \<Rightarrow> ('f, 'v, 'e) tcp_world \<Rightarrow> ('f, 'v, 'e) tcp_world" where
  "on_conn g w = w\<lparr>tw_conn := g (tw_conn w)\<rparr>"

definition TcpConn_Close :: "('f, ('f, 'v, 'e) tcp_world) runner \<Rightarrow> ('f, 'v, 'e) tcp_world \<Rightarrow> ('f, 'v, 'e) tcp_world outcome" where
  "TcpConn_Close run w =
     (if tc_closeMu (tw_conn w) then Block
      else if tc_isClosed (tw_conn w) then Done w
      else
        and_then (rise run DisconnectEvent (tc_OnDisconnect (tw_conn w)) (on_conn shut_conn w))
          (\<lambda>w'. Done (on_conn (\<lambda>c. c\<lparr>tc_closeMu := False\<rparr>) w')))"

definition TcpConn_IsClosed :: "('f, 'v) tcp_conn \<Rightarrow> bool outcome" where
  "TcpConn_IsClosed c = (if tc_closeMu c then Block else Done (tc_isClosed c))"

interpretation tcp_close: closable_conn TcpConn_Close
  "\<lambda>w. tc_isClosed (tw_conn w)" "\<lambda>w. tc_closeMu (tw_conn w)" "\<lambda>w. tc_OnDisconnect (tw_conn w)"
  "on_conn shut_conn" "on_conn (\<lambda>c. c\<lparr>tc_closeMu := False\<rparr>)"
  by unfold_locales (auto simp: TcpConn_Close_def on_conn_def shut_conn_def)

definition TcpConn_ReadMessage :: "io_error \<Rightarrow> tcp_counters \<times> bytes \<Rightarrow> (io_error + bytes) \<times> tcp_counters \<times> bytes" where
  "TcpConn_ReadMessage fin s = packetRead fin s"

text \<open>net.Dial is a parameter: its error or the connection it made.\<close>

definition DialTcp :: "string + net_conn \<Rightarrow> string \<Rightarrow> (string + ('f, 'v) tcp_conn) outcome" where
  "DialTcp dialed uuid =
     (case dialed of
        Inl err \<Rightarrow> Done (Inl err)
      | Inr conn \<Rightarrow> and_then (NewTcpConn uuid conn) (\<lambda>c. Done (Inr c)))"

text \<open>The reader goroutine, with its deferred Close.\<close>

function TcpConn_read_loop :: "('f, ('f, 'v, 'e) tcp_world) runner \<Rightarrow> io_error \<Rightarrow> bytes
    \<Rightarrow> ('f, 'v, 'e) tcp_world \<Rightarrow> ('f, 'v, 'e) tcp_world outcome" where
  "TcpConn_read_loop run fin avail w =
     (if tc_ctxDone (tw_conn w) then TcpConn_Close run w
      else
        (case packetRead fin (tw_cnt w, avail) of
           (Inl e, cnt, rest) \<Rightarrow>
             and_then
               (if e = EOF then Done (w\<lparr>tw_cnt := cnt\<rparr>)
                else rise run (ErrorEvent (io_text e)) (tc_OnError (tw_conn w)) (w\<lparr>tw_cnt := cnt\<rparr>))
               (TcpConn_Close run)
         | (Inr msg, cnt, rest) \<Rightarrow>
             and_then (rise run (MessageEvent msg) (tc_OnMessage (tw_conn w)) (w\<lparr>tw_cnt := cnt\<rparr>))
               (TcpConn_read_loop run fin rest)))"
  by pat_completeness auto
termination
  by (relation "measure (\<lambda>(run, fin, avail, w). length avail)") (auto dest!: sym [THEN packetRead_shorter])

declare TcpConn_read_loop.simps [simp del]

text \<open>StartRead runs the loop on what the socket delivers.\<close>

definition TcpConn_StartRead :: "('f, ('f, 'v, 'e) tcp_world) runner \<Rightarrow> io_error \<Rightarrow> bytes
    \<Rightarrow> ('f, 'v, 'e) tcp_world \<Rightarrow> ('f, 'v, 'e) tcp_world outcome" where
  "TcpConn_StartRead run fin avail w = TcpConn_read_loop run fin avail w"

text \<open>
  The writer goroutine, one turn of its select at a time: whether it still runs, the bytes on
  the wire so far, and the world. A failed write ends it and leaves the connection open.
\<close>

inductive writer_turn :: "('f, ('f, 'v, 'e) tcp_world) runner \<Rightarrow> (bytes \<Rightarrow> nat \<times> string option)
    \<Rightarrow> bool \<times> bytes \<times> ('f, 'v, 'e) tcp_world \<Rightarrow> bool \<times> bytes \<times> ('f, 'v, 'e) tcp_world \<Rightarrow> bool"
  for run :: "('f, ('f, 'v, 'e) tcp_world) runner" and Write :: "bytes \<Rightarrow> nat \<times> string option" where
  cancelled: "tc_ctxDone (tw_conn w) \<Longrightarrow> writer_turn run Write (True, wire, w) (False, wire, w)"
| sent: "tc_txQueue (tw_conn w) = m # q \<Longrightarrow> packetWrite Write m (tw_cnt w) = (None, cnt) \<Longrightarrow>
    writer_turn run Write (True, wire, w)
      (True, wire @ take (fst (Write (frame m))) (frame m),
       on_conn (\<lambda>c. c\<lparr>tc_txQueue := q\<rparr>) (w\<lparr>tw_cnt := cnt\<rparr>))"
| failed: "tc_txQueue (tw_conn w) = m # q \<Longrightarrow> packetWrite Write m (tw_cnt w) = (Some e, cnt) \<Longrightarrow>
    rise run (ErrorEvent e) (tc_OnError (tw_conn w))
      (on_conn (\<lambda>c. c\<lparr>tc_txQueue := q\<rparr>) (w\<lparr>tw_cnt := cnt\<rparr>)) = Done w' \<Longrightarrow>
    writer_turn run Write (True, wire, w)
      (False, wire @ take (fst (Write (frame m))) (frame m), w')"

subsection \<open>What arrives at the listeners\<close>

abbreviation record_event :: "('f, ('f, 'v, ('f \<times> conn_event) list) tcp_world) runner" where
  "record_event \<equiv> log_event tw_env_update"

interpretation tcp_log: event_log "tw_env_update :: _ \<Rightarrow> ('f, 'v, ('f \<times> conn_event) list) tcp_world \<Rightarrow> _"
  by unfold_locales simp_all

lemma rise_record:
  "rise record_event ev e w = Done (w\<lparr>tw_env := tw_env w @ calls_of e ev\<rparr>)"
  using tcp_log.rise_log [of ev e w] by simp

lemma TcpConn_Close_record:
  "\<not> tc_closeMu (tw_conn w) \<Longrightarrow> \<not> tc_isClosed (tw_conn w) \<Longrightarrow>
     TcpConn_Close record_event w =
       Done (w\<lparr>tw_conn := (shut_conn (tw_conn w))\<lparr>tc_closeMu := False\<rparr>,
               tw_env := tw_env w @ calls_of (tc_OnDisconnect (tw_conn w)) DisconnectEvent\<rparr>)"
  by (simp add: TcpConn_Close_def rise_record on_conn_def shut_conn_def)

definition end_calls :: "('f, 'v) tcp_conn \<Rightarrow> io_error \<Rightarrow> ('f \<times> conn_event) list" where
  "end_calls c e =
     (if e = EOF then [] else calls_of (tc_OnError c) (ErrorEvent (io_text e))) @
     calls_of (tc_OnDisconnect c) DisconnectEvent"

lemma TcpConn_read_loop_end:
  assumes "\<not> tc_ctxDone (tw_conn w)" "\<not> tc_closeMu (tw_conn w)" "\<not> tc_isClosed (tw_conn w)"
    and "packetRead fin (tw_cnt w, avail) = (Inl e, cnt, rest)"
  shows "\<exists>w'. TcpConn_read_loop record_event fin avail w = Done w' \<and>
    tw_env w' = tw_env w @ end_calls (tw_conn w) e \<and> tc_isClosed (tw_conn w')"
proof -
  have "TcpConn_Close record_event (w\<lparr>tw_cnt := cnt, tw_env := env\<rparr>) =
      Done (w\<lparr>tw_cnt := cnt, tw_conn := (shut_conn (tw_conn w))\<lparr>tc_closeMu := False\<rparr>,
               tw_env := env @ calls_of (tc_OnDisconnect (tw_conn w)) DisconnectEvent\<rparr>)" for env
    using assms by (simp add: TcpConn_Close_record)
  from this [of "tw_env w"] this [of "tw_env w @ calls_of (tc_OnError (tw_conn w)) (ErrorEvent (io_text e))"]
  show ?thesis
    using assms by (simp add: TcpConn_read_loop.simps [of _ _ avail] rise_record end_calls_def shut_conn_def)
qed

lemma TcpConn_read_loop_frames:
  assumes "\<forall>m \<in> set ms. length m < 2 ^ 32" and "\<not> tc_ctxDone (tw_conn w)"
  shows "\<exists>cnt. TcpConn_read_loop record_event fin (concat (map frame ms) @ rest) w =
    TcpConn_read_loop record_event fin rest
      (w\<lparr>tw_cnt := cnt, tw_env := tw_env w @ message_calls (tc_OnMessage (tw_conn w)) ms\<rparr>)"
  using assms
proof (induction ms arbitrary: w)
  case Nil
  have "w = w\<lparr>tw_cnt := tw_cnt w, tw_env := tw_env w @ message_calls (tc_OnMessage (tw_conn w)) []\<rparr>"
    by (simp add: message_calls_def)
  then show ?case by (metis append_Nil concat.simps(1) list.simps(8))
next
  case (Cons m ms)
  define cnt where "cnt = (tw_cnt w)\<lparr>TcpReadByte := TcpReadByte (tw_cnt w) + ucast (of_nat (length m) + 4 :: 32 word),
                   TcpReadPkts := TcpReadPkts (tw_cnt w) + 1\<rparr>"
  let ?w = "w\<lparr>tw_cnt := cnt, tw_env := tw_env w @ calls_of (tc_OnMessage (tw_conn w)) (MessageEvent m)\<rparr>"
  have "TcpConn_read_loop record_event fin (concat (map frame (m # ms)) @ rest) w =
      TcpConn_read_loop record_event fin (concat (map frame ms) @ rest) ?w"
    using Cons.prems
    by (subst TcpConn_read_loop.simps) (simp add: packetRead_frame rise_record cnt_def)
  moreover obtain cnt' where "TcpConn_read_loop record_event fin (concat (map frame ms) @ rest) ?w =
      TcpConn_read_loop record_event fin rest
        (?w\<lparr>tw_cnt := cnt', tw_env := tw_env ?w @ message_calls (tc_OnMessage (tw_conn ?w)) ms\<rparr>)"
    using Cons.IH [of ?w] Cons.prems by auto
  ultimately show ?case by (auto simp: message_calls_def)
qed

text \<open>
  C12: A peer that sends framed messages and then breaks off inside a frame is heard exactly
  so: every complete message reaches all OnMessage listeners in order, the partial one none,
  then the listeners of OnDisconnect are called once and the connection is closed. OnError is
  raised unless the stream ends between frames or, which the reader cannot tell apart, right
  after a length prefix.
\<close>

theorem tcp_stream_delivers:
  assumes "\<forall>m \<in> set ms. length m < 2 ^ 32" and "length m < 2 ^ 32" and "k < length (frame m)"
    and "\<not> tc_ctxDone (tw_conn w)" "\<not> tc_closeMu (tw_conn w)" "\<not> tc_isClosed (tw_conn w)"
  shows "\<exists>w'. TcpConn_StartRead record_event EOF (concat (map frame ms) @ take k (frame m)) w = Done w' \<and>
    tw_env w' = tw_env w @ message_calls (tc_OnMessage (tw_conn w)) ms @
      end_calls (tw_conn w) (if k = 0 \<or> k = 4 then EOF else UnexpectedEOF) \<and>
    tc_isClosed (tw_conn w')"
proof -
  obtain cnt where run: "TcpConn_read_loop record_event EOF (concat (map frame ms) @ take k (frame m)) w =
      TcpConn_read_loop record_event EOF (take k (frame m))
        (w\<lparr>tw_cnt := cnt, tw_env := tw_env w @ message_calls (tc_OnMessage (tw_conn w)) ms\<rparr>)" (is "_ = TcpConn_read_loop _ _ _ ?w")
    using TcpConn_read_loop_frames [OF assms(1,4)] by blast
  let ?e = "if k = 0 \<or> k = 4 then EOF else UnexpectedEOF"
  have "packetRead EOF (tw_cnt ?w, take k (frame m)) = (Inl ?e, tw_cnt ?w, [])"
    using packetRead_cut [OF assms(2,3), of EOF "tw_cnt ?w"] by simp
  from TcpConn_read_loop_end [OF _ _ _ this] assms(4-6) show ?thesis
    unfolding TcpConn_StartRead_def run by simp
qed

definition idle_conn :: "nat event_target \<Rightarrow> nat event_target \<Rightarrow> nat event_target \<Rightarrow> (nat, unit) tcp_conn" where
  "idle_conn m e d = \<lparr>tc_ctxDone = False, tc_id = ''id'', tc_txQueue = [], tc_closeMu = False,
     tc_isClosed = False, tc_LoginData = [], tc_OnMessage = m, tc_OnError = e, tc_OnDisconnect = d,
     tc_sockOpen = True, tc_remote = ''10.0.0.1:80'', tc_properties = Map.empty\<rparr>"

definition no_counts :: tcp_counters where
  "no_counts = \<lparr>TcpWritePkts = 0, TcpWriteByte = 0, TcpReadPkts = 0, TcpReadByte = 0\<rparr>"

theorem tcp_stream_delivers_witness:
  "\<exists>w'. TcpConn_StartRead record_event EOF (concat (map frame [[104, 105], []]) @ take 6 (frame [1, 2, 3]))
      \<lparr>tw_cnt = no_counts, tw_conn = idle_conn \<lparr>et_listeners = [1]\<rparr> \<lparr>et_listeners = [2]\<rparr> \<lparr>et_listeners = [3]\<rparr>,
       tw_env = []\<rparr> = Done w' \<and>
    tw_env w' = [(1, MessageEvent [104, 105]), (1, MessageEvent []), (2, ErrorEvent ''unexpected EOF''),
      (3, DisconnectEvent)]"
  (is "\<exists>w'. TcpConn_StartRead _ _ _ ?w = _ \<and> _")
proof -
  have "\<exists>w'. TcpConn_StartRead record_event EOF (concat (map frame [[104, 105], []]) @ take 6 (frame [1, 2, 3])) ?w = Done w' \<and>
    tw_env w' = tw_env ?w @ message_calls (tc_OnMessage (tw_conn ?w)) [[104, 105], []] @
      end_calls (tw_conn ?w) (if (6::nat) = 0 \<or> (6::nat) = 4 then EOF else UnexpectedEOF) \<and>
    tc_isClosed (tw_conn w')"
    by (rule tcp_stream_delivers) (simp_all add: idle_conn_def)
  then show ?thesis by (auto simp: idle_conn_def message_calls_def calls_of_def end_calls_def)
qed


subsection \<open>From one queue to the other reader\<close>

text \<open>
  A sender (SendMessage calls, and the turns of its writer) with the messages its queue
  accepted so far. The listeners of OnError do not matter here.
\<close>

inductive tcp_link :: "('f, ('f, 'v, 'e) tcp_world) runner \<Rightarrow> (bytes \<Rightarrow> nat \<times> string option)
    \<Rightarrow> bytes list \<Rightarrow> bool \<times> bytes \<times> ('f, 'v, 'e) tcp_world \<Rightarrow> bool"
  for run :: "('f, ('f, 'v, 'e) tcp_world) runner" and Write :: "bytes \<Rightarrow> nat \<times> string option" where
  start: "NewTcpConn uuid addr = Done c \<Longrightarrow>
    tcp_link run Write [] (True, [], \<lparr>tw_cnt = cnt, tw_conn = c, tw_env = e\<rparr>)"
| send: "tcp_link run Write ms (r, wire, w) \<Longrightarrow> (err, c) \<in> set (TcpConn_SendMessage m (tw_conn w)) \<Longrightarrow>
    tcp_link run Write (if tc_txQueue c = tc_txQueue (tw_conn w) then ms else ms @ [m])
      (r, wire, w\<lparr>tw_conn := c\<rparr>)"
| turn: "tcp_link run Write ms (r, wire, w) \<Longrightarrow> writer_turn run Write (r, wire, w) s \<Longrightarrow> tcp_link run Write ms s"
| close: "tcp_link run Write ms (r, wire, w) \<Longrightarrow>
    tcp_link run Write ms (r, wire, on_conn (\<lambda>c. c\<lparr>tc_sockOpen := False, tc_isClosed := True, tc_ctxDone := True\<rparr>) w)"

lemma TcpConn_SendMessage_cases:
  "(err, c) \<in> set (TcpConn_SendMessage m c0) \<Longrightarrow>
     (c = c0 \<and> (err = None \<longrightarrow> tc_ctxDone c0)) \<or>
     (err = None \<and> length (tc_txQueue c0) < TcpConnTxQueueLen \<and> c = c0\<lparr>tc_txQueue := tc_txQueue c0 @ [m]\<rparr>)"
  by (auto simp: TcpConn_SendMessage_def Let_def split: if_splits)

text \<open>io.Writer returns an error when it takes fewer bytes than it was given.\<close>

definition writer_ok :: "(bytes \<Rightarrow> nat \<times> string option) \<Rightarrow> bool" where
  "writer_ok Write \<longleftrightarrow> (\<forall>b n. Write b = (n, None) \<longrightarrow> n = length b)"

definition frames :: "bytes list \<Rightarrow> bytes" where
  "frames ms = concat (map frame ms)"

lemma frames_simps [simp]: "frames [] = []" "frames (m # ms) = frame m @ frames ms"
  "frames (ms @ ms') = frames ms @ frames ms'"
  by (simp_all add: frames_def)

lemma packetWrite_all:
  assumes "writer_ok Write" and "packetWrite Write m cnt = (None, cnt')"
  shows "take (fst (Write (frame m))) (frame m) = frame m"
proof -
  obtain n err where n: "Write (frame m) = (n, err)" by (cases "Write (frame m)")
  with assms(2) have "err = None" by (simp add: packetWrite_def)
  with n assms(1) have "n = length (frame m)" unfolding writer_ok_def by blast
  with n show ?thesis by simp
qed

lemma tcp_link_wire:
  assumes "writer_ok Write" and "tcp_link run Write ms s"
  shows "case s of (r, wire, w) \<Rightarrow>
    (\<exists>rest. frames ms = wire @ rest) \<and> (r \<longrightarrow> frames ms = wire @ frames (tc_txQueue (tw_conn w)))"
  using assms(2)
proof (induction rule: tcp_link.induct)
  case (start uuid addr c cnt e)
  then show ?case by (cases addr) auto
next
  case (send ms r wire w err c m)
  from TcpConn_SendMessage_cases [OF send.hyps(2)] send.IH show ?case by auto
next
  case (turn ms r wire w s)
  from turn.hyps(2) turn.IH show ?case
  proof cases
    case (sent m q cnt)
    with turn.IH packetWrite_all [OF assms(1)] show ?thesis by (auto simp: on_conn_def)
  next
    case (failed m q e cnt w')
    with turn.IH have "frames ms = wire @ frame m @ frames q" by simp
    then have "frames ms = (wire @ take (fst (Write (frame m))) (frame m)) @ drop (fst (Write (frame m))) (frame m) @ frames q"
      by (metis append.assoc append_take_drop_id)
    with failed show ?thesis by auto
  qed auto
next
  case (close ms r wire w)
  then show ?case by (simp add: on_conn_def)
qed

lemma frames_prefix:
  "frames ms = wire @ rest \<Longrightarrow>
     \<exists>k j m. k \<le> length ms \<and> wire = frames (take k ms) @ take j (frame m) \<and> j < length (frame m) \<and>
       (m \<in> set ms \<or> j = 0 \<and> m = [])"
proof (induction ms arbitrary: wire)
  case Nil
  then show ?case by (intro exI [of _ 0] exI [of _ "[]"]) auto
next
  case (Cons m ms)
  show ?case
  proof (cases "length wire < length (frame m)")
    case True
    with Cons.prems have "wire = take (length wire) (frame m)"
      by (auto simp: append_eq_append_conv_if split: if_splits)
    with True show ?thesis
      by (intro exI [of _ 0] exI [of _ "length wire"] exI [of _ m]) auto
  next
    case False
    then obtain wire' where w: "wire = frame m @ wire'" and "frames ms = wire' @ rest"
      using Cons.prems that [of "drop (length (frame m)) wire"]
      by (auto simp: append_eq_append_conv_if split: if_splits)
    from Cons.IH [OF this(2)] obtain k j m' where
      "k \<le> length ms \<and> wire' = frames (take k ms) @ take j (frame m') \<and> j < length (frame m') \<and>
       (m' \<in> set ms \<or> j = 0 \<and> m' = [])" by blast
    with w show ?thesis
      by (intro exI [of _ "Suc k"] exI [of _ j] exI [of _ m']) auto
  qed
qed


definition full_write :: "bytes \<Rightarrow> nat \<times> string option" where
  "full_write b = (length b, None)"

definition start_conn :: "(nat, unit) tcp_conn" where
  "start_conn = idle_conn newEventTarget newEventTarget newEventTarget"

lemma start_conn_new: "NewTcpConn ''id'' (TCPConn ''10.0.0.1:80'') = Done start_conn"
  by (simp add: start_conn_def idle_conn_def)

lemma sample_link:
  "\<exists>w. tcp_link record_event full_write [[7, 8]] (True, frame [7, 8], w) \<and>
     tc_txQueue (tw_conn (w :: (nat, unit, (nat \<times> conn_event) list) tcp_world)) = []"
proof -
  let ?w0 = "\<lparr>tw_cnt = no_counts, tw_conn = start_conn, tw_env = []\<rparr> :: (nat, unit, (nat \<times> conn_event) list) tcp_world"
  let ?c = "start_conn\<lparr>tc_txQueue := [[7, 8]]\<rparr>"
  have "tcp_link record_event full_write [] (True, [], ?w0)"
    by (rule tcp_link.start [OF start_conn_new])
  moreover have "(None, ?c) \<in> set (TcpConn_SendMessage [7, 8] (tw_conn ?w0))"
    by (simp add: TcpConn_SendMessage_def start_conn_def idle_conn_def TcpConnTxQueueLen_def)
  ultimately have "tcp_link record_event full_write
      (if tc_txQueue ?c = tc_txQueue (tw_conn ?w0) then [] else [] @ [[7, 8]]) (True, [], ?w0\<lparr>tw_conn := ?c\<rparr>)"
    by (rule tcp_link.send)
  then have link: "tcp_link record_event full_write [[7, 8]] (True, [], ?w0\<lparr>tw_conn := ?c\<rparr>)"
    by (simp add: start_conn_def idle_conn_def)
  have "\<exists>w. writer_turn record_event full_write (True, [], ?w0\<lparr>tw_conn := ?c\<rparr>) (True, frame [7, 8], w) \<and>
      tc_txQueue (tw_conn w) = []"
    using writer_turn.sent [of "?w0\<lparr>tw_conn := ?c\<rparr>" "[7, 8]" "[]" full_write _ record_event "[]"]
    by (auto simp: packetWrite_def full_write_def on_conn_def)
  with tcp_link.turn [OF link] show ?thesis by blast
qed


text \<open>
  The queue takes a message or says it did not: an open connection with a full queue
  returns an error naming the peer and keeps its queue, one with room appends at the end, and
  on a closed connection the message may vanish without an error. The queue never exceeds its
  buffer.
\<close>

theorem tcp_send_results:
  "set (TcpConn_SendMessage m c) =
     (if TcpConnTxQueueLen \<le> length (tc_txQueue c)
      then {(if tc_ctxDone c then None else Some (TxQueueFull (tc_remote c)), c)}
      else (if tc_ctxDone c then {(None, c)} else {}) \<union> {(None, c\<lparr>tc_txQueue := tc_txQueue c @ [m]\<rparr>)})"
  by (auto simp: TcpConn_SendMessage_def Let_def)

text \<open>
  Close on an open connection calls the listeners of OnDisconnect once; whatever closes
  follow, they return at once and change nothing. But Close holds the connection's mutex while
  it calls them, so a listener that closes the same connection never returns.
\<close>

theorem tcp_close_once:
  "(keeps (\<lambda>w. tc_isClosed (tw_conn w)) run \<and> TcpConn_Close run w = Done w' \<longrightarrow>
      tc_isClosed (tw_conn w') \<and> fold (\<lambda>r m. and_then m (TcpConn_Close r)) runs (Done w') = Done w') \<and>
   (\<not> tc_closeMu (tw_conn w) \<and> \<not> tc_isClosed (tw_conn w) \<and>
      tc_OnDisconnect (tw_conn w) = \<lparr>et_listeners = f # fs\<rparr> \<and> run f DisconnectEvent = TcpConn_Close run2 \<longrightarrow>
      TcpConn_Close run w = Block)"
  using tcp_close.close_done tcp_close.close_many tcp_close.reentrant_close by metis

theorem tcp_close_once_witness:
  "\<exists>w'. TcpConn_Close record_event \<lparr>tw_cnt = no_counts, tw_conn = start_conn, tw_env = []\<rparr> = Done w' \<and>
     tc_isClosed (tw_conn w') \<and> and_then (TcpConn_Close record_event w') (TcpConn_Close record_event) = Done w'"
proof -
  let ?w = "\<lparr>tw_cnt = no_counts, tw_conn = start_conn, tw_env = []\<rparr> :: (nat, unit, (nat \<times> conn_event) list) tcp_world"
  have "keeps (\<lambda>w. tc_isClosed (tw_conn w)) (record_event :: (nat, (nat, unit, (nat \<times> conn_event) list) tcp_world) runner)"
    by (rule tcp_log.keeps_log) simp
  moreover obtain w' where "TcpConn_Close record_event ?w = Done w'"
    by (simp add: TcpConn_Close_record start_conn_def idle_conn_def)
  ultimately have "tc_isClosed (tw_conn w') \<and>
      fold (\<lambda>r m. and_then m (TcpConn_Close r)) [record_event, record_event] (Done w') = Done w'"
    using tcp_close_once [of record_event ?w w' "[record_event, record_event]"] by blast
  with \<open>TcpConn_Close record_event ?w = Done w'\<close> show ?thesis by auto
qed

text \<open>
  A connection accepted through the TLS listener is no TCP socket, so the constructor's
  unchecked assertion panics in the goroutine that accepted it.
\<close>

theorem tls_connection_panics:
  "is_panic (NewTcpConn uuid c) \<longleftrightarrow> (\<forall>addr. c \<noteq> TCPConn addr)"
  by (cases c) auto

end
