(* ===== verification/Websocket_Conn.thy ===== *)
theory Websocket_Conn
  imports Conn_Interface
begin

text \<open>
  websocket_conn.go: the connection over gorilla/websocket, whose framing is the library's.
  Its Conn is a parameter through what its calls return: the results of ReadMessage in order,
  and the error of WriteMessage. The calls the code makes on it are logged.
\<close>

text \<open>A close frame with its code, or another error of the library.\<close>

datatype ws_error = CloseError int string | OtherWsError string

fun ws_error_text :: "ws_error \<Rightarrow> string" where
  "ws_error_text (CloseError code s) = s"
| "ws_error_text (OtherWsError s) = s"

definition CloseGoingAway :: int where "CloseGoingAway = 1001"
definition CloseAbnormalClosure :: int where "CloseAbnormalClosure = 1006"

text \<open>websocket.IsUnexpectedCloseError: a close error whose code is not in the list.\<close>

fun IsUnexpectedCloseError :: "ws_error \<Rightarrow> int list \<Rightarrow> bool" where
  "IsUnexpectedCloseError (CloseError code s) expected = (code \<notin> set expected)"
| "IsUnexpectedCloseError (OtherWsError s) expected = False"

fun is_CloseError :: "ws_error \<Rightarrow> bool" where
  "is_CloseError (CloseError code s) = True"
| "is_CloseError (OtherWsError s) = False"

datatype ws_call = SetWriteDeadline nat | WriteMessage bytes | WriteClose int string | CloseSocket

text \<open>Mutexes and the context are flags; the durations are nanoseconds.\<close>

record ('f, 'v) websocket_conn =
  ws_ctxDone :: bool
  ws_id :: string
  ws_txQueue :: "bytes list"
  ws_mutex :: bool
  ws_isClosed :: bool
  ws_LoginData :: bytes
  ws_PongWait :: nat
  ws_PingInterval :: nat
  ws_WriteWait :: nat
  ws_EnableLog :: bool
  ws_OnMessage :: "'f event_target"
  ws_OnError :: "'f event_target"
  ws_OnDisconnect :: "'f event_target"
  ws_remote :: string
  ws_properties :: "string \<rightharpoonup> 'v"

record ('f, 'v, 'e) ws_world =
  WsWritePkts :: "64 word"
  WsWriteByte :: "64 word"
  wsw_conn :: "('f, 'v) websocket_conn"
  wsw_calls :: "ws_call list"
  wsw_env :: 'e

definition WebsocketTxQueueLen :: nat where
  "WebsocketTxQueueLen = 100"

definition NewWebsocketConn :: "string \<Rightarrow> string \<Rightarrow> ('f, 'v) websocket_conn" where
  "NewWebsocketConn uuid addr =
     \<lparr>ws_ctxDone = False, ws_id = uuid, ws_txQueue = [], ws_mutex = False, ws_isClosed = False,
      ws_LoginData = [], ws_PongWait = 0, ws_PingInterval = 0, ws_WriteWait = 0, ws_EnableLog = False,
      ws_OnMessage = newEventTarget, ws_OnError = newEventTarget, ws_OnDisconnect = newEventTarget,
      ws_remote = addr, ws_properties = Map.empty\<rparr>"

text \<open>The dialer of the library is a parameter: its error or the peer's address.\<close>

definition DialWebsocket :: "string + string \<Rightarrow> string \<Rightarrow> string + ('f, 'v) websocket_conn" where
  "DialWebsocket dialed uuid =
     (case dialed of Inl err \<Rightarrow> Inl err | Inr addr \<Rightarrow> Inr (NewWebsocketConn uuid addr))"

definition WebsocketConn_GetProperty :: "string \<Rightarrow> ('f, 'v) websocket_conn \<Rightarrow> 'v option" where
  "WebsocketConn_GetProperty k c = sm_load k (ws_properties c)"

definition WebsocketConn_SetProperty :: "string \<Rightarrow> 'v \<Rightarrow> ('f, 'v) websocket_conn \<Rightarrow> ('f, 'v) websocket_conn" where
  "WebsocketConn_SetProperty k v c = c\<lparr>ws_properties := sm_store k v (ws_properties c)\<rparr>"

interpretation websocket_properties: keyed_store WebsocketConn_SetProperty WebsocketConn_GetProperty
  by unfold_locales (auto simp: WebsocketConn_SetProperty_def WebsocketConn_GetProperty_def sync_map_defs)

definition WebsocketConn_ListenToOnDisconnect :: "'f \<Rightarrow> ('f, 'v) websocket_conn \<Rightarrow> ('f, 'v) websocket_conn" where
  "WebsocketConn_ListenToOnDisconnect f c = c\<lparr>ws_OnDisconnect := AddEventListener f (ws_OnDisconnect c)\<rparr>"

definition WebsocketConn_ListenToOnMessage :: "'f \<Rightarrow> ('f, 'v) websocket_conn \<Rightarrow> ('f, 'v) websocket_conn" where
  "WebsocketConn_ListenToOnMessage f c = c\<lparr>ws_OnMessage := AddEventListener f (ws_OnMessage c)\<rparr>"

text \<open>
  SendMessage as the list of results its select allows. With a full queue the message is
  dropped, at most with a line in the log, and no error is returned.
\<close>

definition WebsocketConn_SendMessage ::
    "bytes \<Rightarrow> ('f, 'v) websocket_conn \<Rightarrow> (send_error option \<times> ('f, 'v) websocket_conn) list" where
  "WebsocketConn_SendMessage m c =
     (let ready =
        (if ws_ctxDone c then [(Some ConnClosed, c)] else []) @
        (if length (ws_txQueue c) < WebsocketTxQueueLen
         then [(None, c\<lparr>ws_txQueue := ws_txQueue c @ [m]\<rparr>)] else [])
      in if ready = [] then [(None, c)] else ready)"

text \<open>The counters are raised before the write. Write is the library's WriteMessage.\<close>

definition WebsocketConn_SendMessageDirect ::
    "(bytes \<Rightarrow> string option) \<Rightarrow> bytes \<Rightarrow> ('f, 'v, 'e) ws_world \<Rightarrow> string option \<times> ('f, 'v, 'e) ws_world" where
  "WebsocketConn_SendMessageDirect Write m w =
     (Write m,
      w\<lparr>WsWriteByte := WsWriteByte w + of_nat (length m), WsWritePkts := WsWritePkts w + 1,
        wsw_calls := wsw_calls w @
          (if ws_WriteWait (wsw_conn w) \<noteq> 0 then [SetWriteDeadline (ws_WriteWait (wsw_conn w))] else []) @
          [WriteMessage m]\<rparr>)"

definition ws_call :: "ws_call \<Rightarrow> ('f, 'v, 'e) ws_world \<Rightarrow> ('f, 'v, 'e) ws_world" where
  "ws_call k w = w\<lparr>wsw_calls := wsw_calls w @ [k]\<rparr>"

definition ws_shut :: "('f, 'v, 'e) ws_world \<Rightarrow> ('f, 'v, 'e) ws_world" where
  "ws_shut w = w\<lparr>wsw_conn := (wsw_conn w)\<lparr>ws_isClosed := True, ws_ctxDone := True, ws_mutex := True\<rparr>\<rparr>"

definition ws_release :: "('f, 'v, 'e) ws_world \<Rightarrow> ('f, 'v, 'e) ws_world" where
  "ws_release w = ws_call CloseSocket (w\<lparr>wsw_conn := (wsw_conn w)\<lparr>ws_mutex := False\<rparr>\<rparr>)"

definition WebsocketConn_Close ::
    "('f, ('f, 'v, 'e) ws_world) runner \<Rightarrow> ('f, 'v, 'e) ws_world \<Rightarrow> ('f, 'v, 'e) ws_world outcome" where
  "WebsocketConn_Close run w =
     (if ws_mutex (wsw_conn w) then Block
      else if ws_isClosed (wsw_conn w) then Done w
      else
        and_then (rise run DisconnectEvent (ws_OnDisconnect (wsw_conn w)) (ws_shut w))
          (\<lambda>w'. Done (ws_release w')))"

definition WebsocketConn_IsClosed :: "('f, 'v) websocket_conn \<Rightarrow> bool outcome" where
  "WebsocketConn_IsClosed c = (if ws_mutex c then Block else Done (ws_isClosed c))"

interpretation websocket_close: closable_conn WebsocketConn_Close
  "\<lambda>w. ws_isClosed (wsw_conn w)" "\<lambda>w. ws_mutex (wsw_conn w)" "\<lambda>w. ws_OnDisconnect (wsw_conn w)"
  ws_shut ws_release
  by unfold_locales (auto simp: WebsocketConn_Close_def ws_shut_def ws_release_def ws_call_def)

text \<open>
  The reader goroutine on the results of ReadMessage; when the list is used up it waits. An
  error is raised to OnError by either of the two tests, then a close frame with code 4001
  goes out and the deferred Close runs.
\<close>

fun ws_read_loop :: "('f, ('f, 'v, 'e) ws_world) runner \<Rightarrow> (ws_error + bytes) list
    \<Rightarrow> ('f, 'v, 'e) ws_world \<Rightarrow> ('f, 'v, 'e) ws_world outcome" where
  "ws_read_loop run rs w =
     (if ws_ctxDone (wsw_conn w) then WebsocketConn_Close run w
      else
        (case rs of
           [] \<Rightarrow> Done w
         | Inr msg # rs' \<Rightarrow>
             and_then (rise run (MessageEvent msg) (ws_OnMessage (wsw_conn w)) w) (ws_read_loop run rs')
         | Inl err # rs' \<Rightarrow>
             and_then
               (if IsUnexpectedCloseError err [CloseGoingAway, CloseAbnormalClosure]
                then rise run (ErrorEvent (ws_error_text err)) (ws_OnError (wsw_conn w)) w else Done w)
               (\<lambda>w1. and_then
                 (if \<not> is_CloseError err
                  then rise run (ErrorEvent (ws_error_text err)) (ws_OnError (wsw_conn w1)) w1 else Done w1)
                 (\<lambda>w2. WebsocketConn_Close run (ws_call (WriteClose 4001 (ws_error_text err)) w2)))))"

declare ws_read_loop.simps [simp del]

definition WebsocketConn_StartRead :: "('f, ('f, 'v, 'e) ws_world) runner \<Rightarrow> (ws_error + bytes) list
    \<Rightarrow> ('f, 'v, 'e) ws_world \<Rightarrow> ('f, 'v, 'e) ws_world outcome" where
  "WebsocketConn_StartRead run rs w = ws_read_loop run rs w"

text \<open>
  One turn of the writer goroutine; the flag says whether it still runs. Both ends of the loop
  run the deferred Close.
\<close>

inductive ws_writer_turn :: "('f, ('f, 'v, 'e) ws_world) runner \<Rightarrow> (bytes \<Rightarrow> string option)
    \<Rightarrow> bool \<times> ('f, 'v, 'e) ws_world \<Rightarrow> bool \<times> ('f, 'v, 'e) ws_world \<Rightarrow> bool"
  for run :: "('f, ('f, 'v, 'e) ws_world) runner" and Write :: "bytes \<Rightarrow> string option" where
  cancelled: "ws_ctxDone (wsw_conn w) \<Longrightarrow> WebsocketConn_Close run w = Done w' \<Longrightarrow>
    ws_writer_turn run Write (True, w) (False, w')"
| sent: "ws_txQueue (wsw_conn w) = m # q \<Longrightarrow>
    WebsocketConn_SendMessageDirect Write m (w\<lparr>wsw_conn := (wsw_conn w)\<lparr>ws_txQueue := q\<rparr>\<rparr>) = (None, w') \<Longrightarrow>
    ws_writer_turn run Write (True, w) (True, w')"
| failed: "ws_txQueue (wsw_conn w) = m # q \<Longrightarrow>
    WebsocketConn_SendMessageDirect Write m (w\<lparr>wsw_conn := (wsw_conn w)\<lparr>ws_txQueue := q\<rparr>\<rparr>) = (Some e, w1) \<Longrightarrow>
    rise run (ErrorEvent e) (ws_OnError (wsw_conn w1)) w1 = Done w2 \<Longrightarrow>
    WebsocketConn_Close run (ws_call (WriteClose 4001 e) w2) = Done w' \<Longrightarrow>
    ws_writer_turn run Write (True, w) (False, w')"

subsection \<open>Properties\<close>

interpretation ws_log: event_log "wsw_env_update :: _ \<Rightarrow> ('f, 'v, ('f \<times> conn_event) list) ws_world \<Rightarrow> _"
  by unfold_locales simp_all

lemma rise_ws_log:
  "rise (log_event wsw_env_update) ev e (w :: ('f, 'v, ('f \<times> conn_event) list) ws_world) =
     Done (w\<lparr>wsw_env := wsw_env w @ calls_of e ev\<rparr>)"
  using ws_log.rise_log [of ev e w] by simp

lemma WebsocketConn_Close_log:
  "\<not> ws_mutex (wsw_conn w) \<Longrightarrow> \<not> ws_isClosed (wsw_conn w) \<Longrightarrow>
     WebsocketConn_Close (log_event wsw_env_update) w =
       Done (ws_release ((ws_shut w)\<lparr>wsw_env := wsw_env w @ calls_of (ws_OnDisconnect (wsw_conn w)) DisconnectEvent\<rparr>))"
  by (simp add: WebsocketConn_Close_def rise_ws_log ws_shut_def)

lemma ws_read_messages:
  "\<not> ws_ctxDone (wsw_conn w) \<Longrightarrow>
     ws_read_loop (log_event wsw_env_update) (map Inr ms @ rs) w =
     ws_read_loop (log_event wsw_env_update) rs
       (w\<lparr>wsw_env := wsw_env w @ message_calls (ws_OnMessage (wsw_conn w)) ms\<rparr>)"
proof (induction ms arbitrary: w)
  case (Cons m ms)
  then show ?case
    by (simp add: ws_read_loop.simps [of _ "Inr m # _"] rise_ws_log)
qed simp

text \<open>The close codes an orderly peer sends when it goes away are no errors to report.\<close>

definition ws_quiet :: "ws_error \<Rightarrow> bool" where
  "ws_quiet e \<longleftrightarrow> (\<exists>code s. e = CloseError code s \<and> code \<in> {1001, 1006})"

text \<open>
  C24: The reader hands every message to all listeners of OnMessage in order; at the first
  error it raises OnError exactly once, unless the peer closed with code 1001 or 1006, sends
  a close frame with code 4001, raises OnDisconnect once and closes the socket.
\<close>

theorem ws_stream_delivers:
  assumes "\<not> ws_ctxDone (wsw_conn w)" "\<not> ws_mutex (wsw_conn w)" "\<not> ws_isClosed (wsw_conn w)"
  shows "\<exists>w'. WebsocketConn_StartRead (log_event wsw_env_update) (map Inr ms @ Inl e # rest) w = Done w' \<and>
    wsw_env w' = wsw_env w @ message_calls (ws_OnMessage (wsw_conn w)) ms @
      (if ws_quiet e then [] else calls_of (ws_OnError (wsw_conn w)) (ErrorEvent (ws_error_text e))) @
      calls_of (ws_OnDisconnect (wsw_conn w)) DisconnectEvent \<and>
    wsw_calls w' = wsw_calls w @ [WriteClose 4001 (ws_error_text e), CloseSocket] \<and>
    ws_isClosed (wsw_conn w')"
  using assms
  by (cases e)
    (auto simp: WebsocketConn_StartRead_def ws_read_messages ws_read_loop.simps [of _ "Inl x # xs" for x xs]
      rise_ws_log WebsocketConn_Close_log ws_quiet_def CloseGoingAway_def CloseAbnormalClosure_def
      ws_release_def ws_shut_def ws_call_def)

definition sample_ws :: "(nat, unit, (nat \<times> conn_event) list) ws_world" where
  "sample_ws = \<lparr>WsWritePkts = 0, WsWriteByte = 0,
     wsw_conn = (NewWebsocketConn ''id'' ''10.0.0.1:80'')\<lparr>ws_OnMessage := \<lparr>et_listeners = [1, 2]\<rparr>,
       ws_OnError := \<lparr>et_listeners = [3]\<rparr>\<rparr>,
     wsw_calls = [], wsw_env = []\<rparr>"

theorem ws_stream_delivers_witness:
  "\<exists>w'. WebsocketConn_StartRead (log_event wsw_env_update) [Inr [9], Inl (CloseError 1000 ''bye'')] sample_ws = Done w' \<and>
     wsw_env w' = [(1, MessageEvent [9]), (2, MessageEvent [9]), (3, ErrorEvent ''bye'')] \<and>
     wsw_calls w' = [WriteClose 4001 ''bye'', CloseSocket]"
  using ws_stream_delivers [of sample_ws "[[9]]" "CloseError 1000 ''bye''" "[]"]
  by (auto simp: sample_ws_def NewWebsocketConn_def calls_of_def ws_quiet_def newEventTarget_def)

text \<open>
  With a full queue an open WebSocket connection drops the message and reports success,
  where the TCP connection reports an error; a closed one may report the error or still queue.
\<close>

theorem ws_send_results:
  "set (WebsocketConn_SendMessage m c) =
     (if WebsocketTxQueueLen \<le> length (ws_txQueue c)
      then {(if ws_ctxDone c then Some ConnClosed else None, c)}
      else (if ws_ctxDone c then {(Some ConnClosed, c)} else {}) \<union>
        {(None, c\<lparr>ws_txQueue := ws_txQueue c @ [m]\<rparr>)})"
  by (auto simp: WebsocketConn_SendMessage_def Let_def)

text \<open>
  A writer that stops has closed its connection, so the client learns of the failure; and
  while it runs it writes the queue in order.
\<close>

theorem ws_writer_closes:
  assumes "keeps (\<lambda>w. ws_isClosed (wsw_conn w)) run" and "ws_writer_turn run Write (True, w) (r, w')"
  shows "(r \<longrightarrow> (\<exists>m. ws_txQueue (wsw_conn w) = m # ws_txQueue (wsw_conn w') \<and>
      last (wsw_calls w') = WriteMessage m)) \<and>
    (\<not> r \<longrightarrow> ws_isClosed (wsw_conn w'))"
  using assms(2)
proof cases
  case cancelled
  then show ?thesis using websocket_close.close_done [OF assms(1)] by simp
next
  case (sent m q)
  then show ?thesis by (auto simp: WebsocketConn_SendMessageDirect_def)
next
  case (failed m q e w1 w2)
  then show ?thesis using websocket_close.close_done [OF assms(1)] by simp
qed

lemma ws_failed_write:
  assumes "ws_txQueue (wsw_conn w) = m # q" and "Write m = Some e"
    and "\<not> ws_mutex (wsw_conn w)" "\<not> ws_isClosed (wsw_conn w)"
  shows "\<exists>w'. ws_writer_turn (log_event wsw_env_update) Write (True, w) (False, w')"
proof -
  obtain w1 where w1: "WebsocketConn_SendMessageDirect Write m
        (w\<lparr>wsw_conn := (wsw_conn w)\<lparr>ws_txQueue := q\<rparr>\<rparr>) = (Some e, w1)"
      "\<not> ws_mutex (wsw_conn w1)" "\<not> ws_isClosed (wsw_conn w1)"
    using assms by (simp add: WebsocketConn_SendMessageDirect_def)
  from ws_writer_turn.failed [OF assms(1) w1(1) rise_ws_log WebsocketConn_Close_log] w1(2,3)
  show ?thesis by (auto simp: ws_call_def)
qed

theorem ws_writer_closes_witness:
  "\<exists>w'. ws_writer_turn (log_event wsw_env_update) (\<lambda>b. Some ''broken pipe'')
     (True, sample_ws\<lparr>wsw_conn := (wsw_conn sample_ws)\<lparr>ws_txQueue := [[1]]\<rparr>\<rparr>) (False, w') \<and>
     ws_isClosed (wsw_conn w')"
proof -
  let ?w = "sample_ws\<lparr>wsw_conn := (wsw_conn sample_ws)\<lparr>ws_txQueue := [[1]]\<rparr>\<rparr>"
  have "\<exists>w'. ws_writer_turn (log_event wsw_env_update) (\<lambda>b. Some ''broken pipe'') (True, ?w) (False, w')"
    by (rule ws_failed_write [where m = "[1]" and q = "[]"])
      (simp_all add: sample_ws_def NewWebsocketConn_def)
  moreover have "keeps (\<lambda>w. ws_isClosed (wsw_conn w))
      (log_event wsw_env_update :: (nat, (nat, unit, (nat \<times> conn_event) list) ws_world) runner)"
    by (rule ws_log.keeps_log) simp
  ultimately show ?thesis using ws_writer_closes by blast
qed

end
