(* ===== verification/Udp_Transport.thy ===== *)
theory Udp_Transport
  imports Conn_Interface Simple_Codec
begin

text \<open>
  udp_server.go, fake_udp_conn.go and udp_client.go: the listener with its receive buffer and
  send queue, the connection the hub makes up for a peer's address, and the dialled client.
  The socket is a parameter: the datagrams it delivers and what a write returns. Addresses
  are strings.
\<close>

definition UDPPacketSize :: nat where "UDPPacketSize = 1024 * 4"
definition packetBufSize :: nat where "packetBufSize = 1024 * 1024"
definition UdpTxQueueLen :: nat where "UdpTxQueueLen = 100"

subsection \<open>The receive buffer\<close>

text \<open>
  Both readers cut the messages they hand out from one big array, and take a fresh array when
  less than UDPPacketSize is left. Arrays live in a store under their number; rb_next is the
  first unused number, rb_buf the current slice (array and offset).
\<close>

record recv_buffer =
  rb_store :: "nat \<Rightarrow> bytes"
  rb_next :: nat
  rb_arr :: nat
  rb_off :: nat

record go_slice =
  sl_arr :: nat
  sl_off :: nat
  sl_len :: nat

definition slice_bytes :: "(nat \<Rightarrow> bytes) \<Rightarrow> go_slice \<Rightarrow> bytes" where
  "slice_bytes st s = take (sl_len s) (drop (sl_off s) (st (sl_arr s)))"

definition new_array :: "recv_buffer \<Rightarrow> recv_buffer" where
  "new_array b = b\<lparr>rb_store := (rb_store b)(rb_next b := replicate packetBufSize 0),
     rb_next := Suc (rb_next b), rb_arr := rb_next b, rb_off := 0\<rparr>"

text \<open>make at the start of the goroutine.\<close>

definition start_buffer :: recv_buffer where
  "start_buffer = new_array \<lparr>rb_store = (\<lambda>n. []), rb_next = 0, rb_arr = 0, rb_off = 0\<rparr>"

definition write_at :: "nat \<Rightarrow> bytes \<Rightarrow> bytes \<Rightarrow> bytes" where
  "write_at off d arr = take off arr @ d @ drop (off + length d) arr"

text \<open>
  One successful turn: ReadFrom copies a datagram to the front of the slice, cut to its
  length, msg is that part and buf the rest.
\<close>

definition read_datagram :: "bytes \<Rightarrow> recv_buffer \<Rightarrow> go_slice \<times> recv_buffer" where
  "read_datagram d b0 =
     (let b = (if packetBufSize - rb_off b0 < UDPPacketSize then new_array b0 else b0);
          data = take (packetBufSize - rb_off b) d
      in (\<lparr>sl_arr = rb_arr b, sl_off = rb_off b, sl_len = length data\<rparr>,
          b\<lparr>rb_store := (rb_store b)(rb_arr b := write_at (rb_off b) data (rb_store b (rb_arr b))),
            rb_off := rb_off b + length data\<rparr>))"

fun read_datagrams :: "bytes list \<Rightarrow> recv_buffer \<Rightarrow> go_slice list \<times> recv_buffer" where
  "read_datagrams [] b = ([], b)"
| "read_datagrams (d # ds) b =
     (case read_datagram d b of (s, b1) \<Rightarrow> (case read_datagrams ds b1 of (ss, b2) \<Rightarrow> (s # ss, b2)))"

text \<open>
  Everything handed out so far lies before the current position: in the current array below
  the offset, or in an array that is no longer written.
\<close>

definition buffer_ok :: "recv_buffer \<Rightarrow> bool" where
  "buffer_ok b \<longleftrightarrow> rb_arr b < rb_next b \<and> rb_off b \<le> packetBufSize \<and>
     length (rb_store b (rb_arr b)) = packetBufSize"

definition behind :: "recv_buffer \<Rightarrow> go_slice \<Rightarrow> bool" where
  "behind b s \<longleftrightarrow> sl_arr s < rb_next b \<and> (sl_arr s = rb_arr b \<longrightarrow> sl_off s + sl_len s \<le> rb_off b)"

lemma buffer_ok_start [simp]: "buffer_ok start_buffer"
  by (simp add: start_buffer_def new_array_def buffer_ok_def)

lemma slice_write_before:
  "off + n \<le> pos \<Longrightarrow> pos \<le> length arr \<Longrightarrow> take n (drop off (write_at pos d arr)) = take n (drop off arr)"
  by (simp add: write_at_def take_drop min_def)

lemma slice_write_at: "pos \<le> length arr \<Longrightarrow> take (length d) (drop pos (write_at pos d arr)) = d"
  by (simp add: write_at_def)

lemma length_write_at [simp]: "pos + length d \<le> length arr \<Longrightarrow> length (write_at pos d arr) = length arr"
  by (simp add: write_at_def)

text \<open>One turn keeps the invariant, keeps old messages, and delivers the datagram.\<close>

lemma read_datagram_ok:
  assumes "buffer_ok b" and "read_datagram d b = (s, b')" and "length d \<le> UDPPacketSize"
  shows "buffer_ok b'" "behind b' s" "slice_bytes (rb_store b') s = d"
    "behind b s' \<Longrightarrow> behind b' s' \<and> slice_bytes (rb_store b') s' = slice_bytes (rb_store b) s'"
proof -
  define c where "c = (if packetBufSize - rb_off b < UDPPacketSize then new_array b else b)"
  have c: "buffer_ok c" "length d \<le> packetBufSize - rb_off c"
    using assms(1,3) by (auto simp: c_def buffer_ok_def new_array_def UDPPacketSize_def packetBufSize_def)
  have old: "behind c s' \<and> slice_bytes (rb_store c) s' = slice_bytes (rb_store b) s'" if "behind b s'" for s'
    using that by (auto simp: c_def behind_def new_array_def slice_bytes_def)
  have step: "s = \<lparr>sl_arr = rb_arr c, sl_off = rb_off c, sl_len = length d\<rparr>"
    "b' = c\<lparr>rb_store := (rb_store c)(rb_arr c := write_at (rb_off c) d (rb_store c (rb_arr c))),
            rb_off := rb_off c + length d\<rparr>"
    using assms(2) c(2) by (auto simp: read_datagram_def Let_def c_def [symmetric])
  show "buffer_ok b'" "behind b' s" "slice_bytes (rb_store b') s = d"
    using c by (auto simp: step buffer_ok_def behind_def slice_bytes_def slice_write_at)
  show "behind b s' \<Longrightarrow> behind b' s' \<and> slice_bytes (rb_store b') s' = slice_bytes (rb_store b) s'"
    using c old [of s'] by (auto simp: step buffer_ok_def behind_def slice_bytes_def slice_write_before)
qed

lemma read_datagrams_ok:
  assumes "\<forall>d \<in> set ds. length d \<le> UDPPacketSize"
  shows "buffer_ok b \<Longrightarrow> read_datagrams ds b = (ss, b') \<Longrightarrow>
    map (slice_bytes (rb_store b')) ss = ds \<and>
    (\<forall>s. behind b s \<longrightarrow> slice_bytes (rb_store b') s = slice_bytes (rb_store b) s)"
  using assms
proof (induction ds arbitrary: b ss)
  case (Cons d ds)
  obtain s b1 where s: "read_datagram d b = (s, b1)" by (cases "read_datagram d b")
  obtain ss1 where ss1: "read_datagrams ds b1 = (ss1, b')" "ss = s # ss1"
    using Cons.prems(2) s by (auto split: prod.splits)
  note ok = read_datagram_ok [OF Cons.prems(1) s]
  have d: "length d \<le> UDPPacketSize" using Cons.prems by simp
  with Cons.IH [OF ok(1) [OF d] ss1(1)] Cons.prems(3) have
    IH: "map (slice_bytes (rb_store b')) ss1 = ds"
      "\<And>s. behind b1 s \<Longrightarrow> slice_bytes (rb_store b') s = slice_bytes (rb_store b1) s" by auto
  show ?case using IH ok(2,3) [OF d] ok(4) [OF d] ss1(2) by auto
qed simp

text \<open>
  C25: Datagrams of at most 4096 bytes arrive whole, and the messages handed out keep their
  bytes however many datagrams follow, although they all lie in the reader's own arrays.
\<close>

theorem udp_messages_stay:
  assumes "\<forall>d \<in> set (ds @ ds'). length d \<le> UDPPacketSize"
    and "read_datagrams ds start_buffer = (ss, b)" and "read_datagrams ds' b = (ss', b')"
  shows "map (slice_bytes (rb_store b)) ss = ds \<and> map (slice_bytes (rb_store b')) (ss @ ss') = ds @ ds'"
proof -
  have app: "read_datagrams (xs @ ys) c =
      (case read_datagrams xs c of (s1, c1) \<Rightarrow> (case read_datagrams ys c1 of (s2, c2) \<Rightarrow> (s1 @ s2, c2)))" for xs ys c
    by (induction xs arbitrary: c) (auto split: prod.splits)
  have "read_datagrams (ds @ ds') start_buffer = (ss @ ss', b')" using assms(2,3) by (simp add: app)
  with read_datagrams_ok [OF assms(1) buffer_ok_start this]
    read_datagrams_ok [OF _ buffer_ok_start assms(2)] assms(1) show ?thesis by auto
qed

theorem udp_messages_stay_witness:
  "\<exists>s1 s2 b. read_datagrams [[1, 2], [3]] start_buffer = ([s1, s2], b) \<and>
     slice_bytes (rb_store b) s1 = [1, 2] \<and> slice_bytes (rb_store b) s2 = [3]"
proof -
  obtain s1 b1 where s1: "read_datagrams [[1, 2]] start_buffer = ([s1], b1)"
    by (cases "read_datagram [1, 2] start_buffer") auto
  obtain s2 b2 where s2: "read_datagrams [[3]] b1 = ([s2], b2)"
    by (cases "read_datagram [3] b1") auto
  have "read_datagrams [[1, 2], [3]] start_buffer = ([s1, s2], b2)"
    using s1 s2 by (auto split: prod.splits)
  with udp_messages_stay [OF _ s1 s2] show ?thesis by (auto simp: UDPPacketSize_def)
qed

subsection \<open>The listener\<close>

record udp_counters =
  UdpReadPkts :: "64 word"
  UdpReadByte :: "64 word"
  UdpWritePkts :: "64 word"
  UdpWriteByte :: "64 word"
  UdpWriteQueue :: int64

record write_message =
  wm_addr :: string
  wm_msg :: bytes

text \<open>
  A listener at work: the process counters, the queue, the receive buffer, the messages handed
  to onMessage with their senders, and what went out on the socket.
\<close>

record udp_listener =
  ul_cnt :: udp_counters
  ul_txQueue :: "write_message list"
  ul_buf :: recv_buffer
  ul_handed :: "(go_slice \<times> string) list"
  ul_sent :: "write_message list"

definition newUdpListener :: "udp_counters \<Rightarrow> udp_listener" where
  "newUdpListener cnt = \<lparr>ul_cnt = cnt, ul_txQueue = [], ul_buf = start_buffer, ul_handed = [], ul_sent = []\<rparr>"

definition count_queue :: "int64 \<Rightarrow> udp_listener \<Rightarrow> udp_listener" where
  "count_queue d l = l\<lparr>ul_cnt := (ul_cnt l)\<lparr>UdpWriteQueue := UdpWriteQueue (ul_cnt l) + d\<rparr>\<rparr>"

definition udpListener_sendMessage :: "bytes \<Rightarrow> string \<Rightarrow> udp_listener \<Rightarrow> send_error option \<times> udp_listener" where
  "udpListener_sendMessage data addr l0 =
     (let l = count_queue 1 l0 in
      if length (ul_txQueue l) < UdpTxQueueLen
      then (None, l\<lparr>ul_txQueue := ul_txQueue l @ [\<lparr>wm_addr = addr, wm_msg = data\<rparr>]\<rparr>)
      else (Some (TxQueueFull addr), count_queue (- 1) l))"

text \<open>WriteTo is the socket's: how many bytes it took, and its error.\<close>

definition udpListener_sendDirectMessage ::
    "(bytes \<Rightarrow> string \<Rightarrow> nat \<times> string option) \<Rightarrow> bytes \<Rightarrow> string \<Rightarrow> send_error option" where
  "udpListener_sendDirectMessage WriteTo data addr =
     (case WriteTo data addr of (n, err) \<Rightarrow> map_option WriteError err)"

text \<open>One turn of the writer: an error is logged and otherwise ignored.\<close>

definition udp_write_turn :: "(bytes \<Rightarrow> string \<Rightarrow> nat \<times> string option) \<Rightarrow> udp_listener \<Rightarrow> udp_listener" where
  "udp_write_turn WriteTo l0 =
     (case ul_txQueue l0 of
        [] \<Rightarrow> l0
      | m # q \<Rightarrow>
          (let l = count_queue (- 1) (l0\<lparr>ul_txQueue := q\<rparr>);
               n = fst (WriteTo (wm_msg m) (wm_addr m))
           in l\<lparr>ul_sent := ul_sent l @ [m],
                ul_cnt := (ul_cnt l)\<lparr>UdpWritePkts := UdpWritePkts (ul_cnt l) + 1,
                  UdpWriteByte := UdpWriteByte (ul_cnt l) + of_nat n\<rparr>\<rparr>))"

text \<open>One turn of the reader; a read error is logged and the loop goes on.\<close>

definition udp_read_turn :: "string + bytes \<times> string \<Rightarrow> udp_listener \<Rightarrow> udp_listener" where
  "udp_read_turn r l =
     (case r of
        Inl err \<Rightarrow>
          (if packetBufSize - rb_off (ul_buf l) < UDPPacketSize
           then l\<lparr>ul_buf := new_array (ul_buf l)\<rparr> else l)
      | Inr (d, addr) \<Rightarrow>
          (case read_datagram d (ul_buf l) of (s, b) \<Rightarrow>
             l\<lparr>ul_buf := b, ul_handed := ul_handed l @ [(s, addr)],
               ul_cnt := (ul_cnt l)\<lparr>UdpReadPkts := UdpReadPkts (ul_cnt l) + 1,
                 UdpReadByte := UdpReadByte (ul_cnt l) + of_nat (sl_len s)\<rparr>\<rparr>))"

text \<open>
  Senders, writer and reader in any order, with what the queue accepted and the datagrams that
  came in.
\<close>

inductive udp_run :: "(bytes \<Rightarrow> string \<Rightarrow> nat \<times> string option) \<Rightarrow> write_message list \<Rightarrow> (bytes \<times> string) list
    \<Rightarrow> udp_listener \<Rightarrow> bool" for WriteTo :: "bytes \<Rightarrow> string \<Rightarrow> nat \<times> string option" where
  start: "UdpWriteQueue cnt = 0 \<Longrightarrow> udp_run WriteTo [] [] (newUdpListener cnt)"
| sends: "udp_run WriteTo acc ins l \<Longrightarrow> udpListener_sendMessage d addr l = (err, l') \<Longrightarrow>
    udp_run WriteTo (if err = None then acc @ [\<lparr>wm_addr = addr, wm_msg = d\<rparr>] else acc) ins l'"
| writes: "udp_run WriteTo acc ins l \<Longrightarrow> udp_run WriteTo acc ins (udp_write_turn WriteTo l)"
| reads: "udp_run WriteTo acc ins l \<Longrightarrow> length d \<le> UDPPacketSize \<Longrightarrow>
    udp_run WriteTo acc (ins @ [(d, addr)]) (udp_read_turn (Inr (d, addr)) l)"
| read_fails: "udp_run WriteTo acc ins l \<Longrightarrow> udp_run WriteTo acc ins (udp_read_turn (Inl err) l)"

definition udp_inv :: "write_message list \<Rightarrow> (bytes \<times> string) list \<Rightarrow> udp_listener \<Rightarrow> bool" where
  "udp_inv acc ins l \<longleftrightarrow>
     UdpWriteQueue (ul_cnt l) = of_nat (length (ul_txQueue l)) \<and> length (ul_txQueue l) \<le> UdpTxQueueLen \<and>
     acc = ul_sent l @ ul_txQueue l \<and> buffer_ok (ul_buf l) \<and> (\<forall>(s, a) \<in> set (ul_handed l). behind (ul_buf l) s) \<and>
     map (\<lambda>(s, a). (slice_bytes (rb_store (ul_buf l)) s, a)) (ul_handed l) = ins"

lemma new_array_keeps:
  "buffer_ok b \<Longrightarrow> buffer_ok (new_array b)"
  "behind b s \<Longrightarrow> behind (new_array b) s"
  "behind b s \<Longrightarrow> slice_bytes (rb_store (new_array b)) s = slice_bytes (rb_store b) s"
  by (auto simp: buffer_ok_def behind_def new_array_def slice_bytes_def)

lemma udp_inv_buffer:
  assumes "udp_inv acc ins l" and "buffer_ok b"
    and "\<And>s. behind (ul_buf l) s \<Longrightarrow> behind b s \<and> slice_bytes (rb_store b) s = slice_bytes (rb_store (ul_buf l)) s"
  shows "udp_inv acc ins (l\<lparr>ul_buf := b\<rparr>)"
  using assms by (force simp: udp_inv_def)

lemma udp_inv_read:
  assumes "udp_inv acc ins l" and "length d \<le> UDPPacketSize"
  shows "udp_inv acc (ins @ [(d, addr)]) (udp_read_turn (Inr (d, addr)) l)"
proof -
  obtain s b where s: "read_datagram d (ul_buf l) = (s, b)" by (cases "read_datagram d (ul_buf l)")
  note ok = read_datagram_ok [OF _ s assms(2)]
  have "buffer_ok (ul_buf l)" using assms(1) by (simp add: udp_inv_def)
  with udp_inv_buffer [OF assms(1)] ok have "udp_inv acc ins (l\<lparr>ul_buf := b\<rparr>)" by blast
  with ok [OF \<open>buffer_ok (ul_buf l)\<close>] s show ?thesis by (auto simp: udp_inv_def udp_read_turn_def)
qed

lemma udp_run_inv: "udp_run WriteTo acc ins l \<Longrightarrow> udp_inv acc ins l"
proof (induction rule: udp_run.induct)
  case (start cnt)
  then show ?case by (simp add: udp_inv_def newUdpListener_def)
next
  case (sends acc ins l d addr err l')
  then show ?case
    by (auto simp: udpListener_sendMessage_def udp_inv_def count_queue_def Let_def split: if_splits)
next
  case (writes acc ins l)
  then show ?case by (auto simp: udp_write_turn_def udp_inv_def count_queue_def Let_def split: list.splits)
next
  case (reads acc ins l d addr)
  then show ?case by (simp add: udp_inv_read)
next
  case (read_fails acc ins l err)
  then show ?case
    using udp_inv_buffer [OF read_fails.IH, of "new_array (ul_buf l)"] new_array_keeps
    by (auto simp: udp_read_turn_def udp_inv_def)
qed

text \<open>
  Whatever senders, writer and reader do, UdpWriteQueue counts exactly the messages
  waiting, at most 100 wait, accepted messages go out once each in the order they were accepted,
  and every datagram of at most 4096 bytes is handed on whole with its sender and keeps its bytes.
\<close>

theorem udp_listener_invariant:
  assumes "udp_run WriteTo acc ins l"
  shows "UdpWriteQueue (ul_cnt l) = of_nat (length (ul_txQueue l)) \<and> length (ul_txQueue l) \<le> UdpTxQueueLen \<and>
    acc = ul_sent l @ ul_txQueue l \<and>
    map (\<lambda>(s, a). (slice_bytes (rb_store (ul_buf l)) s, a)) (ul_handed l) = ins"
  using udp_run_inv [OF assms] by (simp add: udp_inv_def)

definition zero_udp :: udp_counters where
  "zero_udp = \<lparr>UdpReadPkts = 0, UdpReadByte = 0, UdpWritePkts = 0, UdpWriteByte = 0, UdpWriteQueue = 0\<rparr>"

theorem udp_listener_invariant_witness:
  "\<exists>l :: udp_listener. UdpWriteQueue (ul_cnt l) = 1 \<and> ul_txQueue l = [\<lparr>wm_addr = ''b'', wm_msg = [5]\<rparr>] \<and>
     map (\<lambda>(s, a). (slice_bytes (rb_store (ul_buf l)) s, a)) (ul_handed l) = [([1, 2], ''a'')]"
proof -
  let ?W = "\<lambda>d a. (length d, None)"
  let ?l0 = "newUdpListener zero_udp"
  let ?l1 = "udp_read_turn (Inr ([1, 2], ''a'')) ?l0"
  have "udp_run ?W [] [] ?l0" by (rule udp_run.start) (simp add: zero_udp_def)
  from udp_run.reads [OF this, of "[1, 2]" "''a''"] have r1: "udp_run ?W [] [([1, 2], ''a'')] ?l1"
    by (simp add: UDPPacketSize_def)
  have q: "ul_txQueue ?l1 = []" by (simp add: udp_read_turn_def newUdpListener_def split: prod.splits)
  obtain l2 where l2: "udpListener_sendMessage [5] ''b'' ?l1 = (None, l2)" "ul_txQueue l2 = [\<lparr>wm_addr = ''b'', wm_msg = [5]\<rparr>]"
    using q by (simp add: udpListener_sendMessage_def UdpTxQueueLen_def Let_def count_queue_def)
  from udp_listener_invariant [OF udp_run.sends [OF r1 l2(1)]] l2(2) show ?thesis
    by (intro exI [of _ l2]) auto
qed

subsection \<open>The connection made up for a peer\<close>

record fake_udp_conn =
  fu_Addr :: string
  fu_beClosed :: bool

definition fakeUdpConn_SendMessage :: "bytes \<Rightarrow> fake_udp_conn \<times> udp_listener \<Rightarrow> send_error option \<times> udp_listener" where
  "fakeUdpConn_SendMessage msg s = udpListener_sendMessage msg (fu_Addr (fst s)) (snd s)"

definition fakeUdpConn_SendMessageDirect ::
    "(bytes \<Rightarrow> string \<Rightarrow> nat \<times> string option) \<Rightarrow> bytes \<Rightarrow> fake_udp_conn \<Rightarrow> send_error option" where
  "fakeUdpConn_SendMessageDirect WriteTo msg c = udpListener_sendDirectMessage WriteTo msg (fu_Addr c)"

definition fakeUdpConn_Close :: "fake_udp_conn \<Rightarrow> fake_udp_conn" where
  "fakeUdpConn_Close c = c\<lparr>fu_beClosed := True\<rparr>"

definition fakeUdpConn_IsClosed :: "fake_udp_conn \<Rightarrow> bool" where
  "fakeUdpConn_IsClosed c = fu_beClosed c"

text \<open>ListenToOnMessage ignores its listener.\<close>

definition fakeUdpConn_ListenToOnMessage :: "'f \<Rightarrow> fake_udp_conn \<Rightarrow> fake_udp_conn" where
  "fakeUdpConn_ListenToOnMessage f c = c"

text \<open>
  Closing the made-up connection only marks it: messages sent afterwards are still queued
  for the peer, and no listener is told.
\<close>

theorem fake_conn_sends_after_close:
  "fakeUdpConn_IsClosed (fakeUdpConn_Close c) \<and>
   fakeUdpConn_SendMessage m (fakeUdpConn_Close c, l) = fakeUdpConn_SendMessage m (c, l) \<and>
   (fst (fakeUdpConn_SendMessage m (fakeUdpConn_Close c, l)) = None \<longleftrightarrow> length (ul_txQueue l) < UdpTxQueueLen)"
  by (simp add: fakeUdpConn_IsClosed_def fakeUdpConn_Close_def fakeUdpConn_SendMessage_def
      udpListener_sendMessage_def Let_def count_queue_def)

subsection \<open>The dialled client\<close>

record 'f udp_client =
  uc_ctxDone :: bool
  uc_sessionId :: string
  uc_txQueue :: "bytes list"
  uc_OnMessage :: "'f event_target"
  uc_OnError :: "'f event_target"
  uc_OnDisconnect :: "'f event_target"
  uc_mutex :: bool
  uc_isClosed :: bool
  uc_readBuffer :: recv_buffer
  uc_sockOpen :: bool

record ('f, 'e) uc_world =
  ucw_conn :: "'f udp_client"
  ucw_sent :: "bytes list"
  ucw_env :: 'e

definition newUdpClient :: "'f udp_client" where
  "newUdpClient = \<lparr>uc_ctxDone = False, uc_sessionId = [], uc_txQueue = [], uc_OnMessage = newEventTarget,
     uc_OnError = newEventTarget, uc_OnDisconnect = newEventTarget, uc_mutex = False, uc_isClosed = False,
     uc_readBuffer = start_buffer, uc_sockOpen = True\<rparr>"

text \<open>DialUdp over the resolver and the dialer, each of which may fail.\<close>

definition DialUdp :: "string + unit \<Rightarrow> string + unit \<Rightarrow> string + 'f udp_client" where
  "DialUdp resolved dialed =
     (case resolved of Inl err \<Rightarrow> Inl err
      | Inr _ \<Rightarrow> (case dialed of Inl err \<Rightarrow> Inl err | Inr _ \<Rightarrow> Inr newUdpClient))"

text \<open>The message with an at sign and the session id behind it, by Sprintf.\<close>

definition udp_payload :: "string \<Rightarrow> bytes \<Rightarrow> bytes" where
  "udp_payload sid msg = msg @ bytes_of_string (''@'' @ sid)"

text \<open>A plain channel send: with a full queue it waits, closed or not.\<close>

definition UdpClient_SendMessage :: "bytes \<Rightarrow> 'f udp_client \<Rightarrow> 'f udp_client outcome" where
  "UdpClient_SendMessage msg c =
     and_then (chan_send UdpTxQueueLen (udp_payload (uc_sessionId c) msg) (uc_txQueue c))
       (\<lambda>q. Done (c\<lparr>uc_txQueue := q\<rparr>))"

definition UdpClient_SendMessageDirect :: "(bytes \<Rightarrow> string option) \<Rightarrow> bytes \<Rightarrow> 'f udp_client \<Rightarrow> string option" where
  "UdpClient_SendMessageDirect Write msg c = Write (udp_payload (uc_sessionId c) msg)"

definition UdpClient_ReadMessage :: "string + bytes \<Rightarrow> 'f udp_client \<Rightarrow> (string + go_slice) \<times> 'f udp_client" where
  "UdpClient_ReadMessage r c =
     (case r of
        Inl err \<Rightarrow>
          (Inl err,
           c\<lparr>uc_readBuffer :=
               (if packetBufSize - rb_off (uc_readBuffer c) < UDPPacketSize
                then new_array (uc_readBuffer c) else uc_readBuffer c),
             uc_ctxDone := True\<rparr>)
      | Inr d \<Rightarrow> (case read_datagram d (uc_readBuffer c) of (s, b) \<Rightarrow> (Inr s, c\<lparr>uc_readBuffer := b\<rparr>)))"

definition uc_shut :: "('f, 'e) uc_world \<Rightarrow> ('f, 'e) uc_world" where
  "uc_shut w = w\<lparr>ucw_conn := (ucw_conn w)\<lparr>uc_isClosed := True, uc_ctxDone := True, uc_mutex := True\<rparr>\<rparr>"

definition uc_release :: "('f, 'e) uc_world \<Rightarrow> ('f, 'e) uc_world" where
  "uc_release w = w\<lparr>ucw_conn := (ucw_conn w)\<lparr>uc_sockOpen := False, uc_mutex := False\<rparr>\<rparr>"

definition UdpClient_Close :: "('f, ('f, 'e) uc_world) runner \<Rightarrow> ('f, 'e) uc_world \<Rightarrow> ('f, 'e) uc_world outcome" where
  "UdpClient_Close run w =
     (if uc_mutex (ucw_conn w) then Block
      else if uc_isClosed (ucw_conn w) then Done w
      else
        and_then (rise run DisconnectEvent (uc_OnDisconnect (ucw_conn w)) (uc_shut w))
          (\<lambda>w'. Done (uc_release w')))"

definition UdpClient_IsClosed :: "'f udp_client \<Rightarrow> bool outcome" where
  "UdpClient_IsClosed c = (if uc_mutex c then Block else Done (uc_isClosed c))"

definition UdpClient_ListenToOnDisconnect :: "'f \<Rightarrow> 'f udp_client \<Rightarrow> 'f udp_client" where
  "UdpClient_ListenToOnDisconnect f c = c\<lparr>uc_OnDisconnect := AddEventListener f (uc_OnDisconnect c)\<rparr>"

definition UdpClient_ListenToOnMessage :: "'f \<Rightarrow> 'f udp_client \<Rightarrow> 'f udp_client" where
  "UdpClient_ListenToOnMessage f c = c\<lparr>uc_OnMessage := AddEventListener f (uc_OnMessage c)\<rparr>"

interpretation udp_close: closable_conn UdpClient_Close
  "\<lambda>w. uc_isClosed (ucw_conn w)" "\<lambda>w. uc_mutex (ucw_conn w)" "\<lambda>w. uc_OnDisconnect (ucw_conn w)"
  uc_shut uc_release
  by unfold_locales (auto simp: UdpClient_Close_def uc_shut_def uc_release_def)

text \<open>
  StartReadWrite: the reader with its own buffer on the results of ReadFrom, where errors are
  skipped, and one turn of the writer.
\<close>

fun uc_read_loop :: "('f, ('f, 'e) uc_world) runner \<Rightarrow> (string + bytes) list \<Rightarrow> recv_buffer
    \<Rightarrow> ('f, 'e) uc_world \<Rightarrow> ('f, 'e) uc_world outcome" where
  "uc_read_loop run rs b w =
     (if uc_ctxDone (ucw_conn w) then UdpClient_Close run w
      else
        (case rs of
           [] \<Rightarrow> Done w
         | Inl err # rs' \<Rightarrow>
             uc_read_loop run rs' (if packetBufSize - rb_off b < UDPPacketSize then new_array b else b) w
         | Inr d # rs' \<Rightarrow>
             (case read_datagram d b of (s, b') \<Rightarrow>
                and_then (rise run (MessageEvent (slice_bytes (rb_store b') s)) (uc_OnMessage (ucw_conn w)) w)
                  (uc_read_loop run rs' b'))))"

declare uc_read_loop.simps [simp del]

inductive uc_writer_turn :: "('f, ('f, 'e) uc_world) runner \<Rightarrow> (bytes \<Rightarrow> string option)
    \<Rightarrow> bool \<times> ('f, 'e) uc_world \<Rightarrow> bool \<times> ('f, 'e) uc_world \<Rightarrow> bool"
  for run :: "('f, ('f, 'e) uc_world) runner" and Write :: "bytes \<Rightarrow> string option" where
  cancelled: "uc_ctxDone (ucw_conn w) \<Longrightarrow> UdpClient_Close run w = Done w' \<Longrightarrow>
    uc_writer_turn run Write (True, w) (False, w')"
| sent: "uc_txQueue (ucw_conn w) = m # q \<Longrightarrow> Write m = None \<Longrightarrow>
    uc_writer_turn run Write (True, w)
      (True, w\<lparr>ucw_conn := (ucw_conn w)\<lparr>uc_txQueue := q\<rparr>, ucw_sent := ucw_sent w @ [m]\<rparr>)"
| failed: "uc_txQueue (ucw_conn w) = m # q \<Longrightarrow> Write m = Some e \<Longrightarrow>
    rise run (ErrorEvent e) (uc_OnError (ucw_conn w)) (w\<lparr>ucw_conn := (ucw_conn w)\<lparr>uc_txQueue := q\<rparr>\<rparr>) = Done w1 \<Longrightarrow>
    UdpClient_Close run w1 = Done w' \<Longrightarrow>
    uc_writer_turn run Write (True, w) (False, w')"

interpretation uc_log: event_log "ucw_env_update :: _ \<Rightarrow> ('f, ('f \<times> conn_event) list) uc_world \<Rightarrow> _"
  by unfold_locales simp_all

lemma rise_uc_log:
  "rise (log_event ucw_env_update) ev e (w :: ('f, ('f \<times> conn_event) list) uc_world) =
     Done (w\<lparr>ucw_env := ucw_env w @ calls_of e ev\<rparr>)"
  using uc_log.rise_log [of ev e w] by simp

fun datagrams_of :: "(string + bytes) list \<Rightarrow> bytes list" where
  "datagrams_of [] = []"
| "datagrams_of (Inl e # rs) = datagrams_of rs"
| "datagrams_of (Inr d # rs) = d # datagrams_of rs"

lemma uc_read_loop_log:
  "buffer_ok b \<Longrightarrow> \<not> uc_ctxDone (ucw_conn w) \<Longrightarrow> \<forall>d \<in> set (datagrams_of rs). length d \<le> UDPPacketSize \<Longrightarrow>
     uc_read_loop (log_event ucw_env_update) rs b w =
       Done (w\<lparr>ucw_env := ucw_env w @ message_calls (uc_OnMessage (ucw_conn w)) (datagrams_of rs)\<rparr>)"
proof (induction rs arbitrary: b w)
  case Nil
  then show ?case by (simp add: uc_read_loop.simps)
next
  case (Cons r rs)
  show ?case
  proof (cases r)
    case (Inl e)
    with Cons show ?thesis
      by (simp add: uc_read_loop.simps [of _ "Inl x # xs" for x xs] new_array_keeps)
  next
    case (Inr d)
    obtain s b' where s: "read_datagram d b = (s, b')" by (cases "read_datagram d b")
    from read_datagram_ok [OF Cons.prems(1) s] Inr Cons.prems(3)
    have "buffer_ok b'" "slice_bytes (rb_store b') s = d" by auto
    with Inr Cons s show ?thesis
      by (simp add: uc_read_loop.simps [of _ "Inr x # xs" for x xs] rise_uc_log)
  qed
qed

text \<open>
  The client's reader hands every datagram of at most 4096 bytes to all listeners of
  OnMessage in order, and read errors in between change nothing.
\<close>

theorem udp_client_reads_all:
  assumes "\<not> uc_ctxDone (ucw_conn w)" and "\<forall>d \<in> set (datagrams_of rs). length d \<le> UDPPacketSize"
  shows "uc_read_loop (log_event ucw_env_update) rs start_buffer w =
    Done (w\<lparr>ucw_env := ucw_env w @ message_calls (uc_OnMessage (ucw_conn w)) (datagrams_of rs)\<rparr>)"
  using uc_read_loop_log [OF buffer_ok_start assms] .

theorem udp_client_reads_all_witness:
  "\<exists>w'. uc_read_loop (log_event ucw_env_update) [Inr [1], Inl ''timeout'', Inr [2]] start_buffer
      \<lparr>ucw_conn = (newUdpClient :: nat udp_client)\<lparr>uc_OnMessage := \<lparr>et_listeners = [7]\<rparr>\<rparr>, ucw_sent = [], ucw_env = []\<rparr> = Done w' \<and>
     ucw_env w' = [(7, MessageEvent [1]), (7, MessageEvent [2])]"
  by (subst udp_client_reads_all)
    (simp_all add: newUdpClient_def UDPPacketSize_def calls_of_def)

text \<open>
  The at sign and session id that the client appends do not disturb the codec: any packet
  bytes that hold an at sign of their own decode the same with and without the suffix.
\<close>

theorem udp_suffix_ignored:
  assumes "CHR ''@'' \<in> set (string_of_bytes bs)"
  shows "Unmarshal (udp_payload sid bs) = Unmarshal bs"
proof -
  obtain a b where ab: "string_of_bytes bs = a @ CHR ''@'' # b" "CHR ''@'' \<notin> set a"
    using assms split_list_first by metis
  obtain y ys where y: "split_on (CHR ''@'') b = y # ys"
    using split_on_not_Nil [of "CHR ''@''" b] by (cases "split_on (CHR ''@'') b") auto
  have "string_of_bytes (udp_payload sid bs) = (a @ CHR ''@'' # b) @ CHR ''@'' # sid"
    using ab by (simp add: udp_payload_def string_of_bytes_append)
  then have "split_on (CHR ''@'') (string_of_bytes (udp_payload sid bs)) = a # y # ys @ split_on (CHR ''@'') sid"
    using split_on_append [of "CHR ''@''" "a @ CHR ''@'' # b" sid] split_on_append_sep [OF ab(2)] y by simp
  moreover have "split_on (CHR ''@'') (string_of_bytes bs) = a # y # ys"
    using split_on_append_sep [OF ab(2)] y ab(1) by simp
  ultimately show ?thesis by (simp add: Unmarshal_def Let_def split: option.splits)
qed

theorem udp_suffix_ignored_witness:
  "Unmarshal (udp_payload ''s1'' (bytes_of_string ''2@ {}'')) = Unmarshal (bytes_of_string ''2@ {}'')"
  by (rule udp_suffix_ignored) simp

text \<open>
  The client's SendMessage waits for ever exactly when its queue is full, closed or not:
  it does not watch the context.
\<close>

theorem udp_client_send_blocks:
  "UdpClient_SendMessage m c = Block \<longleftrightarrow> UdpTxQueueLen \<le> length (uc_txQueue c)"
  by (auto simp: UdpClient_SendMessage_def outcome_simps chan_simps)

end
