(* ===== verification/Pending_Calls.thy ===== *)
theory Pending_Calls
  imports Go_Json
begin

text \<open>
  The request and acknowledgement machinery of client.go: Request, RequestWithRetryByPacket and
  SendPacketWithRetry as goroutines that take one atomic step at a time, and the parts of
  onReceiveResponse and onReceiveAck that wake them. The two tables are sync.Maps from packet
  ids to flyPackets; the flyPackets live on a heap, because a call and a table entry share one.
  Any number of calls may run; steps of calls, responses, acknowledgements, timers and the
  cancellation of the client interleave in any order.
\<close>

subsection \<open>Channels that are only closed\<close>

datatype chan_state = NilChan | OpenChan | ClosedChan

fun close_chan :: "chan_state \<Rightarrow> chan_state outcome" where
  "close_chan NilChan = Panic ''close of nil channel''"
| "close_chan OpenChan = Done ClosedChan"
| "close_chan ClosedChan = Panic ''close of closed channel''"

record fly_packet =
  fp_resultBack :: chan_state
  fp_ackBack :: chan_state
  fp_result :: "json option"
  fp_err :: "string option"

definition newFlyRequest :: fly_packet where
  "newFlyRequest = \<lparr>fp_resultBack = OpenChan, fp_ackBack = OpenChan, fp_result = None, fp_err = None\<rparr>"

definition newFlyNotify :: fly_packet where
  "newFlyNotify = \<lparr>fp_resultBack = NilChan, fp_ackBack = OpenChan, fp_result = None, fp_err = None\<rparr>"

subsection \<open>Calls\<close>

datatype call_kind = PlainRequest | RetryRequest | RetryNotify

datatype call_result = ClientClosed | Answer "json option" "string option" | NotifyDone "string option"

text \<open>
  Where a call stands: before its Load, before its LoadOrStore, in the loop of the call that
  stored the entry (with its flyPacket and beAcked), waiting for another call's flyPacket (the
  flag says whether that select also watches the context), or returned.
\<close>

datatype call_pc =
    Loading
  | Storing
  | Owning nat bool
  | Waiting nat bool
  | Returned call_result

record pending_call =
  pc_kind :: call_kind
  pc_id :: string
  pc_at :: call_pc

text \<open>
  The part of the client the calls share: the heap, pendingResp, pendingAck, whether the
  context is cancelled, the calls, and as a record of what went by the ids of the packets the
  calls sent and the responses received.
\<close>

record pending_state =
  pn_heap :: "fly_packet list"
  pendingResp :: "string \<rightharpoonup> nat"
  pendingAck :: "string \<rightharpoonup> nat"
  pn_ctxDone :: bool
  pn_calls :: "pending_call list"
  pn_sent :: "string list"
  pn_received :: "(string \<times> json option \<times> string option) list"

definition pending_start :: pending_state where
  "pending_start = \<lparr>pn_heap = [], pendingResp = Map.empty, pendingAck = Map.empty, pn_ctxDone = False,
     pn_calls = [], pn_sent = [], pn_received = []\<rparr>"

definition timeout_error :: "call_kind \<Rightarrow> string \<Rightarrow> string" where
  "timeout_error k pid =
     (if k = RetryNotify then ''timeout waiting for the ack of '' @ pid
      else ''timeout waiting for the response to '' @ pid)"

definition table_of :: "call_kind \<Rightarrow> pending_state \<Rightarrow> (string \<rightharpoonup> nat)" where
  "table_of k s = (if k = RetryNotify then pendingAck s else pendingResp s)"

definition set_table :: "call_kind \<Rightarrow> (string \<rightharpoonup> nat) \<Rightarrow> pending_state \<Rightarrow> pending_state" where
  "set_table k m s = (if k = RetryNotify then s\<lparr>pendingAck := m\<rparr> else s\<lparr>pendingResp := m\<rparr>)"

definition goto :: "nat \<Rightarrow> call_pc \<Rightarrow> pending_state \<Rightarrow> pending_state" where
  "goto i pc s = s\<lparr>pn_calls := (pn_calls s)[i := (pn_calls s ! i)\<lparr>pc_at := pc\<rparr>]\<rparr>"

definition send_packet :: "string \<Rightarrow> pending_state \<Rightarrow> pending_state" where
  "send_packet pid s = s\<lparr>pn_sent := pn_sent s @ [pid]\<rparr>"

definition set_fly :: "nat \<Rightarrow> fly_packet \<Rightarrow> pending_state \<Rightarrow> pending_state" where
  "set_fly a f s = s\<lparr>pn_heap := (pn_heap s)[a := f]\<rparr>"

text \<open>The channel a call of this kind waits on, and closing it.\<close>

definition back_of :: "call_kind \<Rightarrow> fly_packet \<Rightarrow> chan_state" where
  "back_of k f = (if k = RetryNotify then fp_ackBack f else fp_resultBack f)"

definition close_back :: "call_kind \<Rightarrow> fly_packet \<Rightarrow> fly_packet outcome" where
  "close_back k f =
     and_then (close_chan (back_of k f))
       (\<lambda>c. Done (if k = RetryNotify then f\<lparr>fp_ackBack := c\<rparr> else f\<lparr>fp_resultBack := c\<rparr>))"

definition answer_of :: "call_kind \<Rightarrow> fly_packet \<Rightarrow> call_result" where
  "answer_of k f = (if k = RetryNotify then NotifyDone (fp_err f) else Answer (fp_result f) (fp_err f))"

text \<open>A new goroutine calls one of the three functions.\<close>

definition begin_call :: "call_kind \<Rightarrow> string \<Rightarrow> pending_state \<Rightarrow> pending_state" where
  "begin_call k pid s = s\<lparr>pn_calls := pn_calls s @ [\<lparr>pc_kind = k, pc_id = pid, pc_at = Loading\<rparr>]\<rparr>"

text \<open>
  Load: an entry that is already there is waited for; SendPacketWithRetry does so without
  watching the context.
\<close>

definition load_step :: "nat \<Rightarrow> pending_state \<Rightarrow> pending_state" where
  "load_step i s =
     (let c = pn_calls s ! i in
      case table_of (pc_kind c) s (pc_id c) of
        Some a \<Rightarrow> goto i (Waiting a (pc_kind c \<noteq> RetryNotify)) s
      | None \<Rightarrow> goto i Storing s)"

text \<open>LoadOrStore, and the first sending of the packet by the call that stored.\<close>

definition store_step :: "nat \<Rightarrow> pending_state \<Rightarrow> pending_state" where
  "store_step i s =
     (let c = pn_calls s ! i; k = pc_kind c; a = length (pn_heap s) in
      case table_of k s (pc_id c) of
        Some b \<Rightarrow> goto i (Waiting b True) s
      | None \<Rightarrow>
          goto i (Owning a False)
            (send_packet (pc_id c)
              (set_table k ((table_of k s)(pc_id c \<mapsto> a))
                (s\<lparr>pn_heap := pn_heap s @ [if k = RetryNotify then newFlyNotify else newFlyRequest]\<rparr>))))"

text \<open>
  The timer of the owner: Request closes its channel and leaves the entry in the table, the
  two functions with retry take the entry out first and close only if it was there.
\<close>

definition timeout_step :: "nat \<Rightarrow> nat \<Rightarrow> pending_state \<Rightarrow> pending_state outcome" where
  "timeout_step i a s =
     (let c = pn_calls s ! i; k = pc_kind c; e = Some (timeout_error k (pc_id c));
          f = (pn_heap s ! a)\<lparr>fp_err := e\<rparr>;
          res = (if k = RetryNotify then NotifyDone e else Answer None e)
      in
      if k = PlainRequest
      then and_then (close_back k f) (\<lambda>f'. Done (goto i (Returned res) (set_fly a f' s)))
      else
        (case table_of k s (pc_id c) of
           None \<Rightarrow> Done (goto i (Returned res) (set_fly a f s))
         | Some b \<Rightarrow>
             and_then (close_back k f)
               (\<lambda>f'. Done (goto i (Returned res)
                  (set_fly a f' (set_table k ((table_of k s)(pc_id c := None)) s))))))"

text \<open>
  The cases of the selects: which one the runtime takes is the event, and it is taken only
  when it is ready.
\<close>

datatype pick = Proceed | SeeCtx | SeeBack | SeeAck | RetryTick | Timer

fun call_step :: "pick \<Rightarrow> nat \<Rightarrow> pending_state \<Rightarrow> pending_state outcome option" where
  "call_step p i s =
     (if length (pn_calls s) \<le> i then None
      else
        (let c = pn_calls s ! i; k = pc_kind c in
         case (pc_at c, p) of
           (Loading, Proceed) \<Rightarrow> Some (Done (load_step i s))
         | (Storing, Proceed) \<Rightarrow> Some (Done (store_step i s))
         | (Owning a acked, SeeCtx) \<Rightarrow>
             (if pn_ctxDone s
              then Some (Done (goto i (Returned (if k = RetryNotify then NotifyDone None else ClientClosed)) s))
              else None)
         | (Owning a acked, SeeBack) \<Rightarrow>
             (if back_of k (pn_heap s ! a) = ClosedChan
              then Some (Done (goto i (Returned (answer_of k (pn_heap s ! a))) s)) else None)
         | (Owning a acked, SeeAck) \<Rightarrow>
             (if k = RetryRequest \<and> fp_ackBack (pn_heap s ! a) = ClosedChan
              then Some (Done (goto i (Owning a True) s)) else None)
         | (Owning a acked, RetryTick) \<Rightarrow>
             (if k = PlainRequest then None
              else if k = RetryRequest \<and> acked then Some (Done s)
              else Some (Done (send_packet (pc_id c) s)))
         | (Owning a acked, Timer) \<Rightarrow> Some (timeout_step i a s)
         | (Waiting a watch, SeeCtx) \<Rightarrow>
             (if watch \<and> pn_ctxDone s
              then Some (Done (goto i (Returned (if k = RetryNotify then NotifyDone None else ClientClosed)) s))
              else None)
         | (Waiting a watch, SeeBack) \<Rightarrow>
             (if back_of k (pn_heap s ! a) = ClosedChan
              then Some (Done (goto i (Returned (answer_of k (pn_heap s ! a))) s)) else None)
         | _ \<Rightarrow> None))"

declare call_step.simps [simp del]

text \<open>onReceiveResponse and onReceiveAck after their acknowledgement.\<close>

definition receive_response :: "string \<Rightarrow> json option \<Rightarrow> string \<Rightarrow> pending_state \<Rightarrow> pending_state outcome" where
  "receive_response pid result error s0 =
     (let s = s0\<lparr>pn_received := pn_received s0 @
            [(pid, if error \<noteq> [] then None else result, if error \<noteq> [] then Some error else None)]\<rparr> in
      case pendingResp s pid of
        None \<Rightarrow> Done s
      | Some a \<Rightarrow>
          (let f = pn_heap s ! a;
               f1 = (if error \<noteq> [] then f\<lparr>fp_err := Some error\<rparr> else f\<lparr>fp_result := result\<rparr>)
           in and_then (close_back RetryRequest f1)
                (\<lambda>f'. Done (set_fly a f' (s\<lparr>pendingResp := (pendingResp s)(pid := None)\<rparr>)))))"

definition receive_ack :: "string \<Rightarrow> pending_state \<Rightarrow> pending_state outcome" where
  "receive_ack pid s =
     (case pendingAck s pid of
        None \<Rightarrow> Done s
      | Some a \<Rightarrow>
          and_then (close_back RetryNotify (pn_heap s ! a))
            (\<lambda>f'. Done (set_fly a f' (s\<lparr>pendingAck := (pendingAck s)(pid := None)\<rparr>))))"

definition pn_cancel :: "pending_state \<Rightarrow> pending_state" where
  "pn_cancel s = s\<lparr>pn_ctxDone := True\<rparr>"

text \<open>
  One event of the whole. The guard ok says which calls the environment makes: which kinds,
  and whether an id may be used again.
\<close>

inductive pending_event :: "(call_kind \<Rightarrow> string \<Rightarrow> pending_state \<Rightarrow> bool) \<Rightarrow> pending_state \<Rightarrow> pending_state outcome \<Rightarrow> bool"
  for ok :: "call_kind \<Rightarrow> string \<Rightarrow> pending_state \<Rightarrow> bool" where
  begins: "ok k pid s \<Longrightarrow> pending_event ok s (Done (begin_call k pid s))"
| call: "call_step p i s = Some r \<Longrightarrow> pending_event ok s r"
| response: "pending_event ok s (receive_response pid result error s)"
| ack: "pending_event ok s (receive_ack pid s)"
| cancel: "pending_event ok s (Done (pn_cancel s))"

inductive pending_reach :: "(call_kind \<Rightarrow> string \<Rightarrow> pending_state \<Rightarrow> bool) \<Rightarrow> pending_state \<Rightarrow> bool"
  for ok :: "call_kind \<Rightarrow> string \<Rightarrow> pending_state \<Rightarrow> bool" where
  start: "pending_reach ok pending_start"
| event: "pending_reach ok s \<Longrightarrow> pending_event ok s (Done s') \<Longrightarrow> pending_reach ok s'"

end
