(* ===== verification/Pending_Proofs.thy ===== *)
theory Pending_Proofs
  imports Pending_Calls
begin

text \<open>
  Invariants and properties of the calls of Pending_Calls: answers belong to their requests,
  no channel is closed twice when ids are not reused, timers end calls, and what goes wrong
  with Request and with the acknowledgement of requests.
\<close>


subsection \<open>What every flyPacket belongs to\<close>

text \<open>
  The two tables and channels by a flag: True for acknowledgements, False for responses. The
  invariants speak of the flyPacket at an address through the flag and id it was made for.
\<close>

definition tbl :: "bool \<Rightarrow> pending_state \<Rightarrow> (string \<rightharpoonup> nat)" where
  "tbl n s = (if n then pendingAck s else pendingResp s)"

definition bck :: "bool \<Rightarrow> fly_packet \<Rightarrow> chan_state" where
  "bck n f = (if n then fp_ackBack f else fp_resultBack f)"

definition key_of :: "pending_call \<Rightarrow> bool \<times> string" where
  "key_of c = (pc_kind c = RetryNotify, pc_id c)"

lemma table_of_tbl: "table_of k s = tbl (k = RetryNotify) s"
  by (simp add: table_of_def tbl_def)

lemma back_of_bck: "back_of k f = bck (k = RetryNotify) f"
  by (simp add: back_of_def bck_def)

named_theorems pending_simps

lemmas [pending_simps] = goto_def send_packet_def set_fly_def set_table_def tbl_def bck_def back_of_bck
  table_of_tbl

definition answer_ok :: "(string \<times> json option \<times> string option) set \<Rightarrow> bool \<times> string
    \<Rightarrow> json option \<Rightarrow> string option \<Rightarrow> bool" where
  "answer_ok R key r e \<longleftrightarrow>
     (e = None \<longrightarrow> (snd key, r, None) \<in> R) \<and>
     (\<forall>m. e = Some m \<longrightarrow> m = timeout_error RetryRequest (snd key) \<or> (snd key, None, Some m) \<in> R)"

definition fly_ok :: "(string \<times> json option \<times> string option) set \<Rightarrow> bool \<times> string \<Rightarrow> fly_packet \<Rightarrow> bool" where
  "fly_ok R key f \<longleftrightarrow> \<not> fst key \<longrightarrow>
     (fp_resultBack f = ClosedChan \<or> fp_err f \<noteq> None \<longrightarrow> answer_ok R key (fp_result f) (fp_err f))"

definition call_ok :: "(nat \<Rightarrow> bool \<times> string) \<Rightarrow> nat \<Rightarrow> (string \<times> json option \<times> string option) set \<Rightarrow> pending_call \<Rightarrow> bool" where
  "call_ok own n R c \<longleftrightarrow>
     (case pc_at c of
        Owning a acked \<Rightarrow> a < n \<and> own a = key_of c
      | Waiting a watch \<Rightarrow> a < n \<and> own a = key_of c
      | Returned (Answer r e) \<Rightarrow> answer_ok R (key_of c) r e
      | _ \<Rightarrow> True)"

definition pending_inv :: "(nat \<Rightarrow> bool \<times> string) \<Rightarrow> pending_state \<Rightarrow> bool" where
  "pending_inv own s \<longleftrightarrow>
     (\<forall>n pid a. tbl n s pid = Some a \<longrightarrow> a < length (pn_heap s) \<and> own a = (n, pid)) \<and>
     (\<forall>c \<in> set (pn_calls s). call_ok own (length (pn_heap s)) (set (pn_received s)) c) \<and>
     (\<forall>a < length (pn_heap s). fly_ok (set (pn_received s)) (own a) (pn_heap s ! a))"

lemma pending_invD:
  assumes "pending_inv own s"
  shows "tbl n s pid = Some a \<Longrightarrow> a < length (pn_heap s) \<and> own a = (n, pid)"
    and "c \<in> set (pn_calls s) \<Longrightarrow> call_ok own (length (pn_heap s)) (set (pn_received s)) c"
    and "a < length (pn_heap s) \<Longrightarrow> fly_ok (set (pn_received s)) (own a) (pn_heap s ! a)"
  using assms by (auto simp: pending_inv_def)

lemma pending_invI:
  assumes "\<And>n pid a. tbl n s pid = Some a \<Longrightarrow> a < length (pn_heap s) \<and> own a = (n, pid)"
    and "\<And>c. c \<in> set (pn_calls s) \<Longrightarrow> call_ok own (length (pn_heap s)) (set (pn_received s)) c"
    and "\<And>a. a < length (pn_heap s) \<Longrightarrow> fly_ok (set (pn_received s)) (own a) (pn_heap s ! a)"
  shows "pending_inv own s"
  using assms unfolding pending_inv_def by blast

text \<open>A call that moves on, a packet that is sent, an entry that goes, a flyPacket that changes.\<close>

lemma parts_simps [simp]:
  "tbl n (goto i pc s) = tbl n s" "tbl n (send_packet pid s) = tbl n s" "tbl n (set_fly a f s) = tbl n s"
  "tbl n (set_table k m s) = (if n = (k = RetryNotify) then m else tbl n s)"
  "tbl n (s\<lparr>pn_received := R\<rparr>) = tbl n s" "tbl n (s\<lparr>pn_heap := H\<rparr>) = tbl n s"
  "tbl n (begin_call k pid s) = tbl n s" "tbl n (pn_cancel s) = tbl n s"
  "pn_heap (goto i pc s) = pn_heap s" "pn_heap (send_packet pid s) = pn_heap s"
  "pn_heap (set_table k m s) = pn_heap s" "pn_heap (set_fly a f s) = (pn_heap s)[a := f]"
  "pn_heap (begin_call k pid s) = pn_heap s" "pn_heap (pn_cancel s) = pn_heap s"
  "pn_received (goto i pc s) = pn_received s" "pn_received (send_packet pid s) = pn_received s"
  "pn_received (set_table k m s) = pn_received s" "pn_received (set_fly a f s) = pn_received s"
  "pn_received (begin_call k pid s) = pn_received s" "pn_received (pn_cancel s) = pn_received s"
  "pn_calls (send_packet pid s) = pn_calls s" "pn_calls (set_table k m s) = pn_calls s"
  "pn_calls (set_fly a f s) = pn_calls s" "pn_calls (pn_cancel s) = pn_calls s"
  "pn_calls (goto i pc s) = (pn_calls s)[i := (pn_calls s ! i)\<lparr>pc_at := pc\<rparr>]"
  "pn_calls (begin_call k pid s) = pn_calls s @ [\<lparr>pc_kind = k, pc_id = pid, pc_at = Loading\<rparr>]"
  by (auto simp: tbl_def goto_def send_packet_def set_fly_def set_table_def begin_call_def pn_cancel_def)

lemma inv_goto:
  assumes "pending_inv own s"
    and "call_ok own (length (pn_heap s)) (set (pn_received s)) ((pn_calls s ! i)\<lparr>pc_at := pc\<rparr>)"
  shows "pending_inv own (goto i pc s)"
proof (rule pending_invI)
  fix c assume "c \<in> set (pn_calls (goto i pc s))"
  then have "c = (pn_calls s ! i)\<lparr>pc_at := pc\<rparr> \<or> c \<in> set (pn_calls s)"
    using set_update_subset_insert by fastforce
  with assms(2) pending_invD(2) [OF assms(1)]
  show "call_ok own (length (pn_heap (goto i pc s))) (set (pn_received (goto i pc s))) c" by auto
qed (use pending_invD(1,3) [OF assms(1)] in simp_all)

lemma inv_send: "pending_inv own s \<Longrightarrow> pending_inv own (send_packet pid s)"
  by (rule pending_invI) (simp_all add: pending_invD)

lemma inv_forget: "pending_inv own s \<Longrightarrow> pending_inv own (set_table k ((table_of k s)(pid := None)) s)"
  by (rule pending_invI) (auto simp: table_of_tbl dest: pending_invD split: if_splits)

lemma inv_fly:
  assumes "pending_inv own s" and "a < length (pn_heap s) \<Longrightarrow> fly_ok (set (pn_received s)) (own a) f"
  shows "pending_inv own (set_fly a f s)"
proof (rule pending_invI)
  fix b assume "b < length (pn_heap (set_fly a f s))"
  then show "fly_ok (set (pn_received (set_fly a f s))) (own b) (pn_heap (set_fly a f s) ! b)"
    using assms(2) pending_invD(3) [OF assms(1), of b] by (cases "b = a") simp_all
qed (use pending_invD(1,2) [OF assms(1)] in simp_all)

lemma answer_ok_more: "answer_ok R key r e \<Longrightarrow> R \<subseteq> R' \<Longrightarrow> answer_ok R' key r e"
  unfolding answer_ok_def by blast

lemma call_ok_more: "call_ok own n R c \<Longrightarrow> R \<subseteq> R' \<Longrightarrow> call_ok own n R' c"
  by (auto simp: call_ok_def intro: answer_ok_more split: call_pc.splits call_result.splits)

lemma fly_ok_more: "fly_ok R key f \<Longrightarrow> R \<subseteq> R' \<Longrightarrow> fly_ok R' key f"
  unfolding fly_ok_def using answer_ok_more by blast

lemma inv_receive:
  assumes "pending_inv own s"
  shows "pending_inv own (s\<lparr>pn_received := pn_received s @ [x]\<rparr>)"
proof (rule pending_invI)
  fix c assume "c \<in> set (pn_calls (s\<lparr>pn_received := pn_received s @ [x]\<rparr>))"
  with pending_invD(2) [OF assms, of c]
  show "call_ok own (length (pn_heap (s\<lparr>pn_received := pn_received s @ [x]\<rparr>)))
      (set (pn_received (s\<lparr>pn_received := pn_received s @ [x]\<rparr>))) c"
    by (auto intro: call_ok_more)
next
  fix a assume "a < length (pn_heap (s\<lparr>pn_received := pn_received s @ [x]\<rparr>))"
  with pending_invD(3) [OF assms, of a]
  show "fly_ok (set (pn_received (s\<lparr>pn_received := pn_received s @ [x]\<rparr>))) (own a)
      (pn_heap (s\<lparr>pn_received := pn_received s @ [x]\<rparr>) ! a)"
    by (auto intro: fly_ok_more)
qed (use pending_invD(1) [OF assms] in simp)

lemma close_back_Done:
  "close_back k f = Done f' \<longleftrightarrow> back_of k f = OpenChan \<and>
     f' = (if k = RetryNotify then f\<lparr>fp_ackBack := ClosedChan\<rparr> else f\<lparr>fp_resultBack := ClosedChan\<rparr>)"
  by (cases "back_of k f") (auto simp: close_back_def)

text \<open>A timeout leaves the timeout error in a flyPacket for responses.\<close>

lemma fly_ok_timeout:
  "fly_ok R (n, pid) f \<Longrightarrow> n = (k = RetryNotify) \<Longrightarrow>
     fly_ok R (n, pid) (f\<lparr>fp_err := Some (timeout_error k pid), fp_resultBack := b\<rparr>)"
  by (auto simp: fly_ok_def answer_ok_def timeout_error_def)

lemma inv_store_own:
  assumes inv: "pending_inv own s"
    and free: "table_of (pc_kind (pn_calls s ! i)) s (pc_id (pn_calls s ! i)) = None"
  shows "pending_inv (own(length (pn_heap s) := key_of (pn_calls s ! i))) (store_step i s)"
proof -
  let ?c = "pn_calls s ! i" and ?a = "length (pn_heap s)"
  let ?own = "own(?a := key_of ?c)"
  let ?f = "if pc_kind ?c = RetryNotify then newFlyNotify else newFlyRequest"
  let ?s1 = "set_table (pc_kind ?c) ((table_of (pc_kind ?c) s)(pc_id ?c \<mapsto> ?a)) (s\<lparr>pn_heap := pn_heap s @ [?f]\<rparr>)"
  have calls: "call_ok ?own (Suc ?a) (set (pn_received s)) c" if "c \<in> set (pn_calls s)" for c
    using pending_invD(2) [OF inv that]
    by (auto simp: call_ok_def split: call_pc.splits call_result.splits)
  have new: "fly_ok R (key_of ?c) ?f" for R
    by (simp add: fly_ok_def newFlyNotify_def newFlyRequest_def key_of_def)
  have tabs: "a < Suc ?a \<and> ?own a = (n, pid)" if "tbl n ?s1 pid = Some a" for n pid a
    using that pending_invD(1) [OF inv, of n pid a]
    by (auto simp: table_of_tbl key_of_def split: if_splits)
  have "pending_inv ?own ?s1"
  proof (rule pending_invI)
    fix a assume "a < length (pn_heap ?s1)"
    then show "fly_ok (set (pn_received ?s1)) (?own a) (pn_heap ?s1 ! a)"
      using new pending_invD(3) [OF inv, of a] by (cases "a = ?a") (simp_all add: nth_append less_Suc_eq)
  qed (use tabs calls in simp_all)
  then have "pending_inv ?own (goto i (Owning ?a False) (send_packet (pc_id ?c) ?s1))"
    by (intro inv_goto inv_send) (simp_all add: call_ok_def key_of_def)
  with free show ?thesis by (simp add: store_step_def Let_def)
qed

text \<open>The select of a call: the rule that all the cases go through.\<close>

lemma call_step_cases:
  assumes "call_step p i s = Some r"
  obtains (load) "i < length (pn_calls s)" "pc_at (pn_calls s ! i) = Loading" "r = Done (load_step i s)"
  | (store) "i < length (pn_calls s)" "pc_at (pn_calls s ! i) = Storing" "r = Done (store_step i s)"
  | (ctx) "i < length (pn_calls s)" "pn_ctxDone s"
      "r = Done (goto i (Returned (if pc_kind (pn_calls s ! i) = RetryNotify then NotifyDone None else ClientClosed)) s)"
  | (chan) a x where "i < length (pn_calls s)"
      "pc_at (pn_calls s ! i) = Owning a x \<or> pc_at (pn_calls s ! i) = Waiting a x"
      "back_of (pc_kind (pn_calls s ! i)) (pn_heap s ! a) = ClosedChan"
      "r = Done (goto i (Returned (answer_of (pc_kind (pn_calls s ! i)) (pn_heap s ! a))) s)"
  | (ack) a x where "i < length (pn_calls s)" "pc_at (pn_calls s ! i) = Owning a x"
      "pc_kind (pn_calls s ! i) = RetryRequest" "fp_ackBack (pn_heap s ! a) = ClosedChan"
      "r = Done (goto i (Owning a True) s)"
  | (tick) a x where "i < length (pn_calls s)" "pc_at (pn_calls s ! i) = Owning a x"
      "r = Done s \<or> r = Done (send_packet (pc_id (pn_calls s ! i)) s)"
  | (timer) a x where "i < length (pn_calls s)" "pc_at (pn_calls s ! i) = Owning a x"
      "r = timeout_step i a s"
  using assms
  by (auto simp: call_step.simps Let_def split: if_splits call_pc.splits pick.splits)

lemma fly_ok_close:
  "fly_ok R key (f\<lparr>fp_resultBack := ClosedChan\<rparr>) \<Longrightarrow> close_back k f = Done f' \<Longrightarrow>
     fst key = (k = RetryNotify) \<Longrightarrow> fly_ok R key f'"
  by (auto simp: close_back_Done fly_ok_def split: if_splits)

lemma inv_load: "pending_inv own s \<Longrightarrow> pending_inv own (load_step i s)"
  using pending_invD(1) [of own s "pc_kind (pn_calls s ! i) = RetryNotify" "pc_id (pn_calls s ! i)"]
  by (auto simp: load_step_def Let_def table_of_tbl key_of_def call_ok_def split: option.splits intro!: inv_goto)

lemma inv_timeout:
  assumes inv: "pending_inv own s" and "i < length (pn_calls s)" and at: "pc_at (pn_calls s ! i) = Owning a x"
    and "timeout_step i a s = Done s'"
  shows "pending_inv own s'"
proof -
  let ?c = "pn_calls s ! i"
  let ?f = "(pn_heap s ! a)\<lparr>fp_err := Some (timeout_error (pc_kind ?c) (pc_id ?c))\<rparr>"
  have "call_ok own (length (pn_heap s)) (set (pn_received s)) ?c"
    using pending_invD(2) [OF inv] assms(2) by simp
  then have a: "a < length (pn_heap s)" "own a = key_of ?c" by (simp_all add: call_ok_def at)
  then have f: "fly_ok (set (pn_received s)) (own a) (?f\<lparr>fp_resultBack := b\<rparr>)" for b
    using fly_ok_timeout [of "set (pn_received s)" _ "pc_id ?c" "pn_heap s ! a" "pc_kind ?c" b]
      pending_invD(3) [OF inv, of a] by (simp add: key_of_def)
  have ret: "call_ok own n R (?c\<lparr>pc_at := Returned (if pc_kind ?c = RetryNotify
      then NotifyDone (Some (timeout_error (pc_kind ?c) (pc_id ?c)))
      else Answer None (Some (timeout_error (pc_kind ?c) (pc_id ?c))))\<rparr>)" for n R
    by (auto simp: call_ok_def answer_ok_def key_of_def timeout_error_def)
  have closed: "fly_ok (set (pn_received s)) (own a) f'" if "close_back (pc_kind ?c) ?f = Done f'" for f'
    by (rule fly_ok_close [OF f that]) (simp add: a key_of_def)
  have plain: "fly_ok (set (pn_received s)) (own a) ?f" using f [of "fp_resultBack ?f"] by simp
  let ?k = "pc_kind ?c"
  let ?R = "Returned (if ?k = RetryNotify then NotifyDone (Some (timeout_error ?k (pc_id ?c)))
      else Answer None (Some (timeout_error ?k (pc_id ?c))))"
  from assms(4) consider (p) f' where "close_back ?k ?f = Done f'" "s' = goto i ?R (set_fly a f' s)"
    | (n) "s' = goto i ?R (set_fly a ?f s)"
    | (t) f' where "close_back ?k ?f = Done f'"
        "s' = goto i ?R (set_fly a f' (set_table ?k ((table_of ?k s)(pc_id ?c := None)) s))"
    by (cases "?k = PlainRequest") (auto simp: timeout_step_def Let_def outcome_simps split: option.splits)
  then show ?thesis
  proof cases
    case p
    with inv_fly [OF inv, of a f'] closed show ?thesis by (simp add: inv_goto ret)
  next
    case n
    with inv_fly [OF inv, of a ?f] plain show ?thesis by (simp add: inv_goto ret)
  next
    case t
    with inv_fly [OF inv_forget [OF inv], where a = a and f = f'] closed show ?thesis by (simp add: inv_goto ret)
  qed
qed

lemma inv_ctx:
  "pending_inv own s \<Longrightarrow>
     pending_inv own (goto i (Returned (if pc_kind (pn_calls s ! i) = RetryNotify then NotifyDone None else ClientClosed)) s)"
  by (erule inv_goto) (simp add: call_ok_def)

lemma inv_back:
  assumes inv: "pending_inv own s" and i: "i < length (pn_calls s)"
    and at: "pc_at (pn_calls s ! i) = Owning a x \<or> pc_at (pn_calls s ! i) = Waiting a x"
    and closed: "back_of (pc_kind (pn_calls s ! i)) (pn_heap s ! a) = ClosedChan"
  shows "pending_inv own (goto i (Returned (answer_of (pc_kind (pn_calls s ! i)) (pn_heap s ! a))) s)"
proof (rule inv_goto [OF inv])
  have "a < length (pn_heap s) \<and> own a = key_of (pn_calls s ! i)"
    using pending_invD(2) [OF inv, of "pn_calls s ! i"] i at by (auto simp: call_ok_def)
  with pending_invD(3) [OF inv, of a] closed
  show "call_ok own (length (pn_heap s)) (set (pn_received s))
      ((pn_calls s ! i)\<lparr>pc_at := Returned (answer_of (pc_kind (pn_calls s ! i)) (pn_heap s ! a))\<rparr>)"
    by (auto simp: call_ok_def answer_of_def fly_ok_def key_of_def back_of_def split: if_splits)
qed

lemma inv_acked:
  assumes inv: "pending_inv own s" and i: "i < length (pn_calls s)" and at: "pc_at (pn_calls s ! i) = Owning a x"
  shows "pending_inv own (goto i (Owning a True) s)"
  by (rule inv_goto [OF inv])
    (use pending_invD(2) [OF inv, of "pn_calls s ! i"] i at in \<open>auto simp: call_ok_def key_of_def\<close>)

lemma inv_store:
  assumes inv: "pending_inv own s" and i: "i < length (pn_calls s)"
  shows "\<exists>own'. pending_inv own' (store_step i s)"
proof (cases "table_of (pc_kind (pn_calls s ! i)) s (pc_id (pn_calls s ! i))")
  case (Some b)
  with pending_invD(1) [OF inv] have "call_ok own (length (pn_heap s)) (set (pn_received s)) ((pn_calls s ! i)\<lparr>pc_at := Waiting b True\<rparr>)"
    by (auto simp: call_ok_def table_of_tbl key_of_def)
  from inv_goto [OF inv this] Some show ?thesis by (auto simp: store_step_def Let_def)
qed (use inv_store_own [OF inv] in blast)

lemma inv_call:
  assumes "pending_inv own s" "call_step p i s = Some (Done s')"
  shows "\<exists>own'. pending_inv own' s'"
  using assms(2)
proof (cases rule: call_step_cases)
  case (store)
  with inv_store [OF assms(1)] show ?thesis by auto
next
  case (timer a x)
  with inv_timeout [OF assms(1), of i a x s'] show ?thesis by auto
next
  case ctx
  with inv_ctx [OF assms(1), of i] show ?thesis by auto
qed (use assms(1) in \<open>auto simp: inv_ctx inv_back inv_acked inv_load inv_send intro: exI [of _ own]\<close>)

lemma inv_response:
  assumes inv: "pending_inv own s" and "receive_response pid result error s = Done s'"
  shows "pending_inv own s'"
proof -
  let ?x = "(pid, if error \<noteq> [] then None else result, if error \<noteq> [] then Some error else None)"
  let ?s = "s\<lparr>pn_received := pn_received s @ [?x]\<rparr>"
  have inv': "pending_inv own ?s" by (rule inv_receive [OF inv])
  show ?thesis
  proof (cases "pendingResp s pid")
    case None
    with assms(2) inv' show ?thesis by (simp add: receive_response_def Let_def)
  next
    case (Some a)
    then have a: "a < length (pn_heap s)" "own a = (False, pid)"
      using pending_invD(1) [OF inv, of False pid a] by (simp_all add: tbl_def)
    let ?f = "if error \<noteq> [] then (pn_heap s ! a)\<lparr>fp_err := Some error\<rparr> else (pn_heap s ! a)\<lparr>fp_result := result\<rparr>"
    obtain f' where f': "close_back RetryRequest ?f = Done f'"
      and s': "s' = set_fly a f' (set_table RetryRequest ((table_of RetryRequest ?s)(pid := None)) ?s)"
      using assms(2) Some by (auto simp: receive_response_def Let_def outcome_simps set_table_def table_of_def)
    have open_: "fly_ok (set (pn_received s)) (False, pid) (pn_heap s ! a)"
      using pending_invD(3) [OF inv, of a] a by simp
    have "fly_ok (set (pn_received ?s)) (own a) f'"
    proof (rule fly_ok_close [OF _ f'])
      show "fly_ok (set (pn_received ?s)) (own a) (?f\<lparr>fp_resultBack := ClosedChan\<rparr>)"
        using open_ by (auto simp: fly_ok_def answer_ok_def a)
    qed (simp add: a)
    with inv_fly [OF inv_forget [OF inv', of RetryRequest pid], of a f'] s' show ?thesis by simp
  qed
qed

lemma inv_ack:
  assumes inv: "pending_inv own s" and "receive_ack pid s = Done s'"
  shows "pending_inv own s'"
proof (cases "pendingAck s pid")
  case (Some a)
  then have a: "a < length (pn_heap s)" "own a = (True, pid)"
    using pending_invD(1) [OF inv, of True pid a] by (simp_all add: tbl_def)
  obtain f' where "s' = set_fly a f' (set_table RetryNotify ((table_of RetryNotify s)(pid := None)) s)"
    using assms(2) Some by (auto simp: receive_ack_def outcome_simps set_table_def table_of_def)
  with inv_fly [OF inv_forget [OF inv, of RetryNotify pid], of a f'] a show ?thesis by (simp add: fly_ok_def)
qed (use assms in \<open>simp add: receive_ack_def\<close>)

lemma begin_inv: "pending_inv own s \<Longrightarrow> pending_inv own (begin_call k pid s)"
  by (rule pending_invI) (use pending_invD in \<open>auto simp: call_ok_def\<close>)

lemma cancel_inv: "pending_inv own s \<Longrightarrow> pending_inv own (pn_cancel s)"
  by (rule pending_invI) (simp_all add: pending_invD)

lemma pending_reach_inv: "pending_reach ok s \<Longrightarrow> \<exists>own. pending_inv own s"
proof (induction rule: pending_reach.induct)
  case start
  show ?case by (intro exI pending_invI) (simp_all add: pending_start_def tbl_def split: if_splits)
next
  case (event s s')
  then obtain own where inv: "pending_inv own s" by blast
  from event.hyps(2) show ?case
  proof cases
    case (begins k pid)
    with begin_inv [OF inv] show ?thesis by auto
  next
    case (response pid result error)
    then show ?thesis using inv_response [OF inv] by metis
  next
    case (ack pid)
    then show ?thesis using inv_ack [OF inv] by metis
  next
    case cancel
    with cancel_inv [OF inv] show ?thesis by auto
  qed (use inv_call [OF inv] in metis)
qed

subsection \<open>No channel is closed twice when ids are not reused\<close>

text \<open>
  The environment makes only calls with retry, and none with the id of an earlier call that
  uses the same table.
\<close>

definition fresh_retry :: "call_kind \<Rightarrow> string \<Rightarrow> pending_state \<Rightarrow> bool" where
  "fresh_retry k pid s \<longleftrightarrow> k \<noteq> PlainRequest \<and> (k = RetryNotify, pid) \<notin> key_of ` set (pn_calls s)"

definition back_at :: "(nat \<Rightarrow> bool \<times> string) \<Rightarrow> pending_state \<Rightarrow> nat \<Rightarrow> bool" where
  "back_at own s a \<longleftrightarrow>
     bck (fst (own a)) (pn_heap s ! a) =
       (if tbl (fst (own a)) s (snd (own a)) = Some a then OpenChan else ClosedChan)"

definition safe_inv :: "(nat \<Rightarrow> bool \<times> string) \<Rightarrow> pending_state \<Rightarrow> bool" where
  "safe_inv own s \<longleftrightarrow> pending_inv own s \<and> distinct (map key_of (pn_calls s)) \<and>
     (\<forall>c \<in> set (pn_calls s). pc_kind c \<noteq> PlainRequest) \<and>
     (\<forall>a < length (pn_heap s). \<exists>c \<in> set (pn_calls s). key_of c = own a \<and> pc_at c \<notin> {Loading, Storing}) \<and>
     inj_on own {..<length (pn_heap s)} \<and> (\<forall>a < length (pn_heap s). back_at own s a)"

lemma safe_invD:
  assumes "safe_inv own s"
  shows "pending_inv own s" "distinct (map key_of (pn_calls s))"
    "c \<in> set (pn_calls s) \<Longrightarrow> pc_kind c \<noteq> PlainRequest"
    "a < length (pn_heap s) \<Longrightarrow> \<exists>c \<in> set (pn_calls s). key_of c = own a \<and> pc_at c \<notin> {Loading, Storing}"
    "inj_on own {..<length (pn_heap s)}" "a < length (pn_heap s) \<Longrightarrow> back_at own s a"
  using assms by (auto simp: safe_inv_def)

lemma key_of_at [simp]: "key_of (c\<lparr>pc_at := pc\<rparr>) = key_of c"
  by (simp add: key_of_def)

lemma map_key_goto: "map key_of (pn_calls (goto i pc s)) = map key_of (pn_calls s)"
  by (cases "i < length (pn_calls s)") (simp_all add: map_update list_update_same_conv list_update_beyond)

lemma goto_kind:
  "i < length (pn_calls s) \<Longrightarrow> c \<in> set (pn_calls (goto i pc s)) \<Longrightarrow> \<exists>c0 \<in> set (pn_calls s). pc_kind c = pc_kind c0"
  using set_update_subset_insert [of "pn_calls s" i] by fastforce

lemma goto_keeps_call:
  assumes "i < length (pn_calls s)" "c \<in> set (pn_calls s)" "pc_at c \<notin> {Loading, Storing}" "pc \<notin> {Loading, Storing}"
  shows "\<exists>c' \<in> set (pn_calls (goto i pc s)). key_of c' = key_of c \<and> pc_at c' \<notin> {Loading, Storing}"
proof -
  obtain j where j: "j < length (pn_calls s)" "c = pn_calls s ! j" using assms(2) by (auto simp: in_set_conv_nth)
  then have "pn_calls (goto i pc s) ! j \<in> set (pn_calls (goto i pc s))" by simp
  moreover have "key_of (pn_calls (goto i pc s) ! j) = key_of c \<and> pc_at (pn_calls (goto i pc s) ! j) \<notin> {Loading, Storing}"
    using j assms by (cases "i = j") auto
  ultimately show ?thesis by blast
qed

lemma safe_gotoI:
  assumes "safe_inv own s" "i < length (pn_calls s)" "pending_inv own (goto i pc s)"
    and "\<And>c. c \<in> set (pn_calls s) \<Longrightarrow> pc_at c \<notin> {Loading, Storing} \<Longrightarrow>
      \<exists>c' \<in> set (pn_calls (goto i pc s)). key_of c' = key_of c \<and> pc_at c' \<notin> {Loading, Storing}"
  shows "safe_inv own (goto i pc s)"
  unfolding safe_inv_def
proof (intro conjI ballI allI impI)
  show "distinct (map key_of (pn_calls (goto i pc s)))"
    unfolding map_key_goto by (rule safe_invD(2) [OF assms(1)])
  show "pc_kind c \<noteq> PlainRequest" if "c \<in> set (pn_calls (goto i pc s))" for c
    using goto_kind [OF assms(2) that] safe_invD(3) [OF assms(1)] by metis
  show "\<exists>c \<in> set (pn_calls (goto i pc s)). key_of c = own a \<and> pc_at c \<notin> {Loading, Storing}"
    if a: "a < length (pn_heap (goto i pc s))" for a
  proof -
    from a obtain c where "c \<in> set (pn_calls s)" "key_of c = own a" "pc_at c \<notin> {Loading, Storing}"
      using safe_invD(4) [OF assms(1)] by auto
    with assms(4) [of c] show ?thesis by metis
  qed
qed (use assms(3) safe_invD(5,6) [OF assms(1)] in \<open>simp_all add: back_at_def\<close>)

lemma safe_goto:
  "safe_inv own s \<Longrightarrow> i < length (pn_calls s) \<Longrightarrow> pending_inv own (goto i pc s) \<Longrightarrow>
     pc \<notin> {Loading, Storing} \<Longrightarrow> safe_inv own (goto i pc s)"
  using safe_gotoI goto_keeps_call by metis

lemma safe_loading:
  assumes "safe_inv own s" "i < length (pn_calls s)" "pc_at (pn_calls s ! i) = Loading"
  shows "safe_inv own (goto i Storing s)"
proof (rule safe_gotoI [OF assms(1,2)])
  show "pending_inv own (goto i Storing s)"
    by (rule inv_goto [OF safe_invD(1) [OF assms(1)]]) (simp add: call_ok_def)
  fix c assume c: "c \<in> set (pn_calls s)" "pc_at c \<notin> {Loading, Storing}"
  then obtain j where j: "j < length (pn_calls s)" "c = pn_calls s ! j" by (auto simp: in_set_conv_nth)
  with c assms(3) have "i \<noteq> j" by auto
  with j have "pn_calls (goto i Storing s) ! j = c" "j < length (pn_calls (goto i Storing s))" by simp_all
  with c show "\<exists>c' \<in> set (pn_calls (goto i Storing s)). key_of c' = key_of c \<and> pc_at c' \<notin> {Loading, Storing}"
    by (metis nth_mem)
qed

text \<open>An entry taken out of its table together with the closing of its channel.\<close>

lemma close_back_bck:
  "close_back k f = Done f' \<Longrightarrow> bck (k = RetryNotify) f' = ClosedChan"
  by (auto simp: close_back_Done bck_def)

lemma safe_close:
  assumes "safe_inv own s" "table_of k s pid = Some a" "bck (k = RetryNotify) f = ClosedChan"
    and "fly_ok (set (pn_received s)) (own a) f"
  shows "safe_inv own (set_fly a f (set_table k ((table_of k s)(pid := None)) s))"
proof -
  let ?s = "set_fly a f (set_table k ((table_of k s)(pid := None)) s)"
  have a: "a < length (pn_heap s)" "own a = (k = RetryNotify, pid)"
    using pending_invD(1) [OF safe_invD(1) [OF assms(1)]] assms(2) by (auto simp: table_of_tbl)
  have "back_at own ?s b" if b: "b < length (pn_heap s)" for b
  proof (cases "b = a")
    case True
    with a assms(3) show ?thesis by (simp add: back_at_def table_of_tbl)
  next
    case False
    with safe_invD(5) [OF assms(1)] a(1) b have "own b \<noteq> own a" by (auto dest: inj_onD)
    with False safe_invD(6) [OF assms(1) b] a(2) show ?thesis
      by (cases "own b") (auto simp: back_at_def table_of_tbl)
  qed
  moreover have "pending_inv own ?s"
    using inv_fly [OF inv_forget [OF safe_invD(1) [OF assms(1)]], where a = a and f = f] assms(4) by simp
  ultimately show ?thesis
    using safe_invD [OF assms(1)] by (simp add: safe_inv_def)
qed

lemma safe_same_back:
  assumes "safe_inv own s" "bck (fst (own a)) f = bck (fst (own a)) (pn_heap s ! a)"
    and "fly_ok (set (pn_received s)) (own a) f"
  shows "safe_inv own (set_fly a f s)"
proof -
  have "back_at own (set_fly a f s) b" if "b < length (pn_heap s)" for b
    using safe_invD(6) [OF assms(1) that] assms(2) that by (cases "b = a") (auto simp: back_at_def)
  moreover have "pending_inv own (set_fly a f s)"
    by (rule inv_fly [OF safe_invD(1) [OF assms(1)]]) (rule assms(3))
  ultimately show ?thesis using safe_invD [OF assms(1)] by (simp add: safe_inv_def)
qed

lemma safe_send: "safe_inv own s \<Longrightarrow> safe_inv own (send_packet pid s)"
  by (auto simp: safe_inv_def back_at_def inv_send)

lemma safe_receive: "safe_inv own s \<Longrightarrow> safe_inv own (s\<lparr>pn_received := pn_received s @ [x]\<rparr>)"
  by (auto simp: safe_inv_def back_at_def inv_receive)

lemma safe_store:
  assumes safe: "safe_inv own s" and i: "i < length (pn_calls s)" and at: "pc_at (pn_calls s ! i) = Storing"
  shows "\<exists>own'. safe_inv own' (store_step i s)"
proof -
  let ?c = "pn_calls s ! i" and ?a = "length (pn_heap s)"
  let ?own = "own(?a := key_of ?c)" and ?k = "pc_kind (pn_calls s ! i)"
  let ?f = "if ?k = RetryNotify then newFlyNotify else newFlyRequest"
  let ?s1 = "set_table ?k ((table_of ?k s)(pc_id ?c \<mapsto> ?a)) (s\<lparr>pn_heap := pn_heap s @ [?f]\<rparr>)"
  have new: "own a \<noteq> key_of ?c" if a: "a < ?a" for a
  proof
    assume "own a = key_of ?c"
    with safe_invD(4) [OF safe a] obtain j where j: "j < length (pn_calls s)"
      "key_of (pn_calls s ! j) = key_of ?c" "pc_at (pn_calls s ! j) \<notin> {Loading, Storing}"
      by (auto simp: in_set_conv_nth)
    with at have "i \<noteq> j" by auto
    with safe_invD(2) [OF safe] i j(1,2) show False by (auto simp: distinct_conv_nth)
  qed
  have free: "table_of ?k s (pc_id ?c) = None"
    using pending_invD(1) [OF safe_invD(1) [OF safe], of "?k = RetryNotify" "pc_id ?c"] new
    by (cases "table_of ?k s (pc_id ?c)") (auto simp: table_of_tbl key_of_def)
  then have s': "store_step i s = goto i (Owning ?a False) (send_packet (pc_id ?c) ?s1)"
    by (simp add: store_step_def Let_def)
  have "pending_inv ?own (store_step i s)"
    using inv_store_own [OF safe_invD(1) [OF safe] free] .
  moreover have "inj_on ?own {..<length (pn_heap (store_step i s))}"
    using safe_invD(5) [OF safe] new unfolding s' by (fastforce simp: lessThan_Suc inj_on_def)
  moreover have "back_at ?own (store_step i s) a" if a: "a < length (pn_heap (store_step i s))" for a
  proof (cases "a = ?a")
    case True
    then show ?thesis
      unfolding s' by (simp add: back_at_def key_of_def bck_def newFlyNotify_def newFlyRequest_def)
  next
    case False
    with a have a: "a < ?a" unfolding s' by simp
    with False new [OF a] safe_invD(6) [OF safe a] show ?thesis
      unfolding s' by (cases "own a") (auto simp: back_at_def nth_append table_of_tbl key_of_def)
  qed
  moreover have "\<exists>c \<in> set (pn_calls (store_step i s)). key_of c = ?own a \<and> pc_at c \<notin> {Loading, Storing}"
    if a: "a < length (pn_heap (store_step i s))" for a
  proof (cases "a = ?a")
    case True
    have "?c\<lparr>pc_at := Owning ?a False\<rparr> \<in> set (pn_calls (store_step i s))"
      unfolding s' using i by (simp add: set_update_memI)
    with True show ?thesis by (intro bexI [of _ "?c\<lparr>pc_at := Owning ?a False\<rparr>"]) simp_all
  next
    case False
    with a have a: "a < ?a" unfolding s' by simp
    from safe_invD(4) [OF safe a] obtain c where "c \<in> set (pn_calls s)" "key_of c = own a" "pc_at c \<notin> {Loading, Storing}"
      by blast
    with goto_keeps_call [of i "send_packet (pc_id ?c) ?s1" c "Owning ?a False"] i False show ?thesis
      unfolding s' by (simp del: parts_simps(24))
  qed
  moreover have "distinct (map key_of (pn_calls (store_step i s)))"
    unfolding s' map_key_goto using safe_invD(2) [OF safe] by simp
  moreover have "pc_kind c \<noteq> PlainRequest" if "c \<in> set (pn_calls (store_step i s))" for c
    using goto_kind [of i "send_packet (pc_id ?c) ?s1" c "Owning ?a False"] that i safe_invD(3) [OF safe]
    unfolding s' by (simp del: parts_simps(24)) metis
  ultimately show ?thesis unfolding safe_inv_def by metis
qed

lemma safe_timeout:
  assumes safe: "safe_inv own s" and i: "i < length (pn_calls s)" and at: "pc_at (pn_calls s ! i) = Owning a x"
  shows "\<exists>s'. timeout_step i a s = Done s' \<and> safe_inv own s'"
proof -
  let ?c = "pn_calls s ! i" and ?k = "pc_kind (pn_calls s ! i)"
  let ?f = "(pn_heap s ! a)\<lparr>fp_err := Some (timeout_error ?k (pc_id ?c))\<rparr>"
  let ?R = "Returned (if ?k = RetryNotify then NotifyDone (Some (timeout_error ?k (pc_id ?c)))
      else Answer None (Some (timeout_error ?k (pc_id ?c))))"
  note inv = safe_invD(1) [OF safe]
  have k: "?k \<noteq> PlainRequest" using safe_invD(3) [OF safe] i by simp
  have a: "a < length (pn_heap s)" "own a = key_of ?c"
    using pending_invD(2) [OF inv, of ?c] i at by (simp_all add: call_ok_def)
  have bck: "bck (?k = RetryNotify) (pn_heap s ! a) =
      (if table_of ?k s (pc_id ?c) = Some a then OpenChan else ClosedChan)"
    using safe_invD(6) [OF safe a(1)] a(2) by (simp add: back_at_def key_of_def table_of_tbl)
  have ret: "safe_inv own (goto i ?R t)" if t: "safe_inv own t" "pn_calls t = pn_calls s" for t
  proof (rule safe_goto [OF t(1)])
    show "pending_inv own (goto i ?R t)"
      using t(2) by (intro inv_goto [OF safe_invD(1) [OF t(1)]])
        (auto simp: call_ok_def answer_ok_def key_of_def timeout_error_def)
  qed (use i t(2) in simp_all)
  have f: "fly_ok (set (pn_received s)) (own a) (?f\<lparr>fp_resultBack := b\<rparr>)" for b
    using fly_ok_timeout [of "set (pn_received s)" _ "pc_id ?c" "pn_heap s ! a" ?k b]
      pending_invD(3) [OF inv a(1)] a(2) by (simp add: key_of_def)
  show ?thesis
  proof (cases "table_of ?k s (pc_id ?c)")
    case None
    have "safe_inv own (set_fly a ?f s)"
      using f [of "fp_resultBack ?f"] by (intro safe_same_back [OF safe]) (simp_all add: bck_def)
    with ret None k show ?thesis by (simp add: timeout_step_def Let_def)
  next
    case (Some b)
    then have "b < length (pn_heap s)" "own b = own a"
      using pending_invD(1) [OF inv, of "?k = RetryNotify" "pc_id ?c" b] a by (auto simp: table_of_tbl key_of_def)
    then have "b = a" using safe_invD(5) [OF safe] a(1) by (auto dest: inj_onD)
    with bck Some have "back_of ?k ?f = OpenChan" by (simp add: back_of_bck bck_def split: if_splits)
    then obtain f' where f': "close_back ?k ?f = Done f'" by (simp add: close_back_def)
    have "fly_ok (set (pn_received s)) (own a) f'"
      by (rule fly_ok_close [OF f f']) (simp add: a key_of_def)
    with safe_close [OF safe _ close_back_bck [OF f'], of "pc_id ?c" a] Some \<open>b = a\<close>
    have "safe_inv own (set_fly a f' (set_table ?k ((table_of ?k s)(pc_id ?c := None)) s))" by simp
    with ret Some k f' show ?thesis by (simp add: timeout_step_def Let_def)
  qed
qed

lemma safe_call:
  assumes safe: "safe_inv own s" and "call_step p i s = Some r"
  shows "\<exists>s' own'. r = Done s' \<and> safe_inv own' s'"
  using assms(2)
proof (cases rule: call_step_cases)
  case load
  have "safe_inv own (load_step i s)"
  proof (cases "table_of (pc_kind (pn_calls s ! i)) s (pc_id (pn_calls s ! i))")
    case None
    with safe_loading [OF safe load(1,2)] show ?thesis by (simp add: load_step_def Let_def)
  next
    case (Some a)
    with safe_goto [OF safe load(1)] inv_load [OF safe_invD(1) [OF safe], of i] show ?thesis
      by (simp add: load_step_def Let_def)
  qed
  with load show ?thesis by blast
next
  case store
  with safe_store [OF safe] show ?thesis by metis
next
  case ctx
  with safe_goto [OF safe ctx(1) inv_ctx [OF safe_invD(1) [OF safe]]] show ?thesis by blast
next
  case (chan a x)
  with safe_goto [OF safe chan(1) inv_back [OF safe_invD(1) [OF safe] chan(1-3)]] show ?thesis by blast
next
  case (ack a x)
  with safe_goto [OF safe ack(1) inv_acked [OF safe_invD(1) [OF safe] ack(1,2)]] show ?thesis by blast
next
  case (tick a x)
  with safe safe_send show ?thesis by blast
next
  case (timer a x)
  with safe_timeout [OF safe] show ?thesis by metis
qed

lemma safe_table_hit:
  assumes safe: "safe_inv own s" and hit: "tbl n s pid = Some a" and k: "n = (k = RetryNotify)"
    and f: "bck n f = bck n (pn_heap s ! a)"
  shows "\<exists>f'. close_back k f = Done f'"
proof -
  have a: "a < length (pn_heap s)" "own a = (n, pid)"
    using pending_invD(1) [OF safe_invD(1) [OF safe] hit] by auto
  from safe_invD(6) [OF safe a(1)] a(2) hit f have "bck n f = OpenChan" by (simp add: back_at_def)
  with k show ?thesis by (simp add: close_back_def back_of_bck)
qed

lemma safe_response:
  assumes safe: "safe_inv own s"
  shows "\<exists>s'. receive_response pid result error s = Done s' \<and> safe_inv own s'"
proof -
  let ?x = "(pid, if error \<noteq> [] then None else result, if error \<noteq> [] then Some error else None)"
  let ?s = "s\<lparr>pn_received := pn_received s @ [?x]\<rparr>"
  have safe': "safe_inv own ?s" by (rule safe_receive [OF safe])
  show ?thesis
  proof (cases "pendingResp s pid")
    case None
    with safe' show ?thesis by (simp add: receive_response_def Let_def)
  next
    case (Some a)
    let ?f = "if error \<noteq> [] then (pn_heap s ! a)\<lparr>fp_err := Some error\<rparr> else (pn_heap s ! a)\<lparr>fp_result := result\<rparr>"
    obtain f' where f': "close_back RetryRequest ?f = Done f'"
      using safe_table_hit [OF safe, of False pid a RetryRequest ?f] Some by (fastforce simp: tbl_def bck_def)
    let ?s' = "set_fly a f' (set_table RetryRequest ((table_of RetryRequest ?s)(pid := None)) ?s)"
    have r: "receive_response pid result error s = Done ?s'"
      using Some f' by (simp add: receive_response_def Let_def set_table_def table_of_def)
    have a: "a < length (pn_heap s)"
      using pending_invD(1) [OF safe_invD(1) [OF safe], of False pid a] Some by (simp add: tbl_def)
    have "pending_inv own ?s'"
      by (rule inv_response [OF safe_invD(1) [OF safe] r])
    with pending_invD(3) [OF this, of a] a have "fly_ok (set (pn_received ?s)) (own a) f'" by simp
    with safe_close [OF safe' _ close_back_bck [OF f'], of pid a] Some r show ?thesis
      by (auto simp: table_of_def)
  qed
qed

lemma safe_ack:
  assumes safe: "safe_inv own s"
  shows "\<exists>s'. receive_ack pid s = Done s' \<and> safe_inv own s'"
proof (cases "pendingAck s pid")
  case None
  with safe show ?thesis by (simp add: receive_ack_def)
next
  case (Some a)
  obtain f' where f': "close_back RetryNotify (pn_heap s ! a) = Done f'"
    using safe_table_hit [OF safe, of True pid a RetryNotify] Some by (auto simp: tbl_def)
  let ?s' = "set_fly a f' (set_table RetryNotify ((table_of RetryNotify s)(pid := None)) s)"
  have r: "receive_ack pid s = Done ?s'" using Some f' by (simp add: receive_ack_def set_table_def table_of_def)
  have "own a = (True, pid)"
    using pending_invD(1) [OF safe_invD(1) [OF safe], of True pid a] Some by (simp add: tbl_def)
  with safe_close [OF safe _ close_back_bck [OF f'], of pid a] Some r show ?thesis
    by (auto simp: table_of_def fly_ok_def)
qed

lemma safe_begin:
  assumes "safe_inv own s" "fresh_retry k pid s"
  shows "safe_inv own (begin_call k pid s)"
  using assms(2) safe_invD [OF assms(1)] begin_inv [OF safe_invD(1) [OF assms(1)]]
  by (auto simp: safe_inv_def fresh_retry_def back_at_def key_of_def)

lemma safe_event:
  assumes safe: "safe_inv own s" and "pending_event fresh_retry s r"
  shows "\<exists>s' own'. r = Done s' \<and> safe_inv own' s'"
  using assms(2)
proof cases
  case (begins k pid)
  with safe_begin [OF safe] show ?thesis by blast
next
  case (call p i)
  with safe_call [OF safe] show ?thesis by blast
next
  case (response pid result error)
  with safe_response [OF safe] show ?thesis by metis
next
  case (ack pid)
  with safe_ack [OF safe] show ?thesis by metis
next
  case cancel
  have "safe_inv own (pn_cancel s)"
    using cancel_inv safe_invD [OF safe] by (simp add: safe_inv_def back_at_def)
  with cancel show ?thesis by blast
qed

lemma safe_reach: "pending_reach fresh_retry s \<Longrightarrow> \<exists>own. safe_inv own s"
proof (induction rule: pending_reach.induct)
  case start
  have "pending_inv (\<lambda>a. (False, [])) pending_start"
    by (rule pending_invI) (simp_all add: pending_start_def tbl_def split: if_splits)
  then have "safe_inv (\<lambda>a. (False, [])) pending_start" by (simp add: safe_inv_def pending_start_def)
  then show ?case by blast
next
  case (event s s')
  then show ?case using safe_event by blast
qed

subsection \<open>Properties\<close>

text \<open>
  C17: However calls, responses, acknowledgements, timers and cancellation interleave, a result
  that a request returns without an error came in a response with the request's own id, and an
  error it returns is its own timeout or came in such a response: answers never cross.
\<close>

theorem answers_belong_to_requests:
  assumes "pending_reach ok s" and "c \<in> set (pn_calls s)" and "pc_at c = Returned (Answer r e)"
  shows "case e of
      None \<Rightarrow> (pc_id c, r, None) \<in> set (pn_received s)
    | Some m \<Rightarrow> m = timeout_error RetryRequest (pc_id c) \<or> (pc_id c, None, Some m) \<in> set (pn_received s)"
proof -
  obtain own where "pending_inv own s" using pending_reach_inv [OF assms(1)] by blast
  from pending_invD(2) [OF this assms(2)] assms(3) show ?thesis
    by (auto simp: call_ok_def answer_ok_def key_of_def split: option.splits)
qed


text \<open>
  A waiting request can always end: the owner of an entry has its timer, which returns
  the timeout error and leaves no entry for its id behind.
\<close>

theorem retry_timer_returns:
  assumes "pending_reach fresh_retry s" and "i < length (pn_calls s)" and "pc_at (pn_calls s ! i) = Owning a x"
  shows "\<exists>s'. call_step Timer i s = Some (Done s') \<and>
    (\<exists>res. pc_at (pn_calls s' ! i) = Returned res) \<and>
    table_of (pc_kind (pn_calls s ! i)) s' (pc_id (pn_calls s ! i)) = None"
proof -
  obtain own where safe: "safe_inv own s" using safe_reach [OF assms(1)] by blast
  then have "pc_kind (pn_calls s ! i) \<noteq> PlainRequest" using safe_invD(3) assms(2) by simp
  moreover obtain s' where "timeout_step i a s = Done s'" using safe_timeout [OF safe assms(2,3)] by blast
  ultimately show ?thesis
    using assms(2,3)
    by (auto simp: call_step.simps timeout_step_def Let_def outcome_simps table_of_tbl split: option.splits)
qed

text \<open>One request with retries, from its call to its answer.\<close>

definition asked :: pending_state where
  "asked = store_step 0 (load_step 0 (begin_call RetryRequest ''q1'' pending_start))"

lemmas run_defs = asked_def store_step_def load_step_def begin_call_def pending_start_def goto_def
  send_packet_def set_table_def table_of_def newFlyRequest_def newFlyNotify_def

lemma call_reach: "pending_reach ok s \<Longrightarrow> call_step p i s = Some (Done s') \<Longrightarrow> pending_reach ok s'"
  by (auto intro: pending_reach.event pending_event.call)

lemma begin_reach: "pending_reach ok s \<Longrightarrow> ok k pid s \<Longrightarrow> pending_reach ok (begin_call k pid s)"
  by (auto intro: pending_reach.event pending_event.begins)

lemma loaded_state: "load_step 0 (begin_call k pid pending_start) =
    pending_start\<lparr>pn_calls := [\<lparr>pc_kind = k, pc_id = pid, pc_at = Storing\<rparr>]\<rparr>"
  by (simp add: run_defs Let_def)

lemma start_call_reach:
  assumes "ok k pid pending_start"
  shows "pending_reach ok (store_step 0 (load_step 0 (begin_call k pid pending_start)))"
proof -
  have 1: "pending_reach ok (begin_call k pid pending_start)"
    using assms by (intro begin_reach pending_reach.start)
  have 2: "pending_reach ok (load_step 0 (begin_call k pid pending_start))"
    by (rule call_reach [OF 1, of Proceed 0]) (simp add: call_step.simps begin_call_def pending_start_def)
  show ?thesis
    by (rule call_reach [OF 2, of Proceed 0]) (simp add: call_step.simps loaded_state)
qed

lemma asked_reach: "pending_reach fresh_retry asked"
  unfolding asked_def by (rule start_call_reach) (simp add: fresh_retry_def pending_start_def)

lemma asked_state: "asked = \<lparr>pn_heap = [newFlyRequest], pendingResp = [''q1'' \<mapsto> 0], pendingAck = Map.empty,
    pn_ctxDone = False, pn_calls = [\<lparr>pc_kind = RetryRequest, pc_id = ''q1'', pc_at = Owning 0 False\<rparr>],
    pn_sent = [''q1''], pn_received = []\<rparr>"
  by (simp add: run_defs Let_def)

theorem answers_belong_to_requests_witness:
  "\<exists>s. pending_reach fresh_retry s \<and>
     \<lparr>pc_kind = RetryRequest, pc_id = ''q1'', pc_at = Returned (Answer (Some JNull) None)\<rparr> \<in> set (pn_calls s) \<and>
     (''q1'', Some JNull, None) \<in> set (pn_received s)"
proof -
  obtain s1 where s1: "receive_response ''q1'' (Some JNull) [] asked = Done s1"
    "pn_calls s1 = pn_calls asked" "fp_resultBack (pn_heap s1 ! 0) = ClosedChan"
    "fp_result (pn_heap s1 ! 0) = Some JNull" "fp_err (pn_heap s1 ! 0) = None"
    by (simp add: receive_response_def asked_state close_back_def back_of_def newFlyRequest_def set_fly_def)
  have r1: "pending_reach fresh_retry s1"
    using pending_reach.event [OF asked_reach] pending_event.response [of fresh_retry asked "''q1''" "Some JNull" "[]"] s1(1)
    by simp
  let ?s2 = "goto 0 (Returned (Answer (Some JNull) None)) s1"
  have r2: "pending_reach fresh_retry ?s2"
    by (rule call_reach [OF r1, of SeeBack 0])
      (simp add: call_step.simps s1 asked_state back_of_def answer_of_def)
  let ?c = "\<lparr>pc_kind = RetryRequest, pc_id = ''q1'', pc_at = Returned (Answer (Some JNull) None)\<rparr>"
  have c: "?c \<in> set (pn_calls ?s2)" by (simp add: s1(2) asked_state)
  from answers_belong_to_requests [OF r2 c, of "Some JNull" None] r2 c show ?thesis by auto
qed


theorem retry_timer_returns_witness:
  "\<exists>s'. call_step Timer 0 asked = Some (Done s') \<and> pendingResp s' ''q1'' = None"
  using retry_timer_returns [OF asked_reach, of 0 0 False] by (auto simp: asked_state table_of_def)

text \<open>
  Request closes the channel on its timeout but leaves the entry in pendingResp, so a
  response that arrives later closes the channel a second time and panics, whatever the id; no
  recover surrounds the goroutine that handles it.
\<close>

theorem request_late_response_panics:
  "\<exists>s. pending_reach (\<lambda>k pid s. True) s \<and> is_panic (receive_response pid result error s)"
proof -
  let ?s = "store_step 0 (load_step 0 (begin_call PlainRequest pid pending_start))"
  have "pending_reach (\<lambda>k pid s. True) ?s" by (rule start_call_reach) simp
  moreover obtain s' where s': "call_step Timer 0 ?s = Some (Done s')" "pendingResp s' pid = Some 0"
    "fp_resultBack (pn_heap s' ! 0) = ClosedChan"
    by (simp add: call_step.simps timeout_step_def run_defs close_back_def back_of_def set_fly_def Let_def)
  ultimately have "pending_reach (\<lambda>k pid s. True) s'" using call_reach by blast
  moreover have "is_panic (receive_response pid result error s')"
    using s'(2,3) by (simp add: receive_response_def Let_def close_back_def back_of_def)
  ultimately show ?thesis by blast
qed

subsection \<open>Acknowledgements and the repetition of requests\<close>

definition unacked :: "(nat \<Rightarrow> bool \<times> string) \<Rightarrow> pending_state \<Rightarrow> bool" where
  "unacked own s \<longleftrightarrow>
     (\<forall>a < length (pn_heap s). \<not> fst (own a) \<longrightarrow> fp_ackBack (pn_heap s ! a) = OpenChan) \<and>
     (\<forall>c \<in> set (pn_calls s). \<forall>a. pc_at c \<noteq> Owning a True)"

lemma unacked_goto:
  assumes "unacked own s" and "\<And>a. pc \<noteq> Owning a True"
  shows "unacked own (goto i pc s)"
proof -
  have "pc_at c \<noteq> Owning a True" if "c \<in> set (pn_calls (goto i pc s))" for c a
    using that assms set_update_subset_insert [of "pn_calls s" i "(pn_calls s ! i)\<lparr>pc_at := pc\<rparr>"]
    by (auto simp: unacked_def)
  with assms(1) show ?thesis by (simp add: unacked_def del: parts_simps(24))
qed

lemma unacked_fly:
  assumes "unacked own s" and "fst (own a) \<or> fp_ackBack f = OpenChan"
  shows "unacked own (set_fly a f s)"
proof -
  have "fp_ackBack ((pn_heap s)[a := f] ! b) = OpenChan" if "b < length (pn_heap s)" "\<not> fst (own b)" for b
    using that assms by (cases "b = a") (auto simp: unacked_def)
  with assms(1) show ?thesis by (simp add: unacked_def)
qed

lemma unacked_parts:
  "unacked own (set_table k m s) = unacked own s" "unacked own (send_packet pid s) = unacked own s"
  "unacked own (s\<lparr>pn_received := R\<rparr>) = unacked own s" "unacked own (pn_cancel s) = unacked own s"
  "unacked own (begin_call k pid s) = unacked own s"
  by (auto simp: unacked_def)

lemma close_back_ack: "close_back k f = Done f' \<Longrightarrow> k \<noteq> RetryNotify \<Longrightarrow> fp_ackBack f' = fp_ackBack f"
  by (auto simp: close_back_Done)

lemma unacked_own:
  assumes "pending_inv own s" "unacked own s" "a < length (pn_heap s)" "own a = (k = RetryNotify, pid)"
    and "fp_ackBack f = fp_ackBack (pn_heap s ! a)" "close_back k f = Done f'"
  shows "fst (own a) \<or> fp_ackBack f' = OpenChan"
  using assms close_back_ack [OF assms(6)] by (auto simp: unacked_def)

lemma unacked_timeout:
  assumes inv: "pending_inv own s" and un: "unacked own s" and i: "i < length (pn_calls s)"
    and at: "pc_at (pn_calls s ! i) = Owning a x" and s': "timeout_step i a s = Done s'"
  shows "unacked own s'"
proof -
  let ?c = "pn_calls s ! i"
  let ?f = "(pn_heap s ! a)\<lparr>fp_err := Some (timeout_error (pc_kind ?c) (pc_id ?c))\<rparr>"
  have a: "a < length (pn_heap s)" "own a = (pc_kind ?c = RetryNotify, pc_id ?c)"
    using pending_invD(2) [OF inv, of ?c] i at by (simp_all add: call_ok_def key_of_def)
  note fly = unacked_own [OF inv un a, of ?f]
  have "fst (own a) \<or> fp_ackBack ?f = OpenChan" using un a(1) by (auto simp: unacked_def)
  with fly show ?thesis
    using s' un
    by (cases "pc_kind ?c = PlainRequest")
      (auto simp: timeout_step_def Let_def outcome_simps unacked_parts split: option.splits
        intro!: unacked_goto unacked_fly)
qed

lemma unacked_store:
  assumes inv: "pending_inv own s" and un: "unacked own s"
  shows "\<exists>own'. pending_inv own' (store_step i s) \<and> unacked own' (store_step i s)"
proof (cases "table_of (pc_kind (pn_calls s ! i)) s (pc_id (pn_calls s ! i))")
  case None
  let ?own = "own(length (pn_heap s) := key_of (pn_calls s ! i))"
  have "unacked ?own (s\<lparr>pn_heap := pn_heap s @ [if pc_kind (pn_calls s ! i) = RetryNotify then newFlyNotify else newFlyRequest]\<rparr>)"
    using un by (auto simp: unacked_def nth_append less_Suc_eq newFlyNotify_def newFlyRequest_def)
  with None have "unacked ?own (store_step i s)"
    by (simp add: store_step_def Let_def unacked_goto unacked_parts)
  with inv_store_own [OF inv None] show ?thesis by blast
next
  case (Some b)
  with pending_invD(1) [OF inv] have "call_ok own (length (pn_heap s)) (set (pn_received s)) ((pn_calls s ! i)\<lparr>pc_at := Waiting b True\<rparr>)"
    by (auto simp: call_ok_def table_of_tbl key_of_def)
  from inv_goto [OF inv this] unacked_goto [OF un, of "Waiting b True" i] Some show ?thesis
    by (auto simp: store_step_def Let_def)
qed

lemma unacked_call:
  assumes inv: "pending_inv own s" and un: "unacked own s" and "call_step p i s = Some (Done s')"
  shows "\<exists>own'. pending_inv own' s' \<and> unacked own' s'"
  using assms(3)
proof (cases rule: call_step_cases)
  case load
  then have "unacked own s'" using un by (auto simp: load_step_def Let_def unacked_goto split: option.splits)
  with load inv_load [OF inv, of i] show ?thesis by auto
next
  case store
  with unacked_store [OF inv un] show ?thesis by auto
next
  case ctx
  with inv_ctx [OF inv, of i] unacked_goto [OF un] show ?thesis by auto
next
  case (chan a x)
  with inv_back [OF inv chan(1-3)] unacked_goto [OF un] show ?thesis by auto
next
  case (ack a x)
  have "a < length (pn_heap s) \<and> own a = (False, pc_id (pn_calls s ! i))"
    using pending_invD(2) [OF inv, of "pn_calls s ! i"] ack by (auto simp: call_ok_def key_of_def)
  with un ack(4) show ?thesis by (auto simp: unacked_def)
next
  case (tick a x)
  with inv un inv_send [OF inv, of "pc_id (pn_calls s ! i)"] show ?thesis
    by (auto simp: unacked_parts intro!: exI [of _ own])
next
  case (timer a x)
  with inv_timeout [OF inv, of i a x s'] unacked_timeout [OF inv un, of i a x s'] show ?thesis by auto
qed

lemma unacked_response:
  assumes inv: "pending_inv own s" and un: "unacked own s" and r: "receive_response pid result error s = Done s'"
  shows "unacked own s'"
proof (cases "pendingResp s pid")
  case None
  with r un show ?thesis by (auto simp: receive_response_def Let_def unacked_parts)
next
  case (Some a)
  then have a: "a < length (pn_heap s)" "own a = (RetryRequest = RetryNotify, pid)"
    using pending_invD(1) [OF inv, of False pid a] by (simp_all add: tbl_def)
  have tab: "unacked own (t\<lparr>pendingResp := m\<rparr>) = unacked own t" for t m by (simp add: unacked_def)
  have "fp_ackBack (pn_heap s ! a) = OpenChan" using un a by (simp add: unacked_def)
  then have err: "close_back RetryRequest ((pn_heap s ! a)\<lparr>fp_err := e\<rparr>) = Done f' \<Longrightarrow> fp_ackBack f' = OpenChan"
    and res: "close_back RetryRequest ((pn_heap s ! a)\<lparr>fp_result := x\<rparr>) = Done f' \<Longrightarrow> fp_ackBack f' = OpenChan"
    for e x f' by (simp_all add: close_back_ack)
  from r Some un show ?thesis
    by (auto simp: receive_response_def Let_def outcome_simps unacked_parts tab intro!: unacked_fly
        dest: err res split: if_splits)
qed

lemma unacked_ack:
  assumes inv: "pending_inv own s" and un: "unacked own s" and r: "receive_ack pid s = Done s'"
  shows "unacked own s'"
proof (cases "pendingAck s pid")
  case None
  with r un show ?thesis by (simp add: receive_ack_def)
next
  case (Some a)
  then have a: "own a = (True, pid)" using pending_invD(1) [OF inv, of True pid a] by (simp add: tbl_def)
  have tab: "unacked own (t\<lparr>pendingAck := m\<rparr>) = unacked own t" for t m by (simp add: unacked_def)
  from r Some un a show ?thesis by (auto simp: receive_ack_def outcome_simps tab intro!: unacked_fly)
qed

lemma unacked_reach: "pending_reach ok s \<Longrightarrow> \<exists>own. pending_inv own s \<and> unacked own s"
proof (induction rule: pending_reach.induct)
  case start
  have "pending_inv (\<lambda>a. (False, [])) pending_start" "unacked (\<lambda>a. (False, [])) pending_start"
    by (rule pending_invI) (simp_all add: pending_start_def tbl_def unacked_def split: if_splits)
  then show ?case by blast
next
  case (event s s')
  then obtain own where inv: "pending_inv own s" and un: "unacked own s" by blast
  from event.hyps(2) show ?case
  proof cases
    case (begins k pid)
    with begin_inv [OF inv] un show ?thesis by (auto simp: unacked_parts)
  next
    case (call p i)
    with unacked_call [OF inv un] show ?thesis by metis
  next
    case (response pid result error)
    with inv_response [OF inv] unacked_response [OF inv un] show ?thesis by metis
  next
    case (ack pid)
    with inv_ack [OF inv] unacked_ack [OF inv un] show ?thesis by metis
  next
    case cancel
    with cancel_inv [OF inv] un show ?thesis by (auto simp: unacked_parts)
  qed
qed

text \<open>
  The acknowledgement of a request does not stop its repetition, although the comment of
  RequestWithRetry says so: ackBack of a request is in no table, nobody ever closes it, and
  every tick of the retry interval sends the packet again until the response or the timeout.
\<close>

theorem ack_never_stops_requests:
  assumes "pending_reach ok s" and "i < length (pn_calls s)"
    and "pc_kind (pn_calls s ! i) = RetryRequest" and "pc_at (pn_calls s ! i) = Owning a acked"
  shows "call_step SeeAck i s = None \<and>
    call_step RetryTick i s = Some (Done (send_packet (pc_id (pn_calls s ! i)) s))"
proof -
  obtain own where inv: "pending_inv own s" and un: "unacked own s" using unacked_reach [OF assms(1)] by blast
  have a: "a < length (pn_heap s)" "\<not> fst (own a)"
    using pending_invD(2) [OF inv, of "pn_calls s ! i"] assms(2-4) by (auto simp: call_ok_def key_of_def)
  then have "fp_ackBack (pn_heap s ! a) = OpenChan" using un by (simp add: unacked_def)
  moreover have "\<not> acked"
    using un nth_mem [OF assms(2)] assms(4) unfolding unacked_def by (metis (full_types))
  ultimately show ?thesis using assms(2-4) by (simp add: call_step.simps Let_def)
qed

theorem ack_never_stops_requests_witness:
  "\<exists>s. receive_ack ''q1'' asked = Done s \<and> call_step RetryTick 0 s = Some (Done (send_packet ''q1'' s))"
proof -
  have ack: "receive_ack ''q1'' asked = Done asked" by (simp add: receive_ack_def asked_state)
  from ack_never_stops_requests [OF asked_reach, of 0 0 False] ack show ?thesis
    by (auto simp: asked_state)
qed

end
