(* ===== verification/Client_World.thy ===== *)
theory Client_World
  imports Simple_Codec Topic_PubSub Rc4_Crypto Handler_Registry Event_Listeners Conn_Interface
    Pending_Calls
begin

text \<open>
  The objects that client.go, group.go, stream.go and hub.go share, as one world: clients,
  groups, connections, Crypto objects, handler tables and byte slices live in stores under
  their addresses, because the code reaches each of them through several pointers. This theory
  holds the records and the sending side of a client; the handlers, the groups and the hub
  build on it.
\<close>

subsection \<open>The Client record\<close>

datatype client_state = DISCONNECT | CONNECTED | EXCHANGED_SECRET | LOGINED | DISPOSED

definition EXCHANGE_SECRET :: string where "EXCHANGE_SECRET = ''exchange_secret''"
definition LOGIN :: string where "LOGIN = ''login''"

text \<open>Durations are milliseconds; the Crypto object is shared by address.\<close>

record client_options =
  co_HeartbeatTimeout :: nat
  co_WaitTimeout :: nat
  co_RetryInterval :: nat
  co_Crypto :: "nat option"
  co_NeedLogin :: bool

text \<open>Packet of hub.go: the raw slice by reference, the type, the content, the receiver.\<close>

record packet =
  pk_RawData :: nat
  pk_PacketType :: packet_type_code
  pk_PacketContent :: inet_packet
  pk_Client :: nat

text \<open>
  The callbacks a client's topic center can hold: the one onReceiveSubscribe makes for a remote
  subscription, and those the application passes to Subscribe.
\<close>

datatype sub_callback = RemoteSub nat "string list option" | LocalSub nat

text \<open>
  Listeners: the hub's on OnLogin and OnDispose; on OnDisconnect of a connection those of a
  server (the hub's, and the one that forgets the connection) and of a reconnecting client; on
  OnMessage the server's and the one that hands the bytes to a client; and the application's
  own everywhere.
\<close>

datatype login_listener = HubLogin nat | UserLogin nat
datatype dispose_listener = HubDispose nat | UserDispose nat
datatype disconnect_listener = ServerDisconnect nat | ServerForget nat | Reconnect nat | ReconnectUdp nat
  | UserDisconnect nat
datatype message_listener = ServerReceive nat | ClientReceive nat | UserMessage nat

text \<open>Request handlers: the two the hub registers, and the application's.\<close>

datatype request_handler = LoginHandler | ExchangeHandler | UserHandler nat

text \<open>
  Goroutines: the execution of a request and then the call that sends its response; a call of
  one of the three sending functions about to start and running; a packet sent directly; a
  stream handler. A running call is an index into the calls of the client's pending state, and
  the slice it marshalled, once it did, which its retries send again.
\<close>

datatype client_task =
    ExecRequest request_packet
  | AwaitReply request_packet response_packet nat "nat option"
  | StartCall call_kind inet_packet
  | InCall inet_packet nat "nat option"
  | DirectSend inet_packet
  | RunStream nat stream_request_packet nat

record client =
  cl_ctxDone :: bool
  cl_beClient :: bool
  cl_ClientId :: string
  cl_Group :: "nat option"
  cl_GroupId :: "int64 option"
  cl_conn :: "nat option"
  cl_OnLogin :: "login_listener event_target"
  cl_OnDispose :: "dispose_listener event_target"
  cl_OnPingHandler :: "nat option"
  cl_OnPongHandler :: "nat option"
  cl_beDisposed :: bool
  cl_state :: client_state
  cl_rxQueue :: "packet list"
  cl_lastRxTime :: nat
  cl_lastTxTime :: "nat option"
  cl_handlerMgr :: nat
  cl_pending :: pending_state
  cl_handlingReq :: "string set"
  cl_handlingStream :: "string \<rightharpoonup> nat"
  cl_PubSub :: "sub_callback pubsub"
  cl_OnBroadcast :: "nat option"
  cl_properties :: "string \<rightharpoonup> nat"
  cl_options :: client_options
  cl_tasks :: "client_task list"
  cl_running :: bool

text \<open>Stream of stream.go, with the buffer of its OnRev channel.\<close>

record stream =
  sm_Id :: string
  sm_Client :: nat
  sm_OnRev :: "inet_packet list"

text \<open>
  A connection behind IConn, as far as clients see it: what its SendMessage queued (by
  reference, since the slices are shared), what SendMessageDirect wrote, whether it is closed,
  its mutex, its listeners, its LoginData, and whether its goroutines were started. The dynamic kind decides what a refused SendMessage returns.
\<close>

datatype conn_kind = TcpKind | WebsocketKind | FakeUdpKind

record conn_obj =
  ic_kind :: conn_kind
  ic_addr :: string
  ic_queue :: "nat list"
  ic_direct :: "bytes list"
  ic_closed :: bool
  ic_locked :: bool
  ic_OnDisconnect :: "disconnect_listener event_target"
  ic_OnMessage :: "message_listener event_target"
  ic_LoginData :: "bytes option"
  ic_started :: bool

record group =
  gr_ctxDone :: bool
  gr_parent :: "nat option"
  gr_id :: int64
  gr_clients :: "(string \<times> nat) list"
  gr_PubSub :: "sub_callback pubsub"

text \<open>
  What the application's own callbacks are called with, in order. They are recorded; what the
  application does in answer is an operation of its own.
\<close>

datatype user_call =
    PingCall nat string
  | PongCall nat string
  | BroadcastCall nat publish_packet
  | TopicCall nat publish_packet nat
  | MessageCall nat bytes
  | EventCall nat
  | ErrorCall string
  | DisconnectCall nat

text \<open>SessionData of hub.go.\<close>

record session_data =
  sd_ClientId :: string
  sd_NodeId :: "int64 option"
  sd_SessionId :: string

text \<open>
  The world: the stores, the counters of the package, the clock, the hub's tables, the clients
  maps of the servers (as one set of connections), whether the application set their
  OnClientDisconnect, OnReceiveMessage and OnError, the tryConn goroutines that are started, and
  the hub's sessions with the times at which they are to be dropped.
\<close>

record 'k world =
  w_clients :: "nat \<Rightarrow> client"
  w_groups :: "nat \<Rightarrow> group"
  w_conns :: "nat \<Rightarrow> conn_obj"
  w_streams :: "nat \<Rightarrow> stream"
  w_cryptos :: "nat \<Rightarrow> 'k crypto"
  w_mgrs :: "nat \<Rightarrow> (request_handler, nat) handler_mgr"
  w_bufs :: buffers
  w_nbufs :: nat
  w_ngroups :: nat
  w_nstreams :: nat
  w_pub :: pub_counters
  w_Enqueue :: int64
  w_EnConsume :: int64
  w_now :: nat
  w_user :: "user_call list"
  w_hub_clients :: "string \<rightharpoonup> nat"
  w_hub_buckets :: "int64 \<rightharpoonup> nat"
  w_hub_group :: nat
  w_server_conns :: "nat set"
  w_OnClientDisconnect :: bool
  w_OnReceiveMessage :: bool
  w_OnError :: bool
  w_dials :: "nat list"
  w_sessions :: "string \<rightharpoonup> session_data"
  w_expiries :: "(nat \<times> string) list"

definition set_client :: "nat \<Rightarrow> client \<Rightarrow> 'k world \<Rightarrow> 'k world" where
  "set_client c x w = w\<lparr>w_clients := (w_clients w)(c := x)\<rparr>"

definition upd_client :: "nat \<Rightarrow> (client \<Rightarrow> client) \<Rightarrow> 'k world \<Rightarrow> 'k world" where
  "upd_client c f w = w\<lparr>w_clients := (w_clients w)(c := f (w_clients w c))\<rparr>"

definition upd_conn :: "nat \<Rightarrow> (conn_obj \<Rightarrow> conn_obj) \<Rightarrow> 'k world \<Rightarrow> 'k world" where
  "upd_conn k f w = w\<lparr>w_conns := (w_conns w)(k := f (w_conns w k))\<rparr>"

definition upd_group :: "nat \<Rightarrow> (group \<Rightarrow> group) \<Rightarrow> 'k world \<Rightarrow> 'k world" where
  "upd_group g f w = w\<lparr>w_groups := (w_groups w)(g := f (w_groups w g))\<rparr>"

text \<open>A fresh slice with these bytes.\<close>

definition new_buf :: "bytes \<Rightarrow> 'k world \<Rightarrow> nat \<times> 'k world" where
  "new_buf b w = (w_nbufs w, w\<lparr>w_bufs := (w_bufs w)(w_nbufs w := b), w_nbufs := Suc (w_nbufs w)\<rparr>)"

text \<open>
  newClient: the address and the uuid are the allocator's. A missing codec is the default one,
  the only one of the repository, so the codec is no field here.
\<close>

definition RxQueueLen :: nat where "RxQueueLen = 100"
definition ClientPubChLen :: nat where "ClientPubChLen = 1000"

definition newClient :: "nat option \<Rightarrow> client_options \<Rightarrow> string \<Rightarrow> nat \<Rightarrow> nat \<Rightarrow> client" where
  "newClient conn opts uuid mgr now =
     \<lparr>cl_ctxDone = False, cl_beClient = False, cl_ClientId = uuid, cl_Group = None, cl_GroupId = None,
      cl_conn = conn, cl_OnLogin = newEventTarget, cl_OnDispose = newEventTarget, cl_OnPingHandler = None,
      cl_OnPongHandler = None, cl_beDisposed = False, cl_state = DISCONNECT, cl_rxQueue = [],
      cl_lastRxTime = now, cl_lastTxTime = None, cl_handlerMgr = mgr, cl_pending = pending_start, cl_handlingReq = {},
      cl_handlingStream = Map.empty, cl_PubSub = newPubSub ClientPubChLen, cl_OnBroadcast = None, cl_properties = Map.empty,
      cl_options = opts, cl_tasks = [], cl_running = True\<rparr>"

text \<open>The properties of a client. A value, of any type in the source, is a reference.\<close>

definition Client_GetProperty :: "string \<Rightarrow> client \<Rightarrow> nat option" where
  "Client_GetProperty k cl = sm_load k (cl_properties cl)"

definition Client_SetProperty :: "string \<Rightarrow> nat \<Rightarrow> client \<Rightarrow> client" where
  "Client_SetProperty k v cl = cl\<lparr>cl_properties := sm_store k v (cl_properties cl)\<rparr>"

interpretation client_properties: keyed_store Client_SetProperty Client_GetProperty
  by unfold_locales (auto simp: Client_SetProperty_def Client_GetProperty_def sync_map_defs)

subsection \<open>Sending\<close>

text \<open>
  IConn.SendMessage, with the results of the three connections: a closed or full one refuses,
  and tells so or not. FakeUdpConn does not look whether it is closed.
\<close>

definition conn_SendMessage :: "nat \<Rightarrow> nat \<Rightarrow> 'k world \<Rightarrow> send_error option \<times> 'k world" where
  "conn_SendMessage k b w =
     (let x = w_conns w k in
      if ic_closed x \<and> ic_kind x \<noteq> FakeUdpKind
      then (if ic_kind x = WebsocketKind then Some ConnClosed else None, w)
      else if length (ic_queue x) < 100 then (None, upd_conn k (\<lambda>x. x\<lparr>ic_queue := ic_queue x @ [b]\<rparr>) w)
      else (if ic_kind x = WebsocketKind then None else Some (TxQueueFull (ic_addr x)), w))"

definition conn_SendMessageDirect :: "nat \<Rightarrow> nat \<Rightarrow> 'k world \<Rightarrow> send_error option \<times> 'k world" where
  "conn_SendMessageDirect k b w =
     (None, upd_conn k (\<lambda>x. x\<lparr>ic_direct := ic_direct x @ [w_bufs w b]\<rparr>) w)"

text \<open>
  The part that SendMessage and SendMessageDirect of a client share: the time of sending, and
  the encryption of the slice in place once the secret is exchanged.
\<close>

definition encrypts :: "client \<Rightarrow> bool" where
  "encrypts cl \<longleftrightarrow> cl_state cl = EXCHANGED_SECRET \<or> cl_state cl = LOGINED"

definition encode_buf :: "nat \<Rightarrow> nat \<Rightarrow> 'k world \<Rightarrow> 'k world outcome" where
  "encode_buf y b w =
     and_then (Encode b b (w_cryptos w y, w_bufs w))
       (\<lambda>(cr, st). Done (w\<lparr>w_cryptos := (w_cryptos w)(y := cr), w_bufs := st\<rparr>))"

definition prepare_send :: "nat \<Rightarrow> nat \<Rightarrow> 'k world \<Rightarrow> 'k world outcome" where
  "prepare_send c b w0 =
     (let w = upd_client c (\<lambda>cl. cl\<lparr>cl_lastTxTime := Some (w_now w0)\<rparr>) w0 in
      case co_Crypto (cl_options (w_clients w c)) of
        Some y \<Rightarrow> if encrypts (w_clients w c) then encode_buf y b w else Done w
      | None \<Rightarrow> Done w)"

definition SendMessage :: "nat \<Rightarrow> nat \<Rightarrow> 'k world \<Rightarrow> (send_error option \<times> 'k world) outcome" where
  "SendMessage c b w =
     and_then (prepare_send c b w)
       (\<lambda>w1. case cl_conn (w_clients w1 c) of
          None \<Rightarrow> Panic ''nil pointer dereference''
        | Some k \<Rightarrow> Done (conn_SendMessage k b w1))"

definition SendMessageDirect :: "nat \<Rightarrow> nat \<Rightarrow> 'k world \<Rightarrow> (send_error option \<times> 'k world) outcome" where
  "SendMessageDirect c b w =
     and_then (prepare_send c b w)
       (\<lambda>w1. case cl_conn (w_clients w1 c) of
          None \<Rightarrow> Panic ''nil pointer dereference''
        | Some k \<Rightarrow> Done (conn_SendMessageDirect k b w1))"

text \<open>A packet the codec cannot marshal gives a nil slice, which is sent all the same.\<close>

definition marshal_buf :: "inet_packet \<Rightarrow> 'k world \<Rightarrow> nat \<times> 'k world" where
  "marshal_buf p w = new_buf (case Marshal p of None \<Rightarrow> [] | Some b \<Rightarrow> b) w"

definition SendPacket :: "nat \<Rightarrow> inet_packet \<Rightarrow> 'k world \<Rightarrow> (send_error option \<times> 'k world) outcome" where
  "SendPacket c p w = (case marshal_buf p w of (b, w1) \<Rightarrow> SendMessage c b w1)"

definition SendPacketDirect :: "nat \<Rightarrow> inet_packet \<Rightarrow> 'k world \<Rightarrow> (send_error option \<times> 'k world) outcome" where
  "SendPacketDirect c p w = (case marshal_buf p w of (b, w1) \<Rightarrow> SendMessageDirect c b w1)"

text \<open>SendPacket in a handler that ignores its error.\<close>

definition send_ack :: "nat \<Rightarrow> string \<Rightarrow> 'k world \<Rightarrow> 'k world outcome" where
  "send_ack c pid w =
     (if pid = [] then Done w
      else and_then (SendPacket c (AckPacket \<lparr>ak_Id = pid\<rparr>) w) (\<lambda>(e, w'). Done w'))"

subsection \<open>Streams\<close>

definition newStream :: "string \<Rightarrow> nat \<Rightarrow> stream" where
  "newStream sid c = \<lparr>sm_Id = sid, sm_Client = c, sm_OnRev = []\<rparr>"

definition stream_push :: "nat \<Rightarrow> inet_packet \<Rightarrow> 'k world \<Rightarrow> 'k world outcome" where
  "stream_push s p w =
     and_then (chan_send 10 p (sm_OnRev (w_streams w s)))
       (\<lambda>q. Done (w\<lparr>w_streams := (w_streams w)(s := (w_streams w s)\<lparr>sm_OnRev := q\<rparr>)\<rparr>))"

definition Stream_CloseAndRev :: "nat \<Rightarrow> 'k world \<Rightarrow> (send_error option \<times> 'k world) outcome" where
  "Stream_CloseAndRev s w =
     SendPacketDirect (sm_Client (w_streams w s))
       (StreamClosePacket \<lparr>sc_Id = [], sc_StreamId = sm_Id (w_streams w s), sc_Error = []\<rparr>) w"

definition Stream_Request :: "nat \<Rightarrow> json \<Rightarrow> 'k world \<Rightarrow> (send_error option \<times> 'k world) outcome" where
  "Stream_Request s params w =
     SendPacketDirect (sm_Client (w_streams w s))
       (StreamRequestPacket \<lparr>sr_StreamId = sm_Id (w_streams w s), sr_Id = [], sr_Method = [], sr_Params = params\<rparr>) w"

definition Stream_Response :: "nat \<Rightarrow> json \<Rightarrow> string option \<Rightarrow> 'k world \<Rightarrow> (send_error option \<times> 'k world) outcome" where
  "Stream_Response s result err w =
     SendPacketDirect (sm_Client (w_streams w s))
       (StreamResponsePacket \<lparr>sp_StreamId = sm_Id (w_streams w s), sp_Id = [], sp_Result = result,
          sp_Error = (case err of None \<Rightarrow> [] | Some e \<Rightarrow> e)\<rparr>) w"

end
