(* ===== verification/Group_Rooms.thy ===== *)
theory Group_Rooms
  imports Client_World Go_Strconv "HOL-Library.AList"
begin

text \<open>
  group.go and the registry part of hub.go: groups (buckets) with their members and topic
  centers, and the hub's tables of clients and groups. Range over a sync.Map visits the
  entries in an unspecified order, so a group's members are an association list whose order
  carries no meaning.
\<close>

subsection \<open>Members\<close>

definition GroupPubChLen :: nat where "GroupPubChLen = 100"

definition newGroup :: "int64 \<Rightarrow> nat option \<Rightarrow> group" where
  "newGroup gid parent = \<lparr>gr_ctxDone = False, gr_parent = parent, gr_id = gid, gr_clients = [],
     gr_PubSub = newPubSub GroupPubChLen\<rparr>"

definition member_store :: "string \<Rightarrow> nat \<Rightarrow> group \<Rightarrow> group" where
  "member_store k c x = x\<lparr>gr_clients := AList.update k c (gr_clients x)\<rparr>"

definition member_load :: "string \<Rightarrow> group \<Rightarrow> nat option" where
  "member_load k x = map_of (gr_clients x) k"

definition member_delete :: "string \<Rightarrow> group \<Rightarrow> group" where
  "member_delete k x = x\<lparr>gr_clients := AList.delete k (gr_clients x)\<rparr>"

lemmas member_defs = member_store_def member_load_def member_delete_def

interpretation group_members: removable_store member_store member_load member_delete
  by unfold_locales (simp_all add: member_defs update_conv' delete_conv')

definition Group_FindClient :: "nat \<Rightarrow> string \<Rightarrow> 'k world \<Rightarrow> nat option" where
  "Group_FindClient g k w = member_load k (w_groups w g)"

text \<open>AddClient also makes the group the client's own.\<close>

definition Group_AddClient :: "nat \<Rightarrow> nat \<Rightarrow> 'k world \<Rightarrow> 'k world" where
  "Group_AddClient g c w =
     upd_client c (\<lambda>cl. cl\<lparr>cl_Group := Some g\<rparr>)
       (upd_group g (member_store (cl_ClientId (w_clients w c)) c) w)"

definition Group_RemoveClient :: "nat \<Rightarrow> string \<Rightarrow> 'k world \<Rightarrow> 'k world" where
  "Group_RemoveClient g k w = upd_group g (member_delete k) w"

subsection \<open>The registry of the hub\<close>

definition FindClient :: "string \<Rightarrow> 'k world \<Rightarrow> nat option" where
  "FindClient k w = sm_load k (w_hub_clients w)"

definition hub_put :: "string \<Rightarrow> nat \<Rightarrow> 'k world \<Rightarrow> 'k world" where
  "hub_put k c w = w\<lparr>w_hub_clients := sm_store k c (w_hub_clients w)\<rparr>"

definition AddClient :: "nat \<Rightarrow> 'k world \<Rightarrow> 'k world" where
  "AddClient c w = hub_put (cl_ClientId (w_clients w c)) c w"

definition RemoveClient :: "string \<Rightarrow> 'k world \<Rightarrow> 'k world" where
  "RemoveClient k w = w\<lparr>w_hub_clients := sm_delete k (w_hub_clients w)\<rparr>"

lemmas hub_client_defs = FindClient_def hub_put_def RemoveClient_def sync_map_defs

interpretation hub_clients: removable_store hub_put FindClient RemoveClient
  by unfold_locales (simp_all add: hub_client_defs)

definition FindGroup :: "int64 \<Rightarrow> 'k world \<Rightarrow> nat option" where
  "FindGroup i w = sm_load i (w_hub_buckets w)"

text \<open>The group made for LoadOrStore is dropped when the key is there already.\<close>

definition FindOrCreateGroup :: "int64 \<Rightarrow> 'k world \<Rightarrow> nat \<times> 'k world" where
  "FindOrCreateGroup i w =
     (case sm_load i (w_hub_buckets w) of
        Some g \<Rightarrow> (g, w)
      | None \<Rightarrow>
          (let g = w_ngroups w;
               w1 = w\<lparr>w_groups := (w_groups w)(g := newGroup i (Some (w_hub_group w))), w_ngroups := Suc g\<rparr>
           in case sm_load_or_store i g (w_hub_buckets w1) of
                (v, loaded, m) \<Rightarrow> (v, w1\<lparr>w_hub_buckets := m\<rparr>)))"

text \<open>
  The hub's groups are allocated one after the other, each with its own id and the root group
  as its parent, and the table holds every one of them.
\<close>

definition registry_ok :: "'k world \<Rightarrow> bool" where
  "registry_ok w \<longleftrightarrow> w_hub_group w < w_ngroups w \<and> gr_parent (w_groups w (w_hub_group w)) = None \<and>
     (\<forall>i g. FindGroup i w = Some g \<longrightarrow> g < w_ngroups w \<and> g \<noteq> w_hub_group w \<and>
        gr_id (w_groups w g) = i \<and> gr_parent (w_groups w g) = Some (w_hub_group w))"

lemma FindOrCreateGroup_cases:
  obtains (old) g where "FindGroup i w = Some g" "FindOrCreateGroup i w = (g, w)"
  | (made) "FindGroup i w = None"
      "FindOrCreateGroup i w = (w_ngroups w, w\<lparr>w_groups := (w_groups w)(w_ngroups w := newGroup i (Some (w_hub_group w))),
         w_ngroups := Suc (w_ngroups w), w_hub_buckets := (w_hub_buckets w)(i \<mapsto> w_ngroups w)\<rparr>)"
  by (cases "FindGroup i w") (auto simp: FindGroup_def FindOrCreateGroup_def sync_map_defs Let_def)

lemma one_group_of:
  assumes "registry_ok w" and "FindOrCreateGroup i w = (g, w')"
  shows "registry_ok w' \<and> FindGroup i w' = Some g \<and> FindOrCreateGroup i w' = (g, w') \<and>
    (\<forall>j. j \<noteq> i \<longrightarrow> FindGroup j w' = FindGroup j w) \<and>
    (FindGroup i w = None \<longrightarrow> gr_clients (w_groups w' g) = [] \<and> (\<forall>h < w_ngroups w. w_groups w' h = w_groups w h))"
proof (cases rule: FindOrCreateGroup_cases [of i w])
  case (old h)
  with assms show ?thesis by simp
next
  case made
  have parts: "g = w_ngroups w" "w' = w\<lparr>w_groups := (w_groups w)(w_ngroups w := newGroup i (Some (w_hub_group w))),
         w_ngroups := Suc (w_ngroups w), w_hub_buckets := (w_hub_buckets w)(i \<mapsto> w_ngroups w)\<rparr>"
    using made(2) assms(2) by simp_all
  then have find: "FindGroup j w' = (if j = i then Some g else FindGroup j w)" for j
    by (simp add: FindGroup_def sync_map_defs)
  have "FindOrCreateGroup i w' = (g, w')"
    using find [of i] by (simp add: FindOrCreateGroup_def FindGroup_def)
  moreover have "registry_ok w'"
    using assms(1) unfolding registry_ok_def find
    by (auto simp: parts newGroup_def split: if_splits) (meson less_SucI less_irrefl)+
  ultimately show ?thesis
    using find by (auto simp: parts newGroup_def)
qed

text \<open>
  C23: FindOrCreateGroup returns one group per id: the group it returns is the one FindGroup
  finds afterwards, a second call returns the same, the groups of other ids stay, and a group
  it made is new, empty, carries the id and is a child of the hub's root group.
\<close>

theorem one_group_per_id:
  assumes "registry_ok w" and "FindOrCreateGroup i w = (g, w')"
  shows "registry_ok w' \<and> FindGroup i w' = Some g \<and> FindOrCreateGroup i w' = (g, w') \<and>
    (\<forall>j. j \<noteq> i \<longrightarrow> FindGroup j w' = FindGroup j w) \<and>
    (FindGroup i w = None \<longrightarrow> gr_clients (w_groups w' g) = [] \<and> (\<forall>h < w_ngroups w. w_groups w' h = w_groups w h))"
  using assms by (rule one_group_of)

subsection \<open>A new hub\<close>

text \<open>
  Unused addresses hold objects nothing refers to; cryptos and time are the caller's. The
  handler table at address 0 is the hub's, every client has its own until it gets that one.
\<close>

definition no_options :: client_options where
  "no_options = \<lparr>co_HeartbeatTimeout = 0, co_WaitTimeout = 0, co_RetryInterval = 0, co_Crypto = None, co_NeedLogin = False\<rparr>"

definition hub_handlers :: "(request_handler, nat) handler_mgr" where
  "hub_handlers =
     RegisterRequestHandler EXCHANGE_SECRET ExchangeHandler
       (RegisterRequestHandler ''login'' LoginHandler empty_handler_mgr)"

definition New :: "(nat \<Rightarrow> 'k crypto) \<Rightarrow> nat \<Rightarrow> 'k world" where
  "New cryptos now =
     \<lparr>w_clients = (\<lambda>c. newClient None no_options [] 0 now), w_groups = (\<lambda>g. newGroup (- 1) None),
      w_conns = (\<lambda>k. \<lparr>ic_kind = TcpKind, ic_addr = [], ic_queue = [], ic_direct = [], ic_closed = False,
        ic_locked = False, ic_OnDisconnect = newEventTarget, ic_OnMessage = newEventTarget,
        ic_LoginData = None, ic_started = False\<rparr>),
      w_streams = (\<lambda>s. newStream [] 0), w_cryptos = cryptos, w_mgrs = (\<lambda>m. empty_handler_mgr)(0 := hub_handlers),
      w_bufs = (\<lambda>b. []), w_nbufs = 0, w_ngroups = 1, w_nstreams = 0,
      w_pub = \<lparr>PubQueue = 0, PubConsume = 0\<rparr>, w_Enqueue = 0, w_EnConsume = 0, w_now = now, w_user = [],
      w_hub_clients = Map.empty, w_hub_buckets = Map.empty, w_hub_group = 0,
      w_server_conns = {}, w_OnClientDisconnect = False, w_OnReceiveMessage = False, w_OnError = False, w_dials = [],
      w_sessions = Map.empty, w_expiries = []\<rparr>"

lemma registry_ok_New [simp]: "registry_ok (New cryptos now)"
  by (simp add: registry_ok_def New_def newGroup_def FindGroup_def sync_map_defs)

theorem one_group_per_id_witness:
  "\<exists>g w'. FindOrCreateGroup 5 (New (\<lambda>y. NewCrypto ()) 0) = (g, w') \<and> FindGroup 5 w' = Some g \<and>
     FindOrCreateGroup 5 w' = (g, w')"
proof -
  obtain g w' where w': "FindOrCreateGroup 5 (New (\<lambda>y. NewCrypto ()) 0) = (g, w')"
    by (cases "FindOrCreateGroup 5 (New (\<lambda>y. NewCrypto ()) 0)")
  from one_group_per_id [OF registry_ok_New w'] w' show ?thesis by blast
qed

subsection \<open>Broadcasts\<close>

text \<open>Every member is sent the same slice; the errors are dropped.\<close>

fun broadcast_to :: "nat list \<Rightarrow> nat \<Rightarrow> 'k world \<Rightarrow> 'k world outcome" where
  "broadcast_to [] b w = Done w"
| "broadcast_to (c # cs) b w = and_then (SendMessage c b w) (\<lambda>(e, w'). broadcast_to cs b w')"

definition Broadcast :: "nat \<Rightarrow> nat \<Rightarrow> 'k world \<Rightarrow> 'k world outcome" where
  "Broadcast g b w = broadcast_to (map snd (gr_clients (w_groups w g))) b w"

subsection \<open>Publications\<close>

text \<open>PubTopic of the topic center of a client or of a group.\<close>

datatype pub_target = ClientCenter nat | GroupCenter nat

definition client_pub :: "nat \<Rightarrow> publish_packet \<Rightarrow> nat \<Rightarrow> 'k world \<Rightarrow> 'k world outcome" where
  "client_pub c pkt from w =
     and_then (PubTopic pkt from (w_pub w, cl_PubSub (w_clients w c)))
       (\<lambda>(cnt, p). Done ((upd_client c (\<lambda>cl. cl\<lparr>cl_PubSub := p\<rparr>) w)\<lparr>w_pub := cnt\<rparr>))"

definition group_center_pub :: "nat \<Rightarrow> publish_packet \<Rightarrow> nat \<Rightarrow> 'k world \<Rightarrow> 'k world outcome" where
  "group_center_pub g pkt from w =
     and_then (PubTopic pkt from (w_pub w, gr_PubSub (w_groups w g)))
       (\<lambda>(cnt, p). Done ((upd_group g (\<lambda>x. x\<lparr>gr_PubSub := p\<rparr>) w)\<lparr>w_pub := cnt\<rparr>))"

fun publish_to :: "nat list \<Rightarrow> publish_packet \<Rightarrow> nat \<Rightarrow> 'k world \<Rightarrow> 'k world outcome" where
  "publish_to [] pkt from w = Done w"
| "publish_to (c # cs) pkt from w = and_then (client_pub c pkt from w) (publish_to cs pkt from)"

text \<open>
  Group.PubTopic: first the parent, under the topic with the group's id in front, then the
  group's own center, then every member's. The fuel bounds the chain of parents; a chain of the
  hub has two groups, and group_pub_fuel shows that more fuel changes nothing.
\<close>

definition prefixed :: "int64 \<Rightarrow> publish_packet \<Rightarrow> publish_packet" where
  "prefixed i pkt = pkt\<lparr>pb_Topic := show_int64 i @ ''/'' @ pb_Topic pkt\<rparr>"

fun group_pub :: "nat \<Rightarrow> nat \<Rightarrow> publish_packet \<Rightarrow> nat \<Rightarrow> 'k world \<Rightarrow> 'k world outcome" where
  "group_pub 0 g pkt from w = Block"
| "group_pub (Suc n) g pkt from w =
     and_then
       (case gr_parent (w_groups w g) of
          None \<Rightarrow> Done w
        | Some p \<Rightarrow> group_pub n p (prefixed (gr_id (w_groups w g)) pkt) from w)
       (\<lambda>w1. and_then (group_center_pub g pkt from w1)
         (\<lambda>w2. publish_to (map snd (gr_clients (w_groups w2 g))) pkt from w2))"

definition Group_PubTopic :: "nat \<Rightarrow> publish_packet \<Rightarrow> nat \<Rightarrow> 'k world \<Rightarrow> 'k world outcome" where
  "Group_PubTopic g pkt from w = group_pub (Suc (w_ngroups w)) g pkt from w"

text \<open>The same, as the sequence of centers it publishes to.\<close>

fun publish_all :: "(pub_target \<times> publish_packet) list \<Rightarrow> nat \<Rightarrow> 'k world \<Rightarrow> 'k world outcome" where
  "publish_all [] from w = Done w"
| "publish_all ((ClientCenter c, pkt) # ts) from w = and_then (client_pub c pkt from w) (publish_all ts from)"
| "publish_all ((GroupCenter g, pkt) # ts) from w = and_then (group_center_pub g pkt from w) (publish_all ts from)"

definition group_targets :: "nat \<Rightarrow> publish_packet \<Rightarrow> 'k world \<Rightarrow> (pub_target \<times> publish_packet) list" where
  "group_targets g pkt w =
     (GroupCenter g, pkt) # map (\<lambda>(k, c). (ClientCenter c, pkt)) (gr_clients (w_groups w g))"

lemma publish_all_append:
  "publish_all (xs @ ys) from w = and_then (publish_all xs from w) (publish_all ys from)"
proof (induction xs arbitrary: w)
  case (Cons x xs)
  obtain t pkt where x: "x = (t, pkt)" by (cases x)
  with Cons show ?case by (cases t) (auto simp: and_then_assoc intro: and_then_eqI)
qed simp

text \<open>Publishing leaves the structure of groups and members alone.\<close>

definition same_groups :: "'k world \<Rightarrow> 'k world \<Rightarrow> bool" where
  "same_groups w w' \<longleftrightarrow> w_ngroups w' = w_ngroups w \<and>
     (\<forall>g. gr_parent (w_groups w' g) = gr_parent (w_groups w g) \<and> gr_id (w_groups w' g) = gr_id (w_groups w g) \<and>
        gr_clients (w_groups w' g) = gr_clients (w_groups w g))"

lemma same_groups_refl [simp]: "same_groups w w"
  by (simp add: same_groups_def)

lemma same_groups_trans: "same_groups w w' \<Longrightarrow> same_groups w' w'' \<Longrightarrow> same_groups w w''"
  by (simp add: same_groups_def)

lemma client_pub_groups: "client_pub c pkt from w = Done w' \<Longrightarrow> same_groups w w'"
  by (auto simp: client_pub_def outcome_simps same_groups_def upd_client_def)

lemma group_center_pub_groups: "group_center_pub g pkt from w = Done w' \<Longrightarrow> same_groups w w'"
  by (auto simp: group_center_pub_def outcome_simps same_groups_def upd_group_def)

lemma publish_all_groups: "publish_all ts from w = Done w' \<Longrightarrow> same_groups w w'"
proof (induction ts arbitrary: w)
  case (Cons x ts)
  obtain t pkt where x: "x = (t, pkt)" by (cases x)
  with Cons show ?case
    by (cases t) (auto simp: outcome_simps dest: client_pub_groups group_center_pub_groups intro: same_groups_trans)
qed simp

lemma publish_to_all:
  "publish_to (map snd cs) pkt from w = publish_all (map (\<lambda>(k, c). (ClientCenter c, pkt)) cs) from w"
  by (induction cs arbitrary: w) (auto intro!: and_then_eqI)

lemma own_targets:
  "and_then (group_center_pub g pkt from w1) (\<lambda>w2. publish_to (map snd (gr_clients (w_groups w2 g))) pkt from w2) =
     publish_all (group_targets g pkt w1) from w1"
proof -
  have "publish_to (map snd (gr_clients (w_groups w2 g))) pkt from w2 =
      publish_all (map (\<lambda>(k, c). (ClientCenter c, pkt)) (gr_clients (w_groups w1 g))) from w2"
    if "group_center_pub g pkt from w1 = Done w2" for w2
    using group_center_pub_groups [OF that] by (simp add: publish_to_all same_groups_def)
  then show ?thesis by (auto simp: group_targets_def intro: and_then_eqI)
qed

lemma group_targets_same: "same_groups w w' \<Longrightarrow> group_targets g pkt w' = group_targets g pkt w"
  by (simp add: group_targets_def same_groups_def)

text \<open>A group without a parent, and a group below such a one.\<close>

lemma group_pub_root:
  "gr_parent (w_groups w r) = None \<Longrightarrow> group_pub (Suc n) r pkt from w = publish_all (group_targets r pkt w) from w"
  using own_targets by simp

lemma group_pub_child:
  assumes "gr_parent (w_groups w g) = Some r" "gr_parent (w_groups w r) = None"
  shows "group_pub (Suc (Suc n)) g pkt from w =
    publish_all (group_targets r (prefixed (gr_id (w_groups w g)) pkt) w @ group_targets g pkt w) from w"
proof -
  let ?root = "publish_all (group_targets r (prefixed (gr_id (w_groups w g)) pkt) w) from w"
  have "group_pub (Suc (Suc n)) g pkt from w =
      and_then ?root (\<lambda>w1. publish_all (group_targets g pkt w1) from w1)"
    unfolding group_pub.simps(2) [of "Suc n" g] assms(1) option.case group_pub_root [OF assms(2)]
    by (rule and_then_eqI) (rule own_targets)
  also have "\<dots> = and_then ?root (publish_all (group_targets g pkt w) from)"
    by (rule and_then_eqI) (use publish_all_groups group_targets_same in metis)
  finally show ?thesis by (simp add: publish_all_append)
qed

lemma Group_PubTopic_hub:
  assumes "registry_ok w" and "FindGroup i w = Some g"
  shows "Group_PubTopic g pkt from w =
    publish_all (group_targets (w_hub_group w) (prefixed i pkt) w @ group_targets g pkt w) from w"
proof -
  obtain n where "w_ngroups w = Suc n"
    using assms(1) by (cases "w_ngroups w") (auto simp: registry_ok_def)
  moreover have "gr_id (w_groups w g) = i" using assms by (auto simp: registry_ok_def)
  moreover have "gr_parent (w_groups w g) = Some (w_hub_group w)" "gr_parent (w_groups w (w_hub_group w)) = None"
    using assms by (auto simp: registry_ok_def)
  ultimately show ?thesis by (simp add: Group_PubTopic_def group_pub_child del: group_pub.simps)
qed

fun center :: "pub_target \<Rightarrow> 'k world \<Rightarrow> sub_callback pubsub" where
  "center (ClientCenter c) w = cl_PubSub (w_clients w c)"
| "center (GroupCenter g) w = gr_PubSub (w_groups w g)"

definition received_by :: "pub_target \<Rightarrow> (pub_target \<times> publish_packet) list \<Rightarrow> publish_packet list" where
  "received_by t ts = map snd (filter (\<lambda>x. fst x = t) ts)"

lemma received_by_simps [simp]:
  "received_by t [] = []"
  "received_by t (x # ts) = (if fst x = t then snd x # received_by t ts else received_by t ts)"
  "received_by t (xs @ ys) = received_by t xs @ received_by t ys"
  by (simp_all add: received_by_def)

lemma publish_one:
  "publish_all [(t, pkt)] from w = Done w' \<longleftrightarrow>
     length (ps_pubCh (center t w)) < ps_pubSize (center t w) \<and>
     w' = (case t of
         ClientCenter c \<Rightarrow> upd_client c (\<lambda>cl. cl\<lparr>cl_PubSub := (cl_PubSub cl)\<lparr>ps_pubCh := ps_pubCh (cl_PubSub cl) @ [\<lparr>pt_pkt = pkt, pt_from = from\<rparr>]\<rparr>\<rparr>) w
       | GroupCenter g \<Rightarrow> upd_group g (\<lambda>x. x\<lparr>gr_PubSub := (gr_PubSub x)\<lparr>ps_pubCh := ps_pubCh (gr_PubSub x) @ [\<lparr>pt_pkt = pkt, pt_from = from\<rparr>]\<rparr>\<rparr>) w)
       \<lparr>w_pub := (w_pub w)\<lparr>PubQueue := PubQueue (w_pub w) + 1\<rparr>\<rparr>"
  by (cases t)
    (auto simp: client_pub_def group_center_pub_def PubTopic_def outcome_simps chan_simps upd_client_def upd_group_def)

lemma publish_one_center:
  "publish_all [(t, pkt)] from w = Done w' \<Longrightarrow>
     center u w' = (if u = t then (center t w)\<lparr>ps_pubCh := ps_pubCh (center t w) @ [\<lparr>pt_pkt = pkt, pt_from = from\<rparr>]\<rparr> else center u w)"
  unfolding publish_one by (cases t; cases u) (auto simp: upd_client_def upd_group_def)

lemma publish_all_Cons: "publish_all (x # ts) from w = and_then (publish_all [x] from w) (publish_all ts from)"
  using publish_all_append [of "[x]" ts] by simp

text \<open>What a sequence of publications appends to each channel, and when none of them waits.\<close>

lemma publish_all_centers:
  "publish_all ts from w = Done w' \<Longrightarrow>
     center u w' = (center u w)\<lparr>ps_pubCh := ps_pubCh (center u w) @ map (\<lambda>p. \<lparr>pt_pkt = p, pt_from = from\<rparr>) (received_by u ts)\<rparr>"
proof (induction ts arbitrary: w)
  case (Cons x ts)
  obtain t pkt where x: "x = (t, pkt)" by (cases x)
  have "and_then (publish_all [(t, pkt)] from w) (publish_all ts from) = Done w'"
    using Cons.prems unfolding x publish_all_Cons [of "(t, pkt)" ts "from" w] .
  then obtain w1 where w1: "publish_all [(t, pkt)] from w = Done w1" "publish_all ts from w1 = Done w'"
    unfolding and_then_eq_Done by blast
  show ?case unfolding Cons.IH [OF w1(2)] publish_one_center [OF w1(1)] x by simp
qed simp

lemma publish_all_room:
  "(\<And>u. length (ps_pubCh (center u w)) + length (received_by u ts) \<le> ps_pubSize (center u w)) \<Longrightarrow>
     \<exists>w'. publish_all ts from w = Done w'"
proof (induction ts arbitrary: w)
  case (Cons x ts)
  obtain t pkt where x: "x = (t, pkt)" by (cases x)
  have "length (ps_pubCh (center t w)) < ps_pubSize (center t w)"
    using Cons.prems [of t] by (simp add: x)
  then obtain w1 where w1: "publish_all [(t, pkt)] from w = Done w1" using publish_one by blast
  have "\<exists>w'. publish_all ts from w1 = Done w'"
  proof (rule Cons.IH)
    fix u
    show "length (ps_pubCh (center u w1)) + length (received_by u ts) \<le> ps_pubSize (center u w1)"
      using Cons.prems [of u] unfolding publish_one_center [OF w1] by (auto simp: x split: if_splits)
  qed
  with w1 show ?case using publish_all_Cons [of x ts "from" w] by (simp add: x)
qed simp

text \<open>
  A publication in a group of the hub reaches, in this order and each exactly once, the
  root group's center and members under the topic with the group's id in front, then the
  group's own center and members under the plain topic; no other center receives anything,
  and with room in the channels nothing waits.
\<close>

lemma group_publish_reaches:
  assumes "registry_ok w" and "FindGroup i w = Some g"
    and room: "\<And>u. length (ps_pubCh (center u w)) + length (received_by u
      (group_targets (w_hub_group w) (prefixed i pkt) w @ group_targets g pkt w)) \<le> ps_pubSize (center u w)"
  shows "\<exists>w'. Group_PubTopic g pkt from w = Done w' \<and> same_groups w w' \<and>
    (\<forall>u. ps_pubCh (center u w') = ps_pubCh (center u w) @
       map (\<lambda>p. \<lparr>pt_pkt = p, pt_from = from\<rparr>)
         (received_by u (group_targets (w_hub_group w) (prefixed i pkt) w) @ received_by u (group_targets g pkt w)))"
proof -
  obtain w' where w': "Group_PubTopic g pkt from w = Done w'"
    using publish_all_room [OF room] Group_PubTopic_hub [OF assms(1,2)] by metis
  from w' [unfolded Group_PubTopic_hub [OF assms(1,2)]] publish_all_groups publish_all_centers w'
  show ?thesis by fastforce
qed

definition sample_hub :: "unit world" where
  "sample_hub = snd (FindOrCreateGroup 5 (New (\<lambda>y. NewCrypto ()) 0))"

lemma sample_hub_registry: "registry_ok sample_hub" "FindGroup 5 sample_hub = Some 1"
proof -
  have "FindOrCreateGroup 5 (New (\<lambda>y. NewCrypto ()) 0) = (1, sample_hub)"
    by (simp add: sample_hub_def FindOrCreateGroup_def New_def sync_map_defs Let_def)
  from one_group_of [OF registry_ok_New this]
  show "registry_ok sample_hub" "FindGroup 5 sample_hub = Some 1" by auto
qed

lemma group_publish_sample:
  "\<exists>w'. Group_PubTopic 1 sample_publish 0 sample_hub = Done w' \<and>
     map (\<lambda>x. pb_Topic (pt_pkt x)) (ps_pubCh (gr_PubSub (w_groups w' 1))) = [''room/temp''] \<and>
     map (\<lambda>x. pb_Topic (pt_pkt x)) (ps_pubCh (gr_PubSub (w_groups w' 0))) = [''5/room/temp'']"
proof -
  have hub: "w_hub_group sample_hub = 0" "gr_clients (w_groups sample_hub h) = []"
      "ps_pubCh (center u sample_hub) = []" "2 \<le> ps_pubSize (center u sample_hub)" for h u
    by (cases u; simp add: sample_hub_def FindOrCreateGroup_def New_def sync_map_defs Let_def newGroup_def
        newPubSub_def GroupPubChLen_def newClient_def ClientPubChLen_def)+
  have topic: "pb_Topic sample_publish = ''room/temp''" "pb_Topic (prefixed 5 sample_publish) = ''5/room/temp''"
    by (simp_all add: sample_publish_def prefixed_def show_int64_def show_int_def) code_simp
  have "\<exists>w'. Group_PubTopic 1 sample_publish 0 sample_hub = Done w' \<and> same_groups sample_hub w' \<and>
    (\<forall>u. ps_pubCh (center u w') = ps_pubCh (center u sample_hub) @
       map (\<lambda>p. \<lparr>pt_pkt = p, pt_from = 0\<rparr>)
         (received_by u (group_targets (w_hub_group sample_hub) (prefixed 5 sample_publish) sample_hub) @
          received_by u (group_targets 1 sample_publish sample_hub)))"
  proof (rule group_publish_reaches [OF sample_hub_registry])
    fix u
    show "length (ps_pubCh (center u sample_hub)) + length (received_by u
        (group_targets (w_hub_group sample_hub) (prefixed 5 sample_publish) sample_hub @
         group_targets 1 sample_publish sample_hub)) \<le> ps_pubSize (center u sample_hub)"
      using hub(4) [of u] by (simp add: hub(1-3) group_targets_def)
  qed
  then obtain w' where w': "Group_PubTopic 1 sample_publish 0 sample_hub = Done w'"
    and q: "\<And>u. ps_pubCh (center u w') = ps_pubCh (center u sample_hub) @
       map (\<lambda>p. \<lparr>pt_pkt = p, pt_from = 0\<rparr>)
         (received_by u (group_targets (w_hub_group sample_hub) (prefixed 5 sample_publish) sample_hub) @
          received_by u (group_targets 1 sample_publish sample_hub))" by blast
  from q [of "GroupCenter 0"] q [of "GroupCenter 1"] w' show ?thesis
    by (auto simp: hub group_targets_def topic hub(3) [of "GroupCenter _", simplified])
qed

end
