(* ===== verification/Conn_Refinement.thy ===== *)
theory Conn_Refinement
  imports Group_Rooms Tcp_Conn Websocket_Conn
begin

text \<open>
  The connection as the clients' world has it (a queue of slices by reference, with a result
  for every SendMessage) refines the connections of tcp_conn.go and websocket_conn.go: each
  step is one that their selects allow, on what both have in common.
\<close>

subsection \<open>What a connection has in common with its object in the clients' world\<close>

type_synonym conn_view = "conn_kind \<times> string \<times> bytes list \<times> bool"

definition conn_view :: "buffers \<Rightarrow> conn_obj \<Rightarrow> conn_view" where
  "conn_view bufs x = (ic_kind x, ic_addr x, map bufs (ic_queue x), ic_closed x)"

definition tcp_view :: "('f, 'v) tcp_conn \<Rightarrow> conn_view" where
  "tcp_view c = (TcpKind, tc_remote c, tc_txQueue c, tc_ctxDone c)"

definition ws_view :: "('f, 'v) websocket_conn \<Rightarrow> conn_view" where
  "ws_view c = (WebsocketKind, ws_remote c, ws_txQueue c, ws_ctxDone c)"

text \<open>
  SendMessage of IConn on the view: a closed connection drops the message, an open one queues
  it while there is room, and the kind decides how a refusal is reported.
\<close>

fun view_send :: "bytes \<Rightarrow> conn_view \<Rightarrow> send_error option \<times> conn_view" where
  "view_send m (kd, addr, q, closed) =
     (if closed \<and> kd \<noteq> FakeUdpKind then (if kd = WebsocketKind then Some ConnClosed else None, kd, addr, q, closed)
      else if length q < 100 then (None, kd, addr, q @ [m], closed)
      else (if kd = WebsocketKind then None else Some (TxQueueFull addr), kd, addr, q, closed))"

fun view_sends :: "bytes list \<Rightarrow> conn_view \<Rightarrow> send_error option list \<times> conn_view" where
  "view_sends [] v = ([], v)"
| "view_sends (m # ms) v =
     (case view_send m v of (e, v1) \<Rightarrow> (case view_sends ms v1 of (es, v2) \<Rightarrow> (e # es, v2)))"

fun send_slices :: "nat \<Rightarrow> nat list \<Rightarrow> 'k world \<Rightarrow> send_error option list \<times> 'k world" where
  "send_slices k [] w = ([], w)"
| "send_slices k (b # bs) w =
     (case conn_SendMessage k b w of (e, w1) \<Rightarrow> (case send_slices k bs w1 of (es, w2) \<Rightarrow> (e # es, w2)))"

lemma conn_SendMessage_bufs: "conn_SendMessage k b w = (e, w') \<Longrightarrow> w_bufs w' = w_bufs w"
  by (auto simp: conn_SendMessage_def upd_conn_def Let_def split: if_splits)

lemma conn_SendMessage_view:
  "conn_SendMessage k b w = (e, w') \<Longrightarrow>
     view_send (w_bufs w b) (conn_view (w_bufs w) (w_conns w k)) = (e, conn_view (w_bufs w') (w_conns w' k))"
  by (auto simp: conn_SendMessage_def conn_view_def upd_conn_def Let_def split: if_splits)

lemma send_slices_view:
  "send_slices k bs w = (es, w') \<Longrightarrow>
     view_sends (map (w_bufs w) bs) (conn_view (w_bufs w) (w_conns w k)) = (es, conn_view (w_bufs w') (w_conns w' k))"
proof (induction bs arbitrary: w es)
  case (Cons b bs)
  obtain e w1 es1 where w1: "conn_SendMessage k b w = (e, w1)" and es1: "send_slices k bs w1 = (es1, w')" "es = e # es1"
    using Cons.prems by (auto split: prod.splits)
  from Cons.IH [OF es1(1)] show ?case
    by (simp add: conn_SendMessage_view [OF w1] conn_SendMessage_bufs [OF w1] es1(2))
qed simp

subsection \<open>The contract of the two connections\<close>

text \<open>
  A sequence of sendings through a connection, with the results of each: every outcome its
  selects allow. Some run, and every run, has these results and ends in this view.
\<close>

fun send_all :: "(bytes \<Rightarrow> 'c \<Rightarrow> (send_error option \<times> 'c) list) \<Rightarrow> bytes list \<Rightarrow> 'c \<Rightarrow> (send_error option list \<times> 'c) list" where
  "send_all send [] c = [([], c)]"
| "send_all send (m # ms) c = concat (map (\<lambda>(e, c'). map (\<lambda>(es, c2). (e # es, c2)) (send_all send ms c')) (send m c))"

definition some_run :: "(bytes \<Rightarrow> 'c \<Rightarrow> (send_error option \<times> 'c) list) \<Rightarrow> ('c \<Rightarrow> conn_view) \<Rightarrow> 'c \<Rightarrow> bytes list
    \<Rightarrow> send_error option list \<Rightarrow> conn_view \<Rightarrow> bool" where
  "some_run send view c ms es v \<longleftrightarrow> list_ex (\<lambda>(fs, c'). fs = es \<and> view c' = v) (send_all send ms c)"

definition every_run :: "(bytes \<Rightarrow> 'c \<Rightarrow> (send_error option \<times> 'c) list) \<Rightarrow> ('c \<Rightarrow> conn_view) \<Rightarrow> 'c \<Rightarrow> bytes list
    \<Rightarrow> send_error option list \<Rightarrow> conn_view \<Rightarrow> bool" where
  "every_run send view c ms es v \<longleftrightarrow> list_all (\<lambda>(fs, c'). fs = es \<and> view c' = v) (send_all send ms c)"

text \<open>
  A connection allows the step of its view, with the same result, and while it is open it
  allows no other.
\<close>

locale sending_conn =
  fixes send :: "bytes \<Rightarrow> 'c \<Rightarrow> (send_error option \<times> 'c) list" and view :: "'c \<Rightarrow> conn_view"
  assumes matched: "view_send m (view c) = (e, v) \<Longrightarrow> \<exists>c'. (e, c') \<in> set (send m c) \<and> view c' = v"
    and open_determined: "view c = (kd, addr, q, False) \<Longrightarrow> (e, c') \<in> set (send m c) \<Longrightarrow> view_send m (view c) = (e, view c')"
begin

lemma matched_all: "view_sends ms (view c) = (es, v) \<Longrightarrow> \<exists>c'. (es, c') \<in> set (send_all send ms c) \<and> view c' = v"
proof (induction ms arbitrary: c es)
  case (Cons m ms)
  obtain e v1 es1 where v1: "view_send m (view c) = (e, v1)" and es1: "view_sends ms v1 = (es1, v)" "es = e # es1"
    using Cons.prems by (auto split: prod.splits)
  obtain c1 where c1: "(e, c1) \<in> set (send m c)" "view c1 = v1" using matched [OF v1] by blast
  from Cons.IH [of c1 es1] es1(1) c1(2) obtain c' where "(es1, c') \<in> set (send_all send ms c1)" "view c' = v" by blast
  with c1(1) es1(2) show ?case by force
qed simp

lemma view_send_open: "view_send m (kd, addr, q, False) = (e, v) \<Longrightarrow> \<exists>q'. v = (kd, addr, q', False)"
  by (auto split: if_splits)

lemma determined_all:
  "view c = (kd, addr, q, False) \<Longrightarrow> (es, c') \<in> set (send_all send ms c) \<Longrightarrow> view_sends ms (view c) = (es, view c')"
proof (induction ms arbitrary: c q es)
  case (Cons m ms)
  obtain e c1 es1 where c1: "(e, c1) \<in> set (send m c)" and es1: "(es1, c') \<in> set (send_all send ms c1)" "es = e # es1"
    using Cons.prems(2) by auto
  have v1: "view_send m (view c) = (e, view c1)" by (rule open_determined [OF Cons.prems(1) c1])
  then obtain q1 where "view c1 = (kd, addr, q1, False)" using view_send_open Cons.prems(1) by metis
  from Cons.IH [OF this es1(1)] show ?case by (simp only: view_sends.simps v1 es1(2) prod.case)
qed simp

lemma slices_allowed:
  assumes "send_slices k bs w = (es, w')" "conn_view (w_bufs w) (w_conns w k) = view c"
  shows "some_run send view c (map (w_bufs w) bs) es (conn_view (w_bufs w') (w_conns w' k))"
proof -
  have "view_sends (map (w_bufs w) bs) (view c) = (es, conn_view (w_bufs w') (w_conns w' k))"
    using send_slices_view [OF assms(1)] by (simp only: assms(2))
  from matched_all [OF this] show ?thesis unfolding some_run_def list_ex_iff by blast
qed

lemma slices_forced:
  assumes "send_slices k bs w = (es, w')" "conn_view (w_bufs w) (w_conns w k) = view c" "\<not> ic_closed (w_conns w k)"
  shows "every_run send view c (map (w_bufs w) bs) es (conn_view (w_bufs w') (w_conns w' k))"
proof -
  have o: "view c = (ic_kind (w_conns w k), ic_addr (w_conns w k), map (w_bufs w) (ic_queue (w_conns w k)), False)"
    using assms(2, 3) by (simp add: conn_view_def)
  show ?thesis unfolding every_run_def list_all_iff
  proof clarify
    fix fs c' assume "(fs, c') \<in> set (send_all send (map (w_bufs w) bs) c)"
    from determined_all [OF o this] show "fs = es \<and> view c' = conn_view (w_bufs w') (w_conns w' k)"
      using send_slices_view [OF assms(1)] assms(2) by simp
  qed
qed

end

interpretation tcp_sending: sending_conn TcpConn_SendMessage tcp_view
  by unfold_locales (auto simp: tcp_view_def TcpConn_SendMessage_def TcpConnTxQueueLen_def Let_def split: if_splits)

interpretation ws_sending: sending_conn WebsocketConn_SendMessage ws_view
  by unfold_locales (auto simp: ws_view_def WebsocketConn_SendMessage_def WebsocketTxQueueLen_def Let_def split: if_splits)

text \<open>
  C19: Whatever slices a client sends through its connection, the results and the queue are
  ones that TcpConn and WebsocketConn may produce for the same messages, and while the
  connection is open they can produce no others.
\<close>

theorem conn_objects_refine:
  assumes "send_slices k bs w = (es, w')"
  shows "(conn_view (w_bufs w) (w_conns w k) = tcp_view c \<longrightarrow>
      some_run TcpConn_SendMessage tcp_view c (map (w_bufs w) bs) es (conn_view (w_bufs w') (w_conns w' k)) \<and>
      (ic_closed (w_conns w k) \<or> every_run TcpConn_SendMessage tcp_view c (map (w_bufs w) bs) es (conn_view (w_bufs w') (w_conns w' k)))) \<and>
    (conn_view (w_bufs w) (w_conns w k) = ws_view d \<longrightarrow>
      some_run WebsocketConn_SendMessage ws_view d (map (w_bufs w) bs) es (conn_view (w_bufs w') (w_conns w' k)) \<and>
      (ic_closed (w_conns w k) \<or> every_run WebsocketConn_SendMessage ws_view d (map (w_bufs w) bs) es (conn_view (w_bufs w') (w_conns w' k))))"
  using tcp_sending.slices_allowed [OF assms] tcp_sending.slices_forced [OF assms]
    ws_sending.slices_allowed [OF assms] ws_sending.slices_forced [OF assms] by blast

text \<open>A connection with one place left: the second message is refused.\<close>

definition nearly_full :: "unit world" where
  "nearly_full = upd_conn 1 (\<lambda>x. x\<lparr>ic_kind := TcpKind, ic_addr := ''peer'', ic_queue := replicate 99 0, ic_closed := False\<rparr>)
     (New (\<lambda>y. NewCrypto ()) 0)"

lemma nearly_full_sends:
  "fst (send_slices 1 [0, 0] nearly_full) = [None, Some (TxQueueFull ''peer'')]"
  by (simp add: nearly_full_def conn_SendMessage_def upd_conn_def Let_def)

definition nearly_full_tcp :: "(nat, nat) tcp_conn" where
  "nearly_full_tcp = \<lparr>tc_ctxDone = False, tc_id = ''id'', tc_txQueue = replicate 99 (w_bufs nearly_full 0), tc_closeMu = False,
     tc_isClosed = False, tc_LoginData = [], tc_OnMessage = newEventTarget, tc_OnError = newEventTarget,
     tc_OnDisconnect = newEventTarget, tc_sockOpen = True, tc_remote = ''peer'', tc_properties = Map.empty\<rparr>"

theorem conn_objects_refine_witness:
  "\<exists>v. every_run TcpConn_SendMessage tcp_view nearly_full_tcp (map (w_bufs nearly_full) [0, 0])
     [None, Some (TxQueueFull ''peer'')] v"
proof -
  obtain es w' where s: "send_slices 1 [0, 0] nearly_full = (es, w')" by fastforce
  have es: "es = [None, Some (TxQueueFull ''peer'')]" using nearly_full_sends s by simp
  have v: "conn_view (w_bufs nearly_full) (w_conns nearly_full 1) = tcp_view nearly_full_tcp"
    by (simp add: conn_view_def tcp_view_def nearly_full_tcp_def nearly_full_def upd_conn_def)
  have "\<not> ic_closed (w_conns nearly_full 1)" by (simp add: nearly_full_def upd_conn_def)
  with conn_objects_refine [OF s, of nearly_full_tcp] v show ?thesis unfolding es by blast
qed

end
