(* ===== verification/Client_Lifecycle.thy ===== *)
theory Client_Lifecycle
  imports Group_Rooms
begin

text \<open>
  The life of a client: changeState, Dispose, closing its connection, the heartbeat tick of
  newClient's goroutine, and the hub's part in it: onClientLogin and the listener it adds to
  OnDispose (hub.go). The operations run listeners, and the listeners run operations: OnLogin
  runs onClientLogin, which disposes an older client, whose connection runs OnDisconnect,
  whose listener changes the state to DISCONNECT, which runs no listener. The definitions are
  in that order from the end.
\<close>

named_theorems life_simps "what the parts of the world are after the operations"

subsection \<open>States\<close>

text \<open>
  The state a change really leads to: without a Crypto object the exchange of secrets is
  skipped, without NeedLogin the login is.
\<close>

fun settle :: "client_options \<Rightarrow> client_state \<Rightarrow> client_state" where
  "settle o1 CONNECTED =
     (if co_Crypto o1 = None then (if \<not> co_NeedLogin o1 then LOGINED else EXCHANGED_SECRET) else CONNECTED)"
| "settle o1 EXCHANGED_SECRET = (if \<not> co_NeedLogin o1 then LOGINED else EXCHANGED_SECRET)"
| "settle o1 s = s"

text \<open>The Swap, and whether OnLogin is raised.\<close>

definition swap_state :: "nat \<Rightarrow> client_state \<Rightarrow> 'k world \<Rightarrow> bool \<times> 'k world" where
  "swap_state c s w =
     (let cl = w_clients w c; st = settle (cl_options cl) s
      in (cl_state cl \<noteq> st \<and> st = LOGINED, upd_client c (\<lambda>x. x\<lparr>cl_state := st\<rparr>) w))"

text \<open>Changing to DISCONNECT raises nothing.\<close>

definition enter_disconnect :: "nat \<Rightarrow> 'k world \<Rightarrow> 'k world" where
  "enter_disconnect c w = snd (swap_state c DISCONNECT w)"

subsection \<open>Clearing the subscriptions\<close>

text \<open>
  ClearAllSubTopics waits when its channel, of one place, is full. The scheduler says whether
  the center's goroutine, as long as it runs, took the waiting request by then; a Block is a
  send that waits in this schedule, and it waits for ever once the goroutine has stopped.
\<close>

type_synonym 'k sched = "nat \<Rightarrow> 'k world \<Rightarrow> bool"

definition take_clear :: "'cb pubsub \<Rightarrow> 'cb pubsub" where
  "take_clear p =
     (if ps_running p \<and> ps_clearCh p \<noteq> [] then p\<lparr>ps_clearCh := tl (ps_clearCh p), ps_listeners := []\<rparr> else p)"

lemma take_clear_turn:
  "take_clear p \<noteq> p \<Longrightarrow> loop_step (cnt, p) [] (cnt, take_clear p)"
  by (cases "ps_clearCh p") (auto simp: take_clear_def loop_step.loop_clear split: if_splits)

definition client_clear :: "'k sched \<Rightarrow> nat \<Rightarrow> 'k world \<Rightarrow> 'k world outcome" where
  "client_clear sched c w =
     (let p = cl_PubSub (w_clients w c)
      in and_then (ClearAllSubTopics (if sched c w then take_clear p else p))
           (\<lambda>p'. Done (upd_client c (\<lambda>x. x\<lparr>cl_PubSub := p'\<rparr>) w)))"

subsection \<open>Closing a connection\<close>

text \<open>
  What the listeners of OnDisconnect do: the hub's (hub.go 157-160, 194-197), the server's
  handleClientDisconnect, and those of reconnecting clients, which sleep three seconds and
  start tryConn again; the one of a UDP client leaves the state alone.
\<close>

definition handleClientDisconnect :: "nat \<Rightarrow> 'k world \<Rightarrow> 'k world" where
  [simp]: "handleClientDisconnect k w =
     w\<lparr>w_server_conns := w_server_conns w - {k},
       w_user := w_user w @ (if w_OnClientDisconnect w then [DisconnectCall k] else [])\<rparr>"

fun run_disconnect :: "'k sched \<Rightarrow> (disconnect_listener, 'k world) runner" where
  "run_disconnect sched (ServerDisconnect c) ev w =
     and_then (client_clear sched c w) (\<lambda>w1. Done (enter_disconnect c w1))"
| "run_disconnect sched (ServerForget k) ev w = Done (handleClientDisconnect k w)"
| "run_disconnect sched (Reconnect c) ev w =
     and_then (client_clear sched c (enter_disconnect c w))
       (\<lambda>w1. Done (w1\<lparr>w_now := w_now w1 + 3000, w_dials := w_dials w1 @ [c]\<rparr>))"
| "run_disconnect sched (ReconnectUdp c) ev w =
     and_then (client_clear sched c w) (\<lambda>w1. Done (w1\<lparr>w_now := w_now w1 + 3000, w_dials := w_dials w1 @ [c]\<rparr>))"
| "run_disconnect sched (UserDisconnect n) ev w = Done (w\<lparr>w_user := w_user w @ [EventCall n]\<rparr>)"

text \<open>
  Close of the three connections: TcpConn and WebsocketConn raise OnDisconnect under their
  mutex, fakeUdpConn only sets its flag.
\<close>

definition conn_shut :: "nat \<Rightarrow> 'k world \<Rightarrow> 'k world" where
  "conn_shut k w = upd_conn k (\<lambda>x. x\<lparr>ic_locked := True, ic_closed := True\<rparr>) w"

definition conn_unlock :: "nat \<Rightarrow> 'k world \<Rightarrow> 'k world" where
  "conn_unlock k w = upd_conn k (\<lambda>x. x\<lparr>ic_locked := False\<rparr>) w"

definition conn_close :: "nat \<Rightarrow> (disconnect_listener, 'k world) runner \<Rightarrow> 'k world \<Rightarrow> 'k world outcome" where
  "conn_close k run w =
     (let x = w_conns w k in
      if ic_kind x = FakeUdpKind then Done (upd_conn k (\<lambda>x. x\<lparr>ic_closed := True\<rparr>) w)
      else if ic_locked x then Block
      else if ic_closed x then Done w
      else and_then (rise run DisconnectEvent (ic_OnDisconnect x) (conn_shut k w)) (\<lambda>w'. Done (conn_unlock k w')))"

definition conn_Close :: "'k sched \<Rightarrow> nat \<Rightarrow> 'k world \<Rightarrow> 'k world outcome" where
  "conn_Close sched k w = conn_close k (run_disconnect sched) w"

definition conn_IsClosed :: "nat \<Rightarrow> 'k world \<Rightarrow> bool outcome" where
  "conn_IsClosed k w =
     (let x = w_conns w k in
      if ic_kind x \<noteq> FakeUdpKind \<and> ic_locked x then Block else Done (ic_closed x))"

subsection \<open>Dispose\<close>

text \<open>The listener that onClientLogin adds to OnDispose.\<close>

definition hub_forget :: "nat \<Rightarrow> 'k world \<Rightarrow> 'k world" where
  "hub_forget c w =
     (let cl = w_clients w c; w1 = RemoveClient (cl_ClientId cl) w
      in case cl_GroupId cl of
           Some i \<Rightarrow> (case FindOrCreateGroup i w1 of (g, w2) \<Rightarrow> Group_RemoveClient g (cl_ClientId cl) w2)
         | None \<Rightarrow> Group_RemoveClient (w_hub_group w1) (cl_ClientId cl) w1)"

fun run_dispose :: "dispose_listener \<Rightarrow> 'k world \<Rightarrow> 'k world outcome" where
  "run_dispose (HubDispose c) w = Done (hub_forget c w)"
| "run_dispose (UserDispose n) w = Done (w\<lparr>w_user := w_user w @ [EventCall n]\<rparr>)"

text \<open>cancel ends the goroutine of the client and of its center, and the calls that watch the context.\<close>

definition client_cancel :: "nat \<Rightarrow> 'k world \<Rightarrow> 'k world" where
  "client_cancel c w = upd_client c (\<lambda>x. x\<lparr>cl_ctxDone := True, cl_PubSub := ps_cancel (cl_PubSub x),
     cl_pending := pn_cancel (cl_pending x)\<rparr>) w"

definition Dispose :: "'k sched \<Rightarrow> nat \<Rightarrow> 'k world \<Rightarrow> 'k world outcome" where
  "Dispose sched c w =
     (if cl_beDisposed (w_clients w c) then Done w
      else
        (let w1 = client_cancel c (upd_client c (\<lambda>x. x\<lparr>cl_beDisposed := True\<rparr>) w)
         in and_then (client_clear sched c w1) (\<lambda>w2.
              case cl_conn (w_clients w2 c) of
                None \<Rightarrow> Panic ''nil pointer dereference''
              | Some k \<Rightarrow>
                  and_then (conn_Close sched k w2)
                    (\<lambda>w3. RiseEvent run_dispose (cl_OnDispose (w_clients w3 c)) w3))))"

subsection \<open>Login\<close>

definition join_group :: "nat \<Rightarrow> 'k world \<Rightarrow> 'k world" where
  "join_group c w =
     (case cl_GroupId (w_clients w c) of
        Some i \<Rightarrow> (case FindOrCreateGroup i w of (g, w1) \<Rightarrow> Group_AddClient g c w1)
      | None \<Rightarrow> Group_AddClient (w_hub_group w) c w)"

definition onClientLogin :: "'k sched \<Rightarrow> nat \<Rightarrow> 'k world \<Rightarrow> 'k world outcome" where
  "onClientLogin sched c w =
     (case sm_load_and_delete (cl_ClientId (w_clients w c)) (w_hub_clients w) of
        (old, m) \<Rightarrow>
          and_then (case old of None \<Rightarrow> Done w | Some d \<Rightarrow> Dispose sched d (w\<lparr>w_hub_clients := m\<rparr>))
            (\<lambda>w1. Done (upd_client c (\<lambda>x. x\<lparr>cl_OnDispose := AddEventListener (HubDispose c) (cl_OnDispose x)\<rparr>)
               (join_group c (AddClient c w1)))))"

fun run_login :: "'k sched \<Rightarrow> login_listener \<Rightarrow> 'k world \<Rightarrow> 'k world outcome" where
  "run_login sched (HubLogin c) w = onClientLogin sched c w"
| "run_login sched (UserLogin n) w = Done (w\<lparr>w_user := w_user w @ [EventCall n]\<rparr>)"

definition changeState :: "'k sched \<Rightarrow> nat \<Rightarrow> client_state \<Rightarrow> 'k world \<Rightarrow> 'k world outcome" where
  "changeState sched c s w =
     (case swap_state c s w of (raise, w1) \<Rightarrow>
        if raise then RiseEvent (run_login sched) (cl_OnLogin (w_clients w1 c)) w1 else Done w1)"

lemma changeState_disconnect: "changeState sched c DISCONNECT w = Done (enter_disconnect c w)"
  by (simp add: changeState_def enter_disconnect_def swap_state_def Let_def)

subsection \<open>The tick\<close>

text \<open>
  One case of the ticker: a heartbeat when the client is logged in and sent nothing for three
  tenths of HeartbeatTimeout; the end when it received nothing for the whole of it. A client
  closes its connection, so that it connects anew; a server's client is disposed.
\<close>

definition idle_tx :: "client \<Rightarrow> nat \<Rightarrow> bool" where
  "idle_tx cl now =
     (case cl_lastTxTime cl of None \<Rightarrow> True | Some t \<Rightarrow> now - t > co_HeartbeatTimeout (cl_options cl) * 3 div 10)"

definition tick :: "'k sched \<Rightarrow> nat \<Rightarrow> 'k world \<Rightarrow> 'k world outcome" where
  "tick sched c w =
     (let cl = w_clients w c in
      and_then
        (if cl_state cl = LOGINED \<and> idle_tx cl (w_now w)
         then and_then (SendPacket c (HeartbeatPacket []) w) (\<lambda>(e, w1). Done w1)
         else Done w)
        (\<lambda>w1. let cl = w_clients w1 c in
           if w_now w1 - cl_lastRxTime cl > co_HeartbeatTimeout (cl_options cl)
           then
             (if cl_beClient cl
              then (case cl_conn cl of
                      None \<Rightarrow> Done w1
                    | Some k \<Rightarrow> and_then (conn_IsClosed k w1) (\<lambda>b. if b then Done w1 else conn_Close sched k w1))
              else Dispose sched c w1)
           else Done w1))"

subsection \<open>What the operations leave alone\<close>

lemma upd_client_parts [simp]:
  "w_conns (upd_client c f w) = w_conns w" "w_hub_clients (upd_client c f w) = w_hub_clients w"
  "w_hub_buckets (upd_client c f w) = w_hub_buckets w" "w_groups (upd_client c f w) = w_groups w"
  "w_hub_group (upd_client c f w) = w_hub_group w" "w_ngroups (upd_client c f w) = w_ngroups w"
  "w_clients (upd_client c f w) d = (if d = c then f (w_clients w c) else w_clients w d)"
  by (simp_all add: upd_client_def)

lemma upd_conn_parts [simp]:
  "w_clients (upd_conn k f w) = w_clients w" "w_hub_clients (upd_conn k f w) = w_hub_clients w"
  "w_hub_buckets (upd_conn k f w) = w_hub_buckets w" "w_groups (upd_conn k f w) = w_groups w"
  "w_hub_group (upd_conn k f w) = w_hub_group w" "w_ngroups (upd_conn k f w) = w_ngroups w"
  "w_conns (upd_conn k f w) j = (if j = k then f (w_conns w k) else w_conns w j)"
  by (simp_all add: upd_conn_def)

lemma upd_group_parts [simp]:
  "w_clients (upd_group g f w) = w_clients w" "w_conns (upd_group g f w) = w_conns w"
  "w_hub_clients (upd_group g f w) = w_hub_clients w" "w_hub_buckets (upd_group g f w) = w_hub_buckets w"
  "w_hub_group (upd_group g f w) = w_hub_group w" "w_ngroups (upd_group g f w) = w_ngroups w"
  "w_groups (upd_group g f w) h = (if h = g then f (w_groups w g) else w_groups w h)"
  by (simp_all add: upd_group_def)

lemma FindOrCreateGroup_parts [simp]:
  "w_clients (snd (FindOrCreateGroup i w)) = w_clients w" "w_conns (snd (FindOrCreateGroup i w)) = w_conns w"
  "w_hub_clients (snd (FindOrCreateGroup i w)) = w_hub_clients w" "w_hub_group (snd (FindOrCreateGroup i w)) = w_hub_group w"
  by (cases rule: FindOrCreateGroup_cases [of i w]; simp)+

text \<open>The group of a client: the one of its id, made if need be, or the hub's root.\<close>

definition home :: "nat \<Rightarrow> 'k world \<Rightarrow> nat \<times> 'k world" where
  "home c w = (case cl_GroupId (w_clients w c) of Some i \<Rightarrow> FindOrCreateGroup i w | None \<Rightarrow> (w_hub_group w, w))"

lemma home_parts [simp]:
  "w_clients (snd (home c w)) = w_clients w" "w_conns (snd (home c w)) = w_conns w"
  "w_hub_clients (snd (home c w)) = w_hub_clients w" "w_hub_group (snd (home c w)) = w_hub_group w"
  by (simp_all add: home_def split: option.splits)

lemma join_group_home: "join_group c w = Group_AddClient (fst (home c w)) c (snd (home c w))"
  by (simp add: join_group_def home_def split: option.splits prod.splits)

lemma hub_forget_home:
  "hub_forget c w = (let w1 = RemoveClient (cl_ClientId (w_clients w c)) w
     in Group_RemoveClient (fst (home c w1)) (cl_ClientId (w_clients w c)) (snd (home c w1)))"
  by (simp add: hub_forget_def home_def RemoveClient_def Let_def split: option.splits prod.splits)

lemma hub_forget_parts [simp]:
  "w_clients (hub_forget c w) = w_clients w" "w_conns (hub_forget c w) = w_conns w"
  "w_hub_clients (hub_forget c w) = sm_delete (cl_ClientId (w_clients w c)) (w_hub_clients w)"
  "w_hub_group (hub_forget c w) = w_hub_group w"
  by (simp_all add: hub_forget_home Group_RemoveClient_def RemoveClient_def Let_def)

lemma run_dispose_Done: "\<exists>w1. run_dispose l w = Done w1 \<and> w_clients w1 = w_clients w \<and> w_conns w1 = w_conns w"
  by (cases l) simp_all

lemma run_dispose_returns:
  "\<exists>w'. rise_listeners run_dispose ls w = Done w' \<and> w_clients w' = w_clients w \<and> w_conns w' = w_conns w"
proof (induction ls arbitrary: w)
  case (Cons l ls)
  from run_dispose_Done [of l w] obtain w1
    where w1: "run_dispose l w = Done w1" "w_clients w1 = w_clients w" "w_conns w1 = w_conns w" by blast
  from Cons.IH [of w1] w1 show ?case by simp
qed simp

lemma hub_forget_dials [simp]: "w_dials (hub_forget c w) = w_dials w"
proof -
  have "w_dials (snd (FindOrCreateGroup i v)) = w_dials v" for i and v :: "'a world"
    by (cases rule: FindOrCreateGroup_cases [of i v]) simp_all
  then show ?thesis
    by (simp add: hub_forget_home home_def Group_RemoveClient_def RemoveClient_def upd_group_def Let_def split: option.splits)
qed

lemma run_dispose_dials: "rise_listeners run_dispose ls w = Done w' \<Longrightarrow> w_dials w' = w_dials w"
proof (induction ls arbitrary: w)
  case (Cons l ls)
  then show ?case by (cases l) auto
qed simp

subsection \<open>A client of a server\<close>

text \<open>
  The client the hub makes for an accepted TCP or WebSocket connection: the connection's
  listeners are the server's and the hub's.
\<close>

definition server_client :: "nat \<Rightarrow> nat \<Rightarrow> 'k world \<Rightarrow> bool" where
  "server_client c k w \<longleftrightarrow> cl_conn (w_clients w c) = Some k \<and> \<not> cl_beClient (w_clients w c) \<and>
     ic_kind (w_conns w k) \<noteq> FakeUdpKind \<and>
     et_listeners (ic_OnDisconnect (w_conns w k)) = [ServerForget k, ServerDisconnect c]"

definition forget_conn :: "nat \<Rightarrow> 'k world \<Rightarrow> 'k world" where
  "forget_conn k w = w\<lparr>w_server_conns := w_server_conns w - {k},
     w_user := w_user w @ (if w_OnClientDisconnect w then [DisconnectCall k] else [])\<rparr>"

lemma forget_conn_parts [simp]:
  "w_clients (forget_conn k w) = w_clients w" "w_conns (forget_conn k w) = w_conns w"
  "w_hub_clients (forget_conn k w) = w_hub_clients w" "w_hub_buckets (forget_conn k w) = w_hub_buckets w"
  "w_groups (forget_conn k w) = w_groups w" "w_hub_group (forget_conn k w) = w_hub_group w"
  "w_ngroups (forget_conn k w) = w_ngroups w"
  by (simp_all add: forget_conn_def)

lemma server_close:
  assumes "server_client c k w" "\<not> ic_closed (w_conns w k)" "\<not> ic_locked (w_conns w k)"
  shows "conn_Close sched k w =
    and_then (client_clear sched c (forget_conn k (conn_shut k w))) (\<lambda>w1. Done (conn_unlock k (enter_disconnect c w1)))"
  using assms
  by (simp add: conn_Close_def conn_close_def server_client_def RiseEvent_def and_then_assoc Let_def
    flip: forget_conn_def)

lemma client_clear_free:
  "ps_clearCh (cl_PubSub (w_clients w c)) = [] \<Longrightarrow>
     client_clear sched c w = Done (upd_client c (\<lambda>x. x\<lparr>cl_PubSub := (cl_PubSub x)\<lparr>ps_clearCh := [()]\<rparr>\<rparr>) w)"
  by (auto simp: client_clear_def take_clear_def ClearAllSubTopics_def chan_send_def Let_def upd_client_def)

lemma client_clear_full:
  "ps_clearCh (cl_PubSub (w_clients w c)) = [()] \<Longrightarrow>
     client_clear sched c w =
       (if sched c w \<and> ps_running (cl_PubSub (w_clients w c))
        then Done (upd_client c (\<lambda>x. x\<lparr>cl_PubSub := (cl_PubSub x)\<lparr>ps_listeners := [], ps_clearCh := [()]\<rparr>\<rparr>) w)
        else Block)"
  by (auto simp: client_clear_def take_clear_def ClearAllSubTopics_def chan_send_def Let_def upd_client_def)

lemma server_dispose_cases:
  assumes "server_client c k w" "\<not> cl_beDisposed (w_clients w c)"
    and "\<not> ic_closed (w_conns w k)" "\<not> ic_locked (w_conns w k)"
    and "ps_clearCh (cl_PubSub (w_clients w c)) = []" and "\<And>v. sched c v = took"
  shows "(if took \<and> ps_running (cl_PubSub (w_clients w c))
          then \<exists>w'. Dispose sched c w = Done w' \<and> ic_closed (w_conns w' k) \<and> \<not> ic_locked (w_conns w' k) \<and>
                 cl_state (w_clients w' c) = DISCONNECT
          else Dispose sched c w = Block)"
proof -
  let ?w1 = "client_cancel c (upd_client c (\<lambda>x. x\<lparr>cl_beDisposed := True\<rparr>) w)"
  let ?w2 = "upd_client c (\<lambda>x. x\<lparr>cl_PubSub := (cl_PubSub x)\<lparr>ps_clearCh := [()]\<rparr>\<rparr>) ?w1"
  let ?p = "cl_PubSub (w_clients w c)"
  have first: "client_clear sched c ?w1 = Done ?w2"
    using assms(5) by (intro client_clear_free) (simp add: client_cancel_def ps_cancel_def)
  have sc: "server_client c k ?w2" "\<not> ic_closed (w_conns ?w2 k)" "\<not> ic_locked (w_conns ?w2 k)"
    using assms(1,3,4) by (simp_all add: server_client_def client_cancel_def)
  let ?v = "forget_conn k (conn_shut k ?w2)"
  have run: "ps_running (cl_PubSub (w_clients ?v c)) = ps_running ?p" and full: "ps_clearCh (cl_PubSub (w_clients ?v c)) = [()]"
    by (simp_all add: conn_shut_def client_cancel_def ps_cancel_def)
  have disp: "Dispose sched c w = and_then (conn_Close sched k ?w2)
      (\<lambda>w3. RiseEvent run_dispose (cl_OnDispose (w_clients w3 c)) w3)"
    using assms(1,2) first by (simp add: Dispose_def server_client_def client_cancel_def)
  show ?thesis
  proof (cases "took \<and> ps_running ?p")
    case True
    let ?w3 = "conn_unlock k (enter_disconnect c (upd_client c (\<lambda>x. x\<lparr>cl_PubSub := (cl_PubSub x)\<lparr>ps_listeners := [], ps_clearCh := [()]\<rparr>\<rparr>) ?v))"
    have "conn_Close sched k ?w2 = Done ?w3"
      using True unfolding server_close [OF sc] client_clear_full [OF full] run assms(6) by simp
    moreover obtain w' where "RiseEvent run_dispose (cl_OnDispose (w_clients ?w3 c)) ?w3 = Done w'"
      "w_clients w' = w_clients ?w3" "w_conns w' = w_conns ?w3"
      unfolding RiseEvent_def using run_dispose_returns by blast
    moreover have "ic_closed (w_conns ?w3 k)" "\<not> ic_locked (w_conns ?w3 k)" "cl_state (w_clients ?w3 c) = DISCONNECT"
      by (simp_all add: conn_unlock_def enter_disconnect_def swap_state_def conn_shut_def Let_def)
    ultimately show ?thesis using True disp by simp
  next
    case False
    then show ?thesis
      unfolding disp server_close [OF sc] client_clear_full [OF full] run assms(6) by auto
  qed
qed

lemma server_dispose_returns:
  assumes "server_client c k w" "\<not> cl_beDisposed (w_clients w c)"
    and "\<not> ic_closed (w_conns w k)" "\<not> ic_locked (w_conns w k)"
    and "ps_clearCh (cl_PubSub (w_clients w c)) = []" and "\<And>v. sched c v = took"
    and "took" and "ps_running (cl_PubSub (w_clients w c))"
  shows "\<exists>w'. Dispose sched c w = Done w'"
  using server_dispose_cases [where sched = sched and took = took, OF assms(1-6)] assms(7,8) by simp blast

text \<open>
  C26: Dispose of a server's client on an open connection clears the subscriptions twice, once
  itself and once through the listener of OnDisconnect, after it cancelled the context that
  the center's goroutine watches. It returns exactly when that goroutine takes the first
  request before the second; when the goroutine stops first, Dispose waits for ever, with the
  mutex of the connection locked.
\<close>

theorem dispose_needs_center:
  assumes "server_client c k w" "\<not> cl_beDisposed (w_clients w c)"
    and "\<not> ic_closed (w_conns w k)" "\<not> ic_locked (w_conns w k)"
    and "ps_clearCh (cl_PubSub (w_clients w c)) = []" and "\<And>v. sched c v = took"
  shows "(if took \<and> ps_running (cl_PubSub (w_clients w c))
          then \<exists>w'. Dispose sched c w = Done w' \<and> ic_closed (w_conns w' k) \<and> \<not> ic_locked (w_conns w' k) \<and>
                 cl_state (w_clients w' c) = DISCONNECT
          else Dispose sched c w = Block)"
  using assms by (rule server_dispose_cases)

subsection \<open>Who is registered\<close>

text \<open>
  What the registry depends on: the hub's tables and groups, and of each client the ids and
  the listeners of OnDispose. Closing connections and clearing subscriptions leave it alone.
\<close>

definition hub_part :: "'k world \<Rightarrow> (string \<rightharpoonup> nat) \<times> (int64 \<rightharpoonup> nat) \<times> (nat \<Rightarrow> group) \<times> nat \<times> nat \<times>
    (nat \<Rightarrow> string \<times> int64 option \<times> dispose_listener event_target)" where
  "hub_part w = (w_hub_clients w, w_hub_buckets w, w_groups w, w_hub_group w, w_ngroups w,
     \<lambda>c. (cl_ClientId (w_clients w c), cl_GroupId (w_clients w c), cl_OnDispose (w_clients w c)))"

lemma hub_partD:
  assumes "hub_part w' = hub_part w"
  shows "w_hub_clients w' = w_hub_clients w" "w_hub_buckets w' = w_hub_buckets w" "w_groups w' = w_groups w"
    "w_hub_group w' = w_hub_group w" "w_ngroups w' = w_ngroups w"
    "cl_ClientId (w_clients w' c) = cl_ClientId (w_clients w c)" "cl_GroupId (w_clients w' c) = cl_GroupId (w_clients w c)"
    "cl_OnDispose (w_clients w' c) = cl_OnDispose (w_clients w c)"
  using assms fun_cong [of _ _ c] by (auto simp: hub_part_def dest: fun_cong [of _ _ c])

lemma hub_part_upd_conn [simp]: "hub_part (upd_conn k f w) = hub_part w"
  by (simp add: hub_part_def)

lemma hub_part_upd_client:
  "(\<And>x. cl_ClientId (f x) = cl_ClientId x \<and> cl_GroupId (f x) = cl_GroupId x \<and> cl_OnDispose (f x) = cl_OnDispose x) \<Longrightarrow>
     hub_part (upd_client c f w) = hub_part w"
  by (auto simp: hub_part_def)

lemma hub_part_world [simp]:
  "hub_part (w\<lparr>w_user := u\<rparr>) = hub_part w" "hub_part (w\<lparr>w_dials := d\<rparr>) = hub_part w"
  "hub_part (w\<lparr>w_now := t\<rparr>) = hub_part w" "hub_part (w\<lparr>w_server_conns := k\<rparr>) = hub_part w"
  by (simp_all add: hub_part_def)

text \<open>What no operation of this theory undoes: being disposed. The two together, for Close.\<close>

definition kept :: "'k world \<Rightarrow> 'k world \<Rightarrow> bool" where
  "kept w w' \<longleftrightarrow> hub_part w' = hub_part w \<and>
     (\<forall>c. cl_beDisposed (w_clients w c) \<longrightarrow> cl_beDisposed (w_clients w' c))"

lemma kept_refl [simp]: "kept w w"
  by (simp add: kept_def)

lemma kept_trans: "kept u w \<Longrightarrow> kept w w' \<Longrightarrow> kept u w'"
  by (auto simp: kept_def)

lemma client_clear_kept: "client_clear sched c w = Done w' \<Longrightarrow> kept w w'"
  by (auto simp: client_clear_def outcome_simps kept_def Let_def hub_part_upd_client)

lemma enter_disconnect_kept: "kept w (enter_disconnect c w)"
  by (auto simp: enter_disconnect_def swap_state_def kept_def Let_def hub_part_upd_client)

lemma run_disconnect_kept: "run_disconnect sched l ev w = Done w' \<Longrightarrow> kept w w'"
proof (cases l)
  case (ServerDisconnect c)
  assume "run_disconnect sched l ev w = Done w'"
  with ServerDisconnect show ?thesis
    by (auto simp: outcome_simps intro: kept_trans client_clear_kept enter_disconnect_kept)
next
  case (Reconnect c)
  assume "run_disconnect sched l ev w = Done w'"
  with Reconnect obtain w1 where "client_clear sched c (enter_disconnect c w) = Done w1"
    and w': "w' = w1\<lparr>w_now := w_now w1 + 3000, w_dials := w_dials w1 @ [c]\<rparr>" by (auto simp: outcome_simps)
  then have "kept w w1" by (blast intro: kept_trans client_clear_kept enter_disconnect_kept)
  then show ?thesis by (simp add: kept_def w')
next
  case (ReconnectUdp c)
  assume "run_disconnect sched l ev w = Done w'"
  with ReconnectUdp show ?thesis by (auto simp: outcome_simps kept_def dest!: client_clear_kept)
qed (auto simp: kept_def)

lemma conn_Close_kept:
  assumes "conn_Close sched k w = Done w'"
  shows "kept w w'"
proof (cases "ic_kind (w_conns w k) = FakeUdpKind \<or> ic_closed (w_conns w k)")
  case True
  with assms show ?thesis by (auto simp: conn_Close_def conn_close_def kept_def Let_def split: if_splits)
next
  case False
  with assms obtain u where u: "rise (run_disconnect sched) DisconnectEvent (ic_OnDisconnect (w_conns w k)) (conn_shut k w) = Done u"
    and w': "w' = conn_unlock k u" by (auto simp: conn_Close_def conn_close_def Let_def outcome_simps split: if_splits)
  have "kept w u"
    by (rule rise_keeps [where run = "run_disconnect sched" and P = "kept w", OF _ u])
      (auto simp: keeps_def conn_shut_def intro: kept_trans run_disconnect_kept, simp add: kept_def)
  then show ?thesis by (simp add: w' conn_unlock_def kept_def)
qed

text \<open>The hub's listeners of OnDispose take the ids of their clients out of the table.\<close>

lemma run_dispose_registry:
  "rise_listeners run_dispose ls w = Done w' \<Longrightarrow>
     FindClient j w' = (if \<exists>e. HubDispose e \<in> set ls \<and> cl_ClientId (w_clients w e) = j then None else FindClient j w)"
proof (induction ls arbitrary: w)
  case (Cons l ls)
  then obtain w1 where w1: "run_dispose l w = Done w1" "rise_listeners run_dispose ls w1 = Done w'"
    by (auto simp: outcome_simps)
  from w1(1) Cons.IH [OF w1(2)] show ?case
    by (cases l) (auto simp: FindClient_def sync_map_defs)
qed simp

lemma Dispose_parts:
  assumes "Dispose sched c w = Done w'" and "\<not> cl_beDisposed (w_clients w c)"
  obtains w3 where "kept w w3" "cl_beDisposed (w_clients w3 c)"
    "rise_listeners run_dispose (et_listeners (cl_OnDispose (w_clients w c))) w3 = Done w'"
proof -
  let ?w1 = "client_cancel c (upd_client c (\<lambda>x. x\<lparr>cl_beDisposed := True\<rparr>) w)"
  from assms obtain w2 k w3 where w2: "client_clear sched c ?w1 = Done w2" and w3: "conn_Close sched k w2 = Done w3"
    and w': "rise_listeners run_dispose (et_listeners (cl_OnDispose (w_clients w3 c))) w3 = Done w'"
    by (auto simp: Dispose_def outcome_simps Let_def RiseEvent_def split: option.splits)
  have "kept w ?w1" by (simp add: kept_def client_cancel_def hub_part_upd_client)
  moreover have "kept ?w1 w3" using w2 w3 by (blast intro: kept_trans client_clear_kept conn_Close_kept)
  moreover have "cl_beDisposed (w_clients ?w1 c)" by (simp add: client_cancel_def)
  ultimately show thesis using that [of w3] w' hub_partD(8) [of w3 w c] by (auto simp: kept_def)
qed

lemma Dispose_registry:
  assumes "Dispose sched c w = Done w'"
  shows "FindClient j w' =
      (if \<not> cl_beDisposed (w_clients w c) \<and>
          (\<exists>e. HubDispose e \<in> set (et_listeners (cl_OnDispose (w_clients w c))) \<and> cl_ClientId (w_clients w e) = j)
       then None else FindClient j w)"
proof (cases "cl_beDisposed (w_clients w c)")
  case True
  with assms show ?thesis by (simp add: Dispose_def)
next
  case False
  from Dispose_parts [OF assms False] obtain w3 where w3: "kept w w3"
    "rise_listeners run_dispose (et_listeners (cl_OnDispose (w_clients w c))) w3 = Done w'" by blast
  note same = hub_partD [of w3 w, OF w3(1) [unfolded kept_def, THEN conjunct1]]
  show ?thesis using False unfolding run_dispose_registry [OF w3(2)] by (auto simp: same FindClient_def)
qed

lemma run_dispose_same:
  assumes "rise_listeners run_dispose ls w = Done w'"
  shows "w_clients w' = w_clients w" "w_conns w' = w_conns w"
  using run_dispose_returns [of ls w] assms by auto

lemma Dispose_disposed:
  assumes "Dispose sched c w = Done w'"
  shows "cl_beDisposed (w_clients w' c)"
proof (cases "cl_beDisposed (w_clients w c)")
  case True
  with assms show ?thesis by (simp add: Dispose_def)
next
  case False
  from Dispose_parts [OF assms False] show ?thesis by (metis run_dispose_same(1))
qed

lemma Dispose_ids:
  assumes "Dispose sched c w = Done w'"
  shows "cl_ClientId (w_clients w' d) = cl_ClientId (w_clients w d)" "cl_GroupId (w_clients w' d) = cl_GroupId (w_clients w d)"
    "cl_OnDispose (w_clients w' d) = cl_OnDispose (w_clients w d)"
proof -
  have "w_clients w' = w_clients w \<or> (\<exists>w3. kept w w3 \<and> w_clients w' = w_clients w3)"
    using Dispose_parts [OF assms] assms run_dispose_same(1) by (metis Dispose_def outcome.inject)
  then show "cl_ClientId (w_clients w' d) = cl_ClientId (w_clients w d)" "cl_GroupId (w_clients w' d) = cl_GroupId (w_clients w d)"
    "cl_OnDispose (w_clients w' d) = cl_OnDispose (w_clients w d)"
    by (auto simp: kept_def dest: hub_partD)
qed

text \<open>Whether a client is a member of the group its GroupId names, and which client it is.\<close>

definition member_of :: "nat \<Rightarrow> 'k world \<Rightarrow> nat option" where
  "member_of c w =
     (case cl_GroupId (w_clients w c) of
        None \<Rightarrow> Group_FindClient (w_hub_group w) (cl_ClientId (w_clients w c)) w
      | Some i \<Rightarrow> (case FindGroup i w of None \<Rightarrow> None | Some g \<Rightarrow> Group_FindClient g (cl_ClientId (w_clients w c)) w))"

lemma member_of_upd_client:
  "(\<And>x. cl_ClientId (f x) = cl_ClientId x \<and> cl_GroupId (f x) = cl_GroupId x) \<Longrightarrow>
     member_of c (upd_client d f w) = member_of c w"
  by (simp add: member_of_def FindGroup_def Group_FindClient_def split: option.splits)

lemma FindGroup_made: "FindOrCreateGroup i w = (g, w') \<Longrightarrow> FindGroup i w' = Some g"
  by (cases rule: FindOrCreateGroup_cases [of i w]) (auto simp: FindGroup_def sync_map_defs)

lemma Group_ops_parts [simp]:
  "FindGroup i (Group_RemoveClient g k w) = FindGroup i w" "FindGroup i (Group_AddClient g c w) = FindGroup i w"
  "w_hub_clients (Group_AddClient g c w) = w_hub_clients w"
  "Group_FindClient g k (Group_RemoveClient g k w) = None"
  "Group_FindClient g (cl_ClientId (w_clients w c)) (Group_AddClient g c w) = Some c"
  "w_clients (Group_AddClient g c w) = (w_clients w)(c := (w_clients w c)\<lparr>cl_Group := Some g\<rparr>)"
  "w_hub_group (Group_AddClient g c w) = w_hub_group w"
  by (auto simp: FindGroup_def Group_RemoveClient_def Group_AddClient_def Group_FindClient_def fun_eq_iff
    group_members.get_del_same group_members.get_put_same)

lemma Group_AddClient_finds:
  "cl_ClientId (w_clients w c) = k \<Longrightarrow> Group_FindClient g k (Group_AddClient g c w) = Some c"
  by auto

lemma hub_forget_member: "member_of c (hub_forget c w) = None"
proof (cases "cl_GroupId (w_clients w c)")
  case None
  then show ?thesis by (simp add: member_of_def) (simp add: hub_forget_def RemoveClient_def Let_def)
next
  case (Some i)
  let ?h = "FindOrCreateGroup i (RemoveClient (cl_ClientId (w_clients w c)) w)"
  have "FindGroup i (snd ?h) = Some (fst ?h)" by (rule FindGroup_made) simp
  moreover have "hub_forget c w = Group_RemoveClient (fst ?h) (cl_ClientId (w_clients w c)) (snd ?h)"
    using Some by (simp add: hub_forget_def Let_def split_def RemoveClient_def)
  ultimately show ?thesis using Some hub_forget_parts(1) [of c w] by (simp add: member_of_def)
qed


lemma onClientLogin_parts:
  assumes "onClientLogin sched c w = Done w'"
  obtains (fresh) "FindClient (cl_ClientId (w_clients w c)) w = None"
      "w' = upd_client c (\<lambda>x. x\<lparr>cl_OnDispose := AddEventListener (HubDispose c) (cl_OnDispose x)\<rparr>) (join_group c (AddClient c w))"
  | (taken) d w1 where "FindClient (cl_ClientId (w_clients w c)) w = Some d"
      "Dispose sched d (RemoveClient (cl_ClientId (w_clients w c)) w) = Done w1"
      "w' = upd_client c (\<lambda>x. x\<lparr>cl_OnDispose := AddEventListener (HubDispose c) (cl_OnDispose x)\<rparr>) (join_group c (AddClient c w1))"
  using assms
  by (auto simp: onClientLogin_def sync_map_defs FindClient_def RemoveClient_def outcome_simps split: option.splits)

lemma register_client:
  assumes "w' = upd_client c (\<lambda>x. x\<lparr>cl_OnDispose := AddEventListener (HubDispose c) (cl_OnDispose x)\<rparr>) (join_group c (AddClient c w))"
  shows "FindClient j w' = (if j = cl_ClientId (w_clients w c) then Some c else FindClient j w)"
    and "member_of c w' = Some c"
    and "cl_ClientId (w_clients w' d) = cl_ClientId (w_clients w d)"
    and "cl_beDisposed (w_clients w' d) = cl_beDisposed (w_clients w d)"
    and "cl_OnDispose (w_clients w' c) = AddEventListener (HubDispose c) (cl_OnDispose (w_clients w c))"
proof -
  have add: "w_clients (AddClient c w) = w_clients w" by (simp add: AddClient_def hub_client_defs)
  show "FindClient j w' = (if j = cl_ClientId (w_clients w c) then Some c else FindClient j w)"
    by (simp add: assms FindClient_def join_group_home sync_map_defs AddClient_def hub_put_def)
  show "cl_ClientId (w_clients w' d) = cl_ClientId (w_clients w d)"
    and "cl_beDisposed (w_clients w' d) = cl_beDisposed (w_clients w d)"
    and "cl_OnDispose (w_clients w' c) = AddEventListener (HubDispose c) (cl_OnDispose (w_clients w c))"
    by (simp_all add: assms join_group_home add)
  let ?h = "home c (AddClient c w)"
  have "member_of c w' = member_of c (Group_AddClient (fst ?h) c (snd ?h))"
    unfolding assms join_group_home by (rule member_of_upd_client) simp
  also have "\<dots> = Some c"
  proof (cases "cl_GroupId (w_clients w c)")
    case None
    then show ?thesis by (simp add: member_of_def home_def add Group_AddClient_finds)
  next
    case (Some i)
    have "FindGroup i (snd (FindOrCreateGroup i (AddClient c w))) = Some (fst (FindOrCreateGroup i (AddClient c w)))"
      by (rule FindGroup_made) simp
    with Some show ?thesis by (simp add: member_of_def home_def add Group_AddClient_finds)
  qed
  finally show "member_of c w' = Some c" .
qed

text \<open>
  C13: A login registers the client: the hub and its group find it under its id, every other id
  is found as before, and the client found under the id until then is disposed (when it is
  another one, whose only listener is the hub's).
\<close>

theorem login_takes_over:
  assumes "onClientLogin sched c w = Done w'"
    and "\<And>d. FindClient (cl_ClientId (w_clients w c)) w = Some d \<Longrightarrow>
      d \<noteq> c \<and> cl_ClientId (w_clients w d) = cl_ClientId (w_clients w c) \<and>
      et_listeners (cl_OnDispose (w_clients w d)) = [HubDispose d]"
  shows "FindClient (cl_ClientId (w_clients w c)) w' = Some c \<and> member_of c w' = Some c \<and>
    (\<forall>j. j \<noteq> cl_ClientId (w_clients w c) \<longrightarrow> FindClient j w' = FindClient j w) \<and>
    (\<forall>d. FindClient (cl_ClientId (w_clients w c)) w = Some d \<longrightarrow> cl_beDisposed (w_clients w' d))"
  using assms(1)
proof (cases rule: onClientLogin_parts)
  case fresh
  show ?thesis using fresh(1) by (simp add: register_client [OF fresh(2)])
next
  case (taken d w1)
  note old = assms(2) [OF taken(1)]
  have "FindClient j w1 = FindClient j w" if "j \<noteq> cl_ClientId (w_clients w c)" for j
    using that old unfolding Dispose_registry [OF taken(2)]
    by (auto simp: hub_clients.get_del RemoveClient_def FindClient_def sync_map_defs)
  moreover have "cl_ClientId (w_clients w1 c) = cl_ClientId (w_clients w c)"
    using Dispose_ids(1) [OF taken(2)] by (simp add: RemoveClient_def)
  ultimately show ?thesis
    using taken(1) Dispose_disposed [OF taken(2)] by (simp add: register_client [OF taken(3)])
qed

text \<open>
  C34: A client that is found under its id already when it logs in, which happens to a client
  that exchanges secrets and logs in once more on the same connection, disposes itself: it
  ends up disposed and registered.
\<close>

theorem second_login_disposes_itself:
  assumes "onClientLogin sched c w = Done w'" and "FindClient (cl_ClientId (w_clients w c)) w = Some c"
  shows "cl_beDisposed (w_clients w' c) \<and> FindClient (cl_ClientId (w_clients w' c)) w' = Some c"
  using assms(1)
proof (cases rule: onClientLogin_parts)
  case fresh
  then show ?thesis using assms(2) by simp
next
  case (taken d w1)
  have "d = c" using taken(1) assms(2) by simp
  then show ?thesis using Dispose_disposed [OF taken(2)] by (simp add: register_client [OF taken(3)])
qed

text \<open>
  Dispose takes a client out of the table under the id it has then. A registered client
  whose id was changed since (the login handler sets it at every login request) leaves its
  own entry behind and removes the entry of whoever is registered under the new id.
\<close>

theorem renamed_dispose_hits_other:
  assumes "Dispose sched c w = Done w'" and "\<not> cl_beDisposed (w_clients w c)"
    and "et_listeners (cl_OnDispose (w_clients w c)) = [HubDispose c]"
    and "FindClient i w = Some c" and "FindClient (cl_ClientId (w_clients w c)) w = Some d" and "i \<noteq> cl_ClientId (w_clients w c)"
  shows "FindClient i w' = Some c \<and> cl_beDisposed (w_clients w' c) \<and> FindClient (cl_ClientId (w_clients w c)) w' = None"
  using assms(2-6) Dispose_disposed [OF assms(1)] by (simp add: Dispose_registry [OF assms(1)])

subsection \<open>A small hub\<close>

text \<open>Two clients on accepted TCP connections; the first logs in, then the second under the same id.\<close>

definition sample_served :: "nat \<Rightarrow> string \<Rightarrow> 'k world \<Rightarrow> 'k world" where
  "sample_served c i w =
     set_client c ((newClient (Some c) (no_options\<lparr>co_NeedLogin := True\<rparr>) i (Suc c) 0)\<lparr>cl_state := EXCHANGED_SECRET\<rparr>)
       (upd_conn c (\<lambda>x. x\<lparr>ic_OnDisconnect := \<lparr>et_listeners = [ServerForget c, ServerDisconnect c]\<rparr>\<rparr>) w)"

definition sample_lobby :: "string \<Rightarrow> string \<Rightarrow> unit world" where
  "sample_lobby i j = sample_served 1 j (sample_served 0 i (New (\<lambda>y. NewCrypto ()) 0))"

lemma set_client_parts [simp]:
  "w_clients (set_client c x w) = (w_clients w)(c := x)" "w_conns (set_client c x w) = w_conns w"
  "w_hub_clients (set_client c x w) = w_hub_clients w"
  by (simp_all add: set_client_def)

lemma sample_lobby_parts [simp]:
  "cl_ClientId (w_clients (sample_lobby i j) 0) = i" "cl_ClientId (w_clients (sample_lobby i j) 1) = j"
  "cl_ClientId (w_clients (sample_lobby i j) (Suc 0)) = j"
  "cl_beDisposed (w_clients (sample_lobby i j) c) = False" "FindClient l (sample_lobby i j) = None"
  "et_listeners (cl_OnDispose (w_clients (sample_lobby i j) c)) = []"
  "ps_clearCh (cl_PubSub (w_clients (sample_lobby i j) c)) = []" "ps_running (cl_PubSub (w_clients (sample_lobby i j) c))"
  "ic_closed (w_conns (sample_lobby i j) k) = False" "ic_locked (w_conns (sample_lobby i j) k) = False"
  "server_client 0 0 (sample_lobby i j)" "server_client 1 1 (sample_lobby i j)"
  by (simp_all add: sample_lobby_def sample_served_def newClient_def newPubSub_def New_def newEventTarget_def
    FindClient_def sync_map_defs server_client_def)

theorem dispose_needs_center_witness:
  "Dispose (\<lambda>c w. False) 0 (sample_lobby ''a'' ''b'') = Block \<and>
   (\<exists>w'. Dispose (\<lambda>c w. True) 0 (sample_lobby ''a'' ''b'') = Done w' \<and> cl_state (w_clients w' 0) = DISCONNECT)"
  using dispose_needs_center [where w = "sample_lobby ''a'' ''b''" and c = 0 and k = 0 and sched = "\<lambda>c w. False" and took = False]
    dispose_needs_center [where w = "sample_lobby ''a'' ''b''" and c = 0 and k = 0 and sched = "\<lambda>c w. True" and took = True]
  by auto

text \<open>The first client of the sample after its login.\<close>

definition sample_first :: "string \<Rightarrow> string \<Rightarrow> unit world" where
  "sample_first i j = upd_client 0 (\<lambda>x. x\<lparr>cl_OnDispose := AddEventListener (HubDispose 0) (cl_OnDispose x)\<rparr>)
     (join_group 0 (AddClient 0 (sample_lobby i j)))"

lemma sample_first_login: "onClientLogin sched 0 (sample_lobby i j) = Done (sample_first i j)"
proof -
  have "w_hub_clients (sample_lobby i j) i = None"
    using sample_lobby_parts(5) [of i i j] by (simp add: FindClient_def sync_map_defs)
  then show ?thesis by (simp add: onClientLogin_def sync_map_defs sample_first_def)
qed

lemmas sample_first_registered = register_client [OF sample_first_def]

lemma sample_first_parts [simp]:
  "FindClient l (sample_first i j) = (if l = i then Some 0 else None)"
  "cl_ClientId (w_clients (sample_first i j) 0) = i" "cl_ClientId (w_clients (sample_first i j) 1) = j"
  "cl_ClientId (w_clients (sample_first i j) (Suc 0)) = j"
  "cl_beDisposed (w_clients (sample_first i j) c) = False"
  "et_listeners (cl_OnDispose (w_clients (sample_first i j) 0)) = [HubDispose 0]"
  by (simp_all add: sample_first_registered AddEventListener_def)

lemma sample_first_served:
  "server_client 0 0 (sample_first i j)" "ps_clearCh (cl_PubSub (w_clients (sample_first i j) 0)) = []"
  "ps_running (cl_PubSub (w_clients (sample_first i j) 0))"
  "ic_closed (w_conns (sample_first i j) k) = False" "ic_locked (w_conns (sample_first i j) k) = False"
proof -
  have c: "cl_conn (w_clients (sample_first i j) 0) = cl_conn (w_clients (sample_lobby i j) 0)"
    "cl_beClient (w_clients (sample_first i j) 0) = cl_beClient (w_clients (sample_lobby i j) 0)"
    "cl_PubSub (w_clients (sample_first i j) 0) = cl_PubSub (w_clients (sample_lobby i j) 0)"
    by (simp_all add: sample_first_def join_group_home AddClient_def hub_put_def)
  have k: "w_conns (sample_first i j) = w_conns (sample_lobby i j)"
    by (simp add: sample_first_def join_group_home AddClient_def hub_put_def Group_AddClient_def)
  show "server_client 0 0 (sample_first i j)"
    using sample_lobby_parts(11) [of i j] by (simp add: server_client_def c k)
qed (simp_all add: sample_first_def join_group_home AddClient_def hub_put_def Group_AddClient_def)


text \<open>The second client logs in under the id of the first.\<close>

lemma sample_takeover:
  "\<exists>w'. onClientLogin (\<lambda>c w. True) 1 (sample_first ''a'' ''a'') = Done w'"
proof -
  let ?s = "RemoveClient ''a'' (sample_first ''a'' ''a'')"
  have a: "server_client 0 0 ?s" "ps_clearCh (cl_PubSub (w_clients ?s 0)) = []"
    using sample_first_served [of "''a''" "''a''"] by (simp_all add: server_client_def RemoveClient_def)
  have "\<exists>w'. Dispose (\<lambda>c w. True) 0 ?s = Done w'"
    using server_dispose_returns [where sched = "\<lambda>c w. True" and took = True, OF a(1) _ _ _ a(2)] sample_first_served
    by (auto simp: RemoveClient_def)
  moreover have "w_hub_clients (sample_first ''a'' ''a'') ''a'' = Some 0"
    using sample_first_parts(1) [of "''a''" "''a''" "''a''"] by (simp add: FindClient_def sync_map_defs)
  ultimately show ?thesis
    by (auto simp: onClientLogin_def sync_map_defs RemoveClient_def)
qed

theorem login_takes_over_witness:
  "\<exists>w'. onClientLogin (\<lambda>c w. True) 1 (sample_first ''a'' ''a'') = Done w' \<and>
     FindClient ''a'' w' = Some 1 \<and> cl_beDisposed (w_clients w' 0)"
proof -
  obtain w' where w': "onClientLogin (\<lambda>c w. True) 1 (sample_first ''a'' ''a'') = Done w'"
    using sample_takeover by blast
  from login_takes_over [OF w'] w' show ?thesis by auto
qed

theorem second_login_disposes_itself_witness:
  "\<exists>w'. onClientLogin (\<lambda>c w. True) 0 (sample_first ''a'' ''b'') = Done w' \<and> cl_beDisposed (w_clients w' 0)"
proof -
  let ?s = "RemoveClient ''a'' (sample_first ''a'' ''b'')"
  have a: "server_client 0 0 ?s" "ps_clearCh (cl_PubSub (w_clients ?s 0)) = []"
    using sample_first_served [of "''a''" "''b''"] by (simp_all add: server_client_def RemoveClient_def)
  have "\<exists>w'. Dispose (\<lambda>c w. True) 0 ?s = Done w'"
    using server_dispose_returns [where sched = "\<lambda>c w. True" and took = True, OF a(1) _ _ _ a(2)] sample_first_served
    by (auto simp: RemoveClient_def)
  moreover have "w_hub_clients (sample_first ''a'' ''b'') ''a'' = Some 0"
    using sample_first_parts(1) [of "''a''" "''a''" "''b''"] by (simp add: FindClient_def sync_map_defs)
  ultimately obtain w' where w': "onClientLogin (\<lambda>c w. True) 0 (sample_first ''a'' ''b'') = Done w'"
    by (auto simp: onClientLogin_def sync_map_defs RemoveClient_def)
  from second_login_disposes_itself [OF w'] w' show ?thesis by simp
qed

text \<open>Client 0, registered as a, and client 1 as b; then client 0 gets the id b and is disposed.\<close>

theorem renamed_dispose_hits_other_witness:
  "\<exists>w w'. FindClient ''a'' w = Some 0 \<and> FindClient ''b'' w = Some 1 \<and>
     Dispose (\<lambda>c w. True) 0 (w :: unit world) = Done w' \<and> FindClient ''a'' w' = Some 0 \<and> FindClient ''b'' w' = None"
proof -
  let ?w = "upd_client 0 (\<lambda>x. x\<lparr>cl_ClientId := ''b''\<rparr>) (hub_put ''b'' 1 (sample_first ''a'' ''b''))"
  have a: "server_client 0 0 ?w" and c: "ps_clearCh (cl_PubSub (w_clients ?w 0)) = []"
    using sample_first_served [of "''a''" "''b''"] by (simp_all add: server_client_def hub_put_def)
  have reg: "FindClient ''a'' ?w = Some 0" "FindClient ''b'' ?w = Some 1"
    using sample_first_parts(1) [of "''a''" "''a''" "''b''"] by (simp_all add: FindClient_def hub_put_def sync_map_defs)
  obtain w' where w': "Dispose (\<lambda>c w. True) 0 ?w = Done w'"
    using server_dispose_returns [where sched = "\<lambda>c w. True" and took = True, OF a _ _ _ c] sample_first_served
      sample_first_parts(5) by (auto simp: hub_put_def)
  from renamed_dispose_hits_other [OF w', of "''a''" 1] reg w' sample_first_parts show ?thesis
    by (intro exI [of _ ?w] exI [of _ w']) (auto simp: hub_put_def)
qed

end
