(* ===== verification/Client_Handlers.thy ===== *)
theory Client_Handlers
  imports Client_Lifecycle
begin

text \<open>
  What a client does with what it receives (client.go): receiveMessage, which decrypts,
  decodes and admits packets by the state; the packet handlers the client's goroutine runs;
  the goroutines they start; and the two request handlers of the hub (hub.go). Handlers of the
  application and the elliptic curve are parameters.
\<close>

subsection \<open>Receiving\<close>

text \<open>Which packets a state admits: before the secrets are exchanged, before the login.\<close>

fun admits :: "client_state \<Rightarrow> inet_packet \<Rightarrow> bool" where
  "admits CONNECTED (RequestPacket r) = (rq_Method r = EXCHANGE_SECRET)"
| "admits CONNECTED (AckPacket a) = True"
| "admits CONNECTED (ResponsePacket r) = True"
| "admits CONNECTED p = False"
| "admits EXCHANGED_SECRET (RequestPacket r) = (rq_Method r = EXCHANGE_SECRET \<or> rq_Method r = LOGIN)"
| "admits EXCHANGED_SECRET (AckPacket a) = True"
| "admits EXCHANGED_SECRET (ResponsePacket r) = True"
| "admits EXCHANGED_SECRET p = False"
| "admits s p = True"

definition decode_buf :: "nat \<Rightarrow> nat \<Rightarrow> 'k world \<Rightarrow> 'k world outcome" where
  "decode_buf y b w =
     and_then (Decode b b (w_cryptos w y, w_bufs w))
       (\<lambda>(cr, st). Done (w\<lparr>w_cryptos := (w_cryptos w)(y := cr), w_bufs := st\<rparr>))"

definition decrypt_received :: "nat \<Rightarrow> nat \<Rightarrow> 'k world \<Rightarrow> 'k world outcome" where
  "decrypt_received c b w =
     (case (co_Crypto (cl_options (w_clients w c)), cl_state (w_clients w c)) of
        (Some y, EXCHANGED_SECRET) \<Rightarrow> decode_buf y b w
      | (Some y, LOGINED) \<Rightarrow> decode_buf y b w
      | _ \<Rightarrow> Done w)"

definition enqueue_packet :: "nat \<Rightarrow> packet \<Rightarrow> 'k world \<Rightarrow> 'k world outcome" where
  "enqueue_packet c pkt w =
     (let w1 = upd_client c (\<lambda>cl. cl\<lparr>cl_lastRxTime := w_now w\<rparr>) (w\<lparr>w_Enqueue := w_Enqueue w + 1\<rparr>)
      in and_then (chan_send RxQueueLen pkt (cl_rxQueue (w_clients w1 c)))
           (\<lambda>q. Done (upd_client c (\<lambda>cl. cl\<lparr>cl_rxQueue := q\<rparr>) w1)))"

definition receiveMessage :: "nat \<Rightarrow> nat \<Rightarrow> 'k world \<Rightarrow> 'k world outcome" where
  "receiveMessage c b w =
     and_then (decrypt_received c b w)
       (\<lambda>w1. case Unmarshal (w_bufs w1 b) of
          Inl e \<Rightarrow> Done w1
        | Inr p \<Rightarrow>
            if admits (cl_state (w_clients w1 c)) p
            then enqueue_packet c \<lparr>pk_RawData = b, pk_PacketType = TypeCode p, pk_PacketContent = p, pk_Client = c\<rparr> w1
            else Done w1)"

subsection \<open>Request handlers\<close>

text \<open>Application code: what its handlers return, and what they do to the world.\<close>

record 'k app =
  app_request :: "nat \<Rightarrow> request_packet \<Rightarrow> nat \<Rightarrow> 'k world \<Rightarrow> json go_run \<times> 'k world"
  app_stream :: "nat \<Rightarrow> stream_request_packet \<Rightarrow> nat \<Rightarrow> 'k world \<Rightarrow> unit go_run \<times> 'k world"

text \<open>LoginParams and ExchangeSecretParams.\<close>

fun dec_int64 :: "json \<Rightarrow> int64 option \<Rightarrow> int64 option option" where
  "dec_int64 (JNum l) cur = map_option (\<lambda>i. Some (word_of_int i)) (atoi l)"
| "dec_int64 JNull cur = Some None"
| "dec_int64 j cur = None"

record login_params =
  lp_BucketId :: "int64 option"
  lp_ClientId :: string

definition decode_login :: "bytes option \<Rightarrow> login_params option" where
  "decode_login params =
     (case json_parse (string_of_bytes (case params of None \<Rightarrow> [] | Some b \<Rightarrow> b)) of
        None \<Rightarrow> None
      | Some j \<Rightarrow> decode_struct j \<lparr>lp_BucketId = None, lp_ClientId = []\<rparr>
          (\<lambda>ms. case (decode_field ''bucket_id'' dec_int64 ms None, decode_field ''client_id'' dec_string ms []) of
                  (Some i, Some s) \<Rightarrow> Some \<lparr>lp_BucketId = i, lp_ClientId = s\<rparr>
                | _ \<Rightarrow> None))"

definition decode_exchange :: "bytes option \<Rightarrow> string option" where
  "decode_exchange params =
     (case json_parse (string_of_bytes (case params of None \<Rightarrow> [] | Some b \<Rightarrow> b)) of
        None \<Rightarrow> None
      | Some j \<Rightarrow> decode_struct j [] (\<lambda>ms. decode_field ''pub_key'' dec_string ms []))"

text \<open>
  The texts of the errors the library makes stand for themselves; those of the source are its
  UTF-8 bytes.
\<close>

definition no_method_text :: string where
  "no_method_text = utf8 [230, 151, 160, 230, 179, 149, 230, 137, 190, 229, 136, 176, 229, 175, 185, 229,
     186, 148, 230, 150, 185, 230, 179, 149]"
definition success_text :: string where "success_text = utf8 [230, 136, 144, 229, 138, 159]"
definition failure_text :: string where "failure_text = utf8 [229, 164, 177, 232, 180, 165]"
definition no_crypto_text :: string where
  "no_crypto_text = utf8 [230, 156, 170, 229, 144, 175, 231, 148, 168, 229, 138, 160, 229, 175, 134, 233,
     128, 154, 228, 191, 161]"
definition exchange_failed_text :: string where
  "exchange_failed_text = utf8 [228, 186, 164, 230, 141, 162, 229, 175, 134, 233, 146, 165, 229, 164, 177,
     232, 180, 165] @ '',secret'' @ utf8 [229, 135, 186, 233, 148, 153] @ '':''"

fun crypto_error_text :: "crypto_error \<Rightarrow> string" where
  "crypto_error_text BadBase64 = ''illegal base64 data''"
| "crypto_error_text BadPublicKey = ''invalid public key''"
| "crypto_error_text BadExchange = ''invalid exchange''"

definition login_handler :: "request_packet \<Rightarrow> nat \<Rightarrow> 'k world \<Rightarrow> json go_run \<times> 'k world" where
  "login_handler r c w =
     (case decode_login (rq_Params r) of
        None \<Rightarrow> (Returns (JStr failure_text) (Some ''json error''), w)
      | Some p \<Rightarrow>
          (Returns (JStr success_text) None,
           upd_client c (\<lambda>cl. cl\<lparr>cl_ClientId := lp_ClientId p, cl_GroupId := lp_BucketId p\<rparr>) w))"

definition exchange_handler :: "'k curve \<Rightarrow> request_packet \<Rightarrow> nat \<Rightarrow> 'k world \<Rightarrow> json go_run \<times> 'k world" where
  "exchange_handler E r c w =
     (case decode_exchange (rq_Params r) of
        None \<Rightarrow> (Returns JNull (Some ''params unmarshal err:json error''), w)
      | Some key \<Rightarrow>
          (case co_Crypto (cl_options (w_clients w c)) of
             None \<Rightarrow> (Returns JNull (Some no_crypto_text), w)
           | Some y \<Rightarrow>
               (case ComputeSecret E key (w_cryptos w y) of
                  (Inl e, cr) \<Rightarrow> (Returns JNull (Some (exchange_failed_text @ crypto_error_text e)),
                                   w\<lparr>w_cryptos := (w_cryptos w)(y := cr)\<rparr>)
                | (Inr pubkey, cr) \<Rightarrow> (Returns (JStr pubkey) None, w\<lparr>w_cryptos := (w_cryptos w)(y := cr)\<rparr>))))"

fun run_handler :: "'k app \<Rightarrow> 'k curve \<Rightarrow> request_handler \<Rightarrow> request_packet \<Rightarrow> nat \<Rightarrow> 'k world \<Rightarrow> json go_run \<times> 'k world" where
  "run_handler app E LoginHandler r c w = login_handler r c w"
| "run_handler app E ExchangeHandler r c w = exchange_handler E r c w"
| "run_handler app E (UserHandler n) r c w = app_request app n r c w"

text \<open>The response to a request: what its handler makes of it, under recover.\<close>

definition client_handler :: "nat \<Rightarrow> string \<Rightarrow> 'k world \<Rightarrow> request_handler option" where
  "client_handler c method w = findRequestHandler method (w_mgrs w (cl_handlerMgr (w_clients w c)))"

definition respond :: "'k app \<Rightarrow> 'k curve \<Rightarrow> nat \<Rightarrow> request_packet \<Rightarrow> 'k world \<Rightarrow> (response_packet \<times> 'k world) outcome" where
  "respond app E c r w =
     (let resp = \<lparr>rs_Id = rq_Id r, rs_Result = JNull, rs_Error = []\<rparr> in
      case client_handler c (rq_Method r) w of
        None \<Rightarrow> Done (resp\<lparr>rs_Error := no_method_text\<rparr>, w)
      | Some h \<Rightarrow>
          (case run_handler app E h r c w of
             (answer, w1) \<Rightarrow>
               and_then (execute_request JNull answer)
                 (\<lambda>(result, err). case err of
                    Some e \<Rightarrow> Done (resp\<lparr>rs_Error := e\<rparr>, w1)
                  | None \<Rightarrow> Done (resp\<lparr>rs_Result := result\<rparr>, w1))))"

subsection \<open>The packet handlers\<close>

definition spawn :: "nat \<Rightarrow> client_task \<Rightarrow> 'k world \<Rightarrow> 'k world" where
  "spawn c t w = upd_client c (\<lambda>cl. cl\<lparr>cl_tasks := cl_tasks cl @ [t]\<rparr>) w"

definition type_panic :: "'a outcome" where
  "type_panic = Panic ''interface conversion''"

text \<open>
  onReceiveRequest: a request with an id is acknowledged and, unless one with its id is being
  handled, executed by a goroutine of its own; one without an id is executed here, with no
  recover around it.
\<close>

definition onReceiveRequest :: "'k app \<Rightarrow> 'k curve \<Rightarrow> nat \<Rightarrow> packet \<Rightarrow> 'k world \<Rightarrow> 'k world outcome" where
  "onReceiveRequest app E c pkt w =
     (case pk_PacketContent pkt of
        RequestPacket r \<Rightarrow>
          if rq_Id r \<noteq> []
          then and_then (send_ack c (rq_Id r) w)
            (\<lambda>w1. if rq_Id r \<in> cl_handlingReq (w_clients w1 c) then Done w1
              else Done (spawn c (ExecRequest r)
                (upd_client c (\<lambda>cl. cl\<lparr>cl_handlingReq := insert (rq_Id r) (cl_handlingReq cl)\<rparr>) w1)))
          else
            (case client_handler c (rq_Method r) w of
               None \<Rightarrow> Done w
             | Some h \<Rightarrow>
                 (case run_handler app E h r (pk_Client pkt) w of
                    (answer, w1) \<Rightarrow> and_then (call_unprotected answer) (\<lambda>x. Done w1)))
      | _ \<Rightarrow> type_panic)"

text \<open>
  onReceiveResponse and onReceiveAck wake the waiting calls. A null result is the nil interface.
\<close>

definition result_of :: "json \<Rightarrow> json option" where
  "result_of j = (if j = JNull then None else Some j)"

definition onReceiveResponse :: "nat \<Rightarrow> packet \<Rightarrow> 'k world \<Rightarrow> 'k world outcome" where
  "onReceiveResponse c pkt w =
     (case pk_PacketContent pkt of
        ResponsePacket r \<Rightarrow>
          and_then (send_ack c (rs_Id r) w)
            (\<lambda>w1. and_then (receive_response (rs_Id r) (result_of (rs_Result r)) (rs_Error r) (cl_pending (w_clients w1 c)))
               (\<lambda>s. Done (upd_client c (\<lambda>cl. cl\<lparr>cl_pending := s\<rparr>) w1)))
      | _ \<Rightarrow> type_panic)"

definition onReceiveAck :: "nat \<Rightarrow> packet \<Rightarrow> 'k world \<Rightarrow> 'k world outcome" where
  "onReceiveAck c pkt w =
     (case pk_PacketContent pkt of
        AckPacket a \<Rightarrow>
          and_then (receive_ack (ak_Id a) (cl_pending (w_clients w c)))
            (\<lambda>s. Done (upd_client c (\<lambda>cl. cl\<lparr>cl_pending := s\<rparr>) w))
      | _ \<Rightarrow> type_panic)"

text \<open>A publication of a member goes to its group, under its id as the first level.\<close>

definition own_topic :: "client \<Rightarrow> publish_packet \<Rightarrow> publish_packet" where
  "own_topic cl r = r\<lparr>pb_Topic := cl_ClientId cl @ ''/'' @ pb_Topic r, pb_ClientId := cl_ClientId cl\<rparr>"

definition onReceivePublish :: "nat \<Rightarrow> packet \<Rightarrow> 'k world \<Rightarrow> 'k world outcome" where
  "onReceivePublish c pkt w =
     (case pk_PacketContent pkt of
        PublishPacket r \<Rightarrow>
          and_then (send_ack c (pb_Id r) w)
            (\<lambda>w1. case cl_Group (w_clients w1 c) of
               Some g \<Rightarrow> Group_PubTopic g (own_topic (w_clients w1 c) r) c w1
             | None \<Rightarrow> client_pub c r c w1)
      | _ \<Rightarrow> type_panic)"

definition onReceiveSubscribe :: "nat \<Rightarrow> packet \<Rightarrow> 'k world \<Rightarrow> 'k world outcome" where
  "onReceiveSubscribe c pkt w =
     (case pk_PacketContent pkt of
        SubscribePacket r \<Rightarrow>
          and_then (send_ack c (sb_Id r) w)
            (\<lambda>w1. and_then
               (SubTopic (NewTopicListener (sb_Topic r) (Some (RemoteSub c (sb_Attributes r)))) (cl_PubSub (w_clients w1 c)))
               (\<lambda>p. Done (upd_client c (\<lambda>cl. cl\<lparr>cl_PubSub := p\<rparr>) w1)))
      | _ \<Rightarrow> type_panic)"

text \<open>No type code leads to onReceiveUnsubscribe: UNSUBSCRIBE_PACKET has onReceiveSubscribe.\<close>

definition onReceiveUnsubscribe :: "nat \<Rightarrow> packet \<Rightarrow> 'k world \<Rightarrow> 'k world outcome" where
  "onReceiveUnsubscribe c pkt w =
     (case pk_PacketContent pkt of
        UnSubscribePacket r \<Rightarrow>
          and_then (send_ack c (sb_Id r) w)
            (\<lambda>w1. and_then (UnsubTopic (sb_Topic r) (cl_PubSub (w_clients w1 c)))
               (\<lambda>p. Done (upd_client c (\<lambda>cl. cl\<lparr>cl_PubSub := p\<rparr>) w1)))
      | _ \<Rightarrow> type_panic)"

text \<open>A broadcast is passed on as the slice it came in, decrypted in place by then.\<close>

definition onReceiveBroadcast :: "nat \<Rightarrow> packet \<Rightarrow> 'k world \<Rightarrow> 'k world outcome" where
  "onReceiveBroadcast c pkt w =
     (case pk_PacketContent pkt of
        BroadcastPacket r \<Rightarrow>
          and_then (send_ack c (pb_Id r) w)
            (\<lambda>w1. case cl_Group (w_clients w1 c) of
               Some g \<Rightarrow> Broadcast g (pk_RawData pkt) w1
             | None \<Rightarrow>
                 (case cl_OnBroadcast (w_clients w1 c) of
                    None \<Rightarrow> Done w1
                  | Some n \<Rightarrow> Done (w1\<lparr>w_user := w_user w1 @ [BroadcastCall n r]\<rparr>)))
      | _ \<Rightarrow> type_panic)"

text \<open>A stream: the first request starts its goroutine, all of them go to its channel.\<close>

definition onReceiveStreamRequest :: "nat \<Rightarrow> packet \<Rightarrow> 'k world \<Rightarrow> 'k world outcome" where
  "onReceiveStreamRequest c pkt w =
     (case pk_PacketContent pkt of
        StreamRequestRawPacket r \<Rightarrow>
          and_then (send_ack c (sr_Id r) w)
            (\<lambda>w1. case cl_handlingStream (w_clients w1 c) (sr_StreamId r) of
               Some s \<Rightarrow> stream_push s (StreamRequestRawPacket r) w1
             | None \<Rightarrow>
                 (case findStreamHandler (sr_Method r) (w_mgrs w1 (cl_handlerMgr (w_clients w1 c))) of
                    None \<Rightarrow> Done (spawn c (DirectSend (StreamClosePacket
                        \<lparr>sc_Id = [], sc_StreamId = sr_Id r, sc_Error = no_method_text\<rparr>)) w1)
                  | Some h \<Rightarrow>
                      (let s = w_nstreams w1;
                           w2 = upd_client c (\<lambda>cl. cl\<lparr>cl_handlingStream := (cl_handlingStream cl)(sr_StreamId r \<mapsto> s)\<rparr>)
                             (w1\<lparr>w_streams := (w_streams w1)(s := newStream (sr_StreamId r) c), w_nstreams := Suc s\<rparr>)
                       in and_then (stream_push s (StreamRequestRawPacket r) w2)
                            (\<lambda>w3. Done (spawn c (RunStream h r s) w3)))))
      | _ \<Rightarrow> type_panic)"

definition onReceiveStreamResponse :: "nat \<Rightarrow> packet \<Rightarrow> 'k world \<Rightarrow> 'k world outcome" where
  "onReceiveStreamResponse c pkt w =
     (case pk_PacketContent pkt of
        StreamResponsePacket r \<Rightarrow>
          and_then (send_ack c (sp_Id r) w)
            (\<lambda>w1. case cl_handlingStream (w_clients w1 c) (sp_StreamId r) of
               Some s \<Rightarrow> stream_push s (StreamResponsePacket r) w1
             | None \<Rightarrow> Done w1)
      | _ \<Rightarrow> type_panic)"

definition onReceiveCloseStream :: "nat \<Rightarrow> packet \<Rightarrow> 'k world \<Rightarrow> 'k world outcome" where
  "onReceiveCloseStream c pkt w =
     (case pk_PacketContent pkt of
        StreamClosePacket r \<Rightarrow>
          and_then (send_ack c (sc_Id r) w)
            (\<lambda>w1. case cl_handlingStream (w_clients w1 c) (sc_StreamId r) of
               Some s \<Rightarrow> stream_push s (StreamClosePacket r) w1
             | None \<Rightarrow> Done w1)
      | _ \<Rightarrow> type_panic)"

definition onReceivePing :: "nat \<Rightarrow> packet \<Rightarrow> 'k world \<Rightarrow> 'k world outcome" where
  "onReceivePing c pkt w =
     (case pk_PacketContent pkt of
        PingPacket s \<Rightarrow>
          (let w1 = (case cl_OnPingHandler (w_clients w c) of
                       None \<Rightarrow> w | Some n \<Rightarrow> w\<lparr>w_user := w_user w @ [PingCall n s]\<rparr>)
           in and_then (SendPacket c (PongPacket s) w1) (\<lambda>(e, w2). Done w2))
      | _ \<Rightarrow> type_panic)"

definition onReceivePong :: "nat \<Rightarrow> packet \<Rightarrow> 'k world \<Rightarrow> 'k world outcome" where
  "onReceivePong c pkt w =
     (case cl_OnPongHandler (w_clients w c) of
        None \<Rightarrow> Done w
      | Some n \<Rightarrow>
          (case pk_PacketContent pkt of
             PongPacket s \<Rightarrow> Done (w\<lparr>w_user := w_user w @ [PongCall n s]\<rparr>)
           | _ \<Rightarrow> type_panic))"

text \<open>The table packetHandler as newClient fills it, and one packet of the goroutine's loop.\<close>

definition packetHandler ::
    "'k app \<Rightarrow> 'k curve \<Rightarrow> nat \<Rightarrow> packet_type_code \<rightharpoonup> (packet \<Rightarrow> 'k world \<Rightarrow> 'k world outcome)" where
  "packetHandler app E c = map_of
     [(REQUEST_PACKET, onReceiveRequest app E c), (ACK_PACKET, onReceiveAck c),
      (RESPONSE_PACKET, onReceiveResponse c), (PUBLISH_PACKET, onReceivePublish c),
      (SUBSCRIBE_PACKET, onReceiveSubscribe c), (UNSUBSCRIBE_PACKET, onReceiveSubscribe c),
      (BROADCAST_PACKET, onReceiveBroadcast c), (STREAM_REQUEST_PACKET, onReceiveStreamRequest c),
      (STREAM_RESPONSE_PACKET, onReceiveStreamResponse c), (STREAM_CLOSE_PACKET, onReceiveCloseStream c),
      (PING_PACKET, onReceivePing c), (PONG_PACKET, onReceivePong c), (HEARTBEAT_PACKET, \<lambda>pkt w. Done w)]"

definition handle_next :: "'k app \<Rightarrow> 'k curve \<Rightarrow> nat \<Rightarrow> 'k world \<Rightarrow> 'k world outcome" where
  "handle_next app E c w0 =
     (case cl_rxQueue (w_clients w0 c) of
        [] \<Rightarrow> Done w0
      | pkt # q \<Rightarrow>
          (let w = upd_client c (\<lambda>cl. cl\<lparr>cl_rxQueue := q\<rparr>)
                 (w0\<lparr>w_Enqueue := w_Enqueue w0 - 1, w_EnConsume := w_EnConsume w0 + 1\<rparr>)
           in case packetHandler app E c (pk_PacketType pkt) of
                None \<Rightarrow> Done (upd_client c (\<lambda>cl. cl\<lparr>cl_running := False\<rparr>) w)
              | Some h \<Rightarrow> h pkt w))"

end
