(* ===== verification/Client_Tasks.thy ===== *)
theory Client_Tasks
  imports Client_Handlers
begin

text \<open>
  The goroutines the handlers start and the calls the application makes (client.go): executing
  a request and replying with retry, sending with retry, requests, stream handlers, the
  callbacks of subscriptions, Publish, Subscribe, StreamRequest and Login. A goroutine is a
  task of its client. One that runs Request, RequestWithRetry or SendPacketWithRetry takes the
  steps of that call in the client's pending state, and the packets it sends there go through
  the client.
\<close>

subsection \<open>Calls that wait\<close>

definition open_call :: "call_kind \<Rightarrow> nat \<Rightarrow> inet_packet \<Rightarrow> 'k world \<Rightarrow> nat \<times> 'k world" where
  "open_call k c p w =
     (length (pn_calls (cl_pending (w_clients w c))),
      upd_client c (\<lambda>cl. cl\<lparr>cl_pending := begin_call k (GetId p) (cl_pending cl)\<rparr>) w)"

text \<open>The packet of a task's call, the call, and its slice.\<close>

fun task_call :: "client_task \<Rightarrow> (inet_packet \<times> nat \<times> nat option) option" where
  "task_call (AwaitReply r resp i b) = Some (ResponsePacket resp, i, b)"
| "task_call (InCall p i b) = Some (p, i, b)"
| "task_call t = None"

fun with_slice :: "nat \<Rightarrow> client_task \<Rightarrow> client_task" where
  "with_slice b (AwaitReply r resp i b0) = AwaitReply r resp i (Some b)"
| "with_slice b (InCall p i b0) = InCall p i (Some b)"
| "with_slice b t = t"

text \<open>
  The first sending marshals the packet, the retries send the same slice again. (Request
  sends once, through SendPacket, which is the same.)
\<close>

definition send_call :: "nat \<Rightarrow> inet_packet \<Rightarrow> nat option \<Rightarrow> 'k world \<Rightarrow> (nat \<times> 'k world) outcome" where
  "send_call c p sl w =
     (case sl of
        Some b \<Rightarrow> and_then (SendMessage c b w) (\<lambda>(e, w1). Done (b, w1))
      | None \<Rightarrow> (case marshal_buf p w of (b, w1) \<Rightarrow> and_then (SendMessage c b w1) (\<lambda>(e, w2). Done (b, w2))))"

definition set_task :: "nat \<Rightarrow> nat \<Rightarrow> client_task \<Rightarrow> 'k world \<Rightarrow> 'k world" where
  "set_task c n t w = upd_client c (\<lambda>cl. cl\<lparr>cl_tasks := (cl_tasks cl)[n := t]\<rparr>) w"

text \<open>A step of the call of the task n: nothing happens when the call cannot take it.\<close>

definition call_task :: "pick \<Rightarrow> nat \<Rightarrow> nat \<Rightarrow> 'k world \<Rightarrow> 'k world outcome" where
  "call_task pick c n w =
     (if length (cl_tasks (w_clients w c)) \<le> n then Done w
      else
        (case task_call (cl_tasks (w_clients w c) ! n) of
           None \<Rightarrow> Done w
         | Some (p, i, sl) \<Rightarrow>
             (case call_step pick i (cl_pending (w_clients w c)) of
                None \<Rightarrow> Done w
              | Some r \<Rightarrow>
                  and_then r (\<lambda>s.
                    let w1 = upd_client c (\<lambda>cl. cl\<lparr>cl_pending := s\<rparr>) w in
                    if pn_sent s = pn_sent (cl_pending (w_clients w c)) then Done w1
                    else and_then (send_call c p sl w1)
                           (\<lambda>(b, w2). Done (set_task c n (with_slice b (cl_tasks (w_clients w c) ! n)) w2))))))"

text \<open>The error a call returned, when it did.\<close>

fun result_error :: "call_result \<Rightarrow> string option" where
  "result_error ClientClosed = Some ''client closed''"
| "result_error (Answer r e) = e"
| "result_error (NotifyDone e) = e"

definition call_returned :: "nat \<Rightarrow> pending_state \<Rightarrow> call_result option" where
  "call_returned i s =
     (if length (pn_calls s) \<le> i then None
      else (case pc_at (pn_calls s ! i) of Returned res \<Rightarrow> Some res | _ \<Rightarrow> None))"

definition task_error :: "nat \<Rightarrow> client_task \<Rightarrow> 'k world \<Rightarrow> string option option" where
  "task_error c t w =
     (case task_call t of
        None \<Rightarrow> None
      | Some (p, i, sl) \<Rightarrow> map_option result_error (call_returned i (cl_pending (w_clients w c))))"

subsection \<open>Tasks\<close>

text \<open>The end of a stream handler: the stream is closed unless that was done already.\<close>

definition end_stream :: "nat \<Rightarrow> string \<Rightarrow> string option \<Rightarrow> 'k world \<Rightarrow> 'k world outcome" where
  "end_stream c sid err w =
     (if cl_handlingStream (w_clients w c) sid = None then Done w
      else and_then
        (SendPacketDirect c
          (StreamClosePacket \<lparr>sc_Id = [], sc_StreamId = sid, sc_Error = (case err of None \<Rightarrow> [] | Some e \<Rightarrow> e)\<rparr>)
          (upd_client c (\<lambda>cl. cl\<lparr>cl_handlingStream := (cl_handlingStream cl)(sid := None)\<rparr>) w))
        (\<lambda>(e, w1). Done w1))"

text \<open>
  The first step of a goroutine, with the tasks it goes on as. A call that runs has none.
\<close>

fun task_start :: "'k app \<Rightarrow> 'k curve \<Rightarrow> nat \<Rightarrow> client_task \<Rightarrow> 'k world \<Rightarrow> (client_task list \<times> 'k world) outcome" where
  "task_start app E c (ExecRequest r) w =
     and_then (respond app E c r w)
       (\<lambda>(resp, w1). case open_call RetryNotify c (ResponsePacket resp) w1 of (i, w2) \<Rightarrow> Done ([AwaitReply r resp i None], w2))"
| "task_start app E c (StartCall k p) w = (case open_call k c p w of (i, w1) \<Rightarrow> Done ([InCall p i None], w1))"
| "task_start app E c (DirectSend p) w = and_then (SendPacketDirect c p w) (\<lambda>(e, w1). Done ([], w1))"
| "task_start app E c (RunStream h r s) w =
     (case app_stream app h r s w of
        (answer, w1) \<Rightarrow>
          and_then (execute_stream answer) (\<lambda>err. and_then (end_stream c (sr_StreamId r) err w1) (\<lambda>w2. Done ([], w2))))"
| "task_start app E c t w = Done ([t], w)"

text \<open>
  The return of SendPacketWithRetry. After a reply the state changes, when the request
  succeeded and the reply was sent without error, and the id may be handled again.
\<close>

definition after_reply :: "'k sched \<Rightarrow> nat \<Rightarrow> request_packet \<Rightarrow> response_packet \<Rightarrow> string option \<Rightarrow> 'k world \<Rightarrow> 'k world outcome" where
  "after_reply sched c r resp err w =
     (if err \<noteq> None \<and> cl_conn (w_clients w c) = None then Panic ''nil pointer dereference''
      else if rs_Error resp = [] \<and> err = None
      then
        (if rq_Method r = EXCHANGE_SECRET then changeState sched c EXCHANGED_SECRET w
         else if rq_Method r = LOGIN then changeState sched c LOGINED w
         else Done w)
      else Done w)"

fun task_finish :: "'k sched \<Rightarrow> nat \<Rightarrow> string option \<Rightarrow> client_task \<Rightarrow> 'k world \<Rightarrow> 'k world outcome" where
  "task_finish sched c err (AwaitReply r resp i b) w =
     and_then (after_reply sched c r resp err w)
       (\<lambda>w1. Done (upd_client c (\<lambda>cl. cl\<lparr>cl_handlingReq := cl_handlingReq cl - {rq_Id r}\<rparr>) w1))"
| "task_finish sched c err t w = Done w"

definition drop_task :: "nat \<Rightarrow> nat \<Rightarrow> 'k world \<Rightarrow> 'k world" where
  "drop_task c i w = upd_client c (\<lambda>cl. cl\<lparr>cl_tasks := take i (cl_tasks cl) @ drop (Suc i) (cl_tasks cl)\<rparr>) w"

definition start_task :: "'k app \<Rightarrow> 'k curve \<Rightarrow> nat \<Rightarrow> nat \<Rightarrow> 'k world \<Rightarrow> 'k world outcome" where
  "start_task app E c i w =
     (if i < length (cl_tasks (w_clients w c))
      then and_then (task_start app E c (cl_tasks (w_clients w c) ! i) (drop_task c i w))
             (\<lambda>(ts, w1). Done (fold (spawn c) ts w1))
      else Done w)"

text \<open>A task whose call returned goes on after it.\<close>

definition finish_task :: "'k sched \<Rightarrow> nat \<Rightarrow> nat \<Rightarrow> 'k world \<Rightarrow> 'k world outcome" where
  "finish_task sched c n w =
     (if length (cl_tasks (w_clients w c)) \<le> n then Done w
      else
        (case task_error c (cl_tasks (w_clients w c) ! n) w of
           None \<Rightarrow> Done w
         | Some err \<Rightarrow> task_finish sched c err (cl_tasks (w_clients w c) ! n) (drop_task c n w)))"

definition SendPacketWithRetry :: "nat \<Rightarrow> inet_packet \<Rightarrow> 'k world \<Rightarrow> 'k world" where
  "SendPacketWithRetry c p w = spawn c (StartCall RetryNotify p) w"

subsection \<open>Callbacks of subscriptions\<close>

text \<open>
  The attributes a remote subscription asks for: the parameters have to be a JSON object (or
  null), what is missing becomes null, and the result is printed in the order of the keys.
\<close>

definition attribute :: "json \<Rightarrow> string \<Rightarrow> json" where
  "attribute msg a = (case msg of JObj ms \<Rightarrow> (case map_of ms a of None \<Rightarrow> JNull | Some v \<Rightarrow> v) | _ \<Rightarrow> JNull)"

definition attr_filter :: "string list \<Rightarrow> bytes option \<Rightarrow> bytes option option" where
  "attr_filter attrs params =
     (case json_parse (string_of_bytes (case params of None \<Rightarrow> [] | Some b \<Rightarrow> b)) of
        None \<Rightarrow> None
      | Some j \<Rightarrow>
          (case j of
             JObj ms \<Rightarrow> Some (map_option bytes_of_string (json_marshal
                 (JObj (fold (\<lambda>a. put_sorted a (attribute (canon j) a)) attrs []))))
           | JNull \<Rightarrow> Some (map_option bytes_of_string (json_marshal
                 (JObj (fold (\<lambda>a. put_sorted a JNull) attrs []))))
           | _ \<Rightarrow> None))"

definition forward_pub :: "nat \<Rightarrow> publish_packet \<Rightarrow> 'k world \<Rightarrow> 'k world outcome" where
  "forward_pub c pkt w =
     (if pb_Id pkt = [] then and_then (SendPacket c (PublishPacket pkt) w) (\<lambda>(e, w1). Done w1)
      else Done (SendPacketWithRetry c (PublishPacket pkt) w))"

fun run_sub :: "sub_callback \<Rightarrow> publish_packet \<Rightarrow> nat \<Rightarrow> 'k world \<Rightarrow> 'k world outcome" where
  "run_sub (RemoteSub c None) pkt from w = forward_pub c pkt w"
| "run_sub (RemoteSub c (Some attrs)) pkt from w =
     (case attr_filter attrs (pb_Params pkt) of
        None \<Rightarrow> Done w
      | Some params \<Rightarrow> forward_pub c (pkt\<lparr>pb_Params := params\<rparr>) w)"
| "run_sub (LocalSub n) pkt from w = Done (w\<lparr>w_user := w_user w @ [TopicCall n pkt from]\<rparr>)"

fun run_subs :: "sub_callback call list \<Rightarrow> 'k world \<Rightarrow> 'k world outcome" where
  "run_subs [] w = Done w"
| "run_subs ((cb, pkt, from) # calls) w = and_then (run_sub cb pkt from w) (run_subs calls)"

text \<open>One pass of the goroutine of a client's center, with the callbacks it calls.\<close>

inductive center_turn :: "nat \<Rightarrow> 'k world \<Rightarrow> 'k world outcome \<Rightarrow> bool" where
  "loop_step (w_pub w, cl_PubSub (w_clients w c)) calls (cnt, p) \<Longrightarrow>
     center_turn c w (run_subs calls ((upd_client c (\<lambda>cl. cl\<lparr>cl_PubSub := p\<rparr>) w)\<lparr>w_pub := cnt\<rparr>))"

subsection \<open>Calls of the application\<close>

text \<open>
  The ids are the uuids the calls make. A call that sends with retry goes on as a task: its
  caller's goroutine.
\<close>

definition Publish :: "nat \<Rightarrow> string \<Rightarrow> bytes option \<Rightarrow> 'k world \<Rightarrow> 'k world outcome" where
  "Publish c topic data w =
     and_then (SendPacket c (PublishPacket \<lparr>pb_Id = [], pb_Topic = topic, pb_Params = data, pb_ClientId = []\<rparr>) w)
       (\<lambda>(e, w1). Done w1)"

definition PublishWithRetry :: "string \<Rightarrow> nat \<Rightarrow> string \<Rightarrow> bytes option \<Rightarrow> 'k world \<Rightarrow> 'k world" where
  "PublishWithRetry uuid c topic data w =
     SendPacketWithRetry c (PublishPacket \<lparr>pb_Id = uuid, pb_Topic = topic, pb_Params = data, pb_ClientId = []\<rparr>) w"

definition sub_locally :: "nat \<Rightarrow> string \<Rightarrow> nat \<Rightarrow> 'k world \<Rightarrow> 'k world outcome" where
  "sub_locally c topic n w =
     and_then (SubTopic (NewTopicListener topic (Some (LocalSub n))) (cl_PubSub (w_clients w c)))
       (\<lambda>p. Done (upd_client c (\<lambda>cl. cl\<lparr>cl_PubSub := p\<rparr>) w))"

definition Subscribe :: "string \<Rightarrow> nat \<Rightarrow> string \<Rightarrow> nat \<Rightarrow> 'k world \<Rightarrow> 'k world outcome" where
  "Subscribe uuid c topic n w =
     and_then (sub_locally c topic n w)
       (\<lambda>w1. Done (SendPacketWithRetry c (SubscribePacket \<lparr>sb_Id = uuid, sb_Topic = topic, sb_Attributes = None\<rparr>) w1))"

definition SubscribeAttributes :: "string \<Rightarrow> nat \<Rightarrow> string \<Rightarrow> string list option \<Rightarrow> nat \<Rightarrow> 'k world \<Rightarrow> 'k world outcome" where
  "SubscribeAttributes uuid c topic attributes n w =
     and_then (sub_locally c topic n w)
       (\<lambda>w1. Done (SendPacketWithRetry c (SubscribePacket \<lparr>sb_Id = uuid, sb_Topic = topic, sb_Attributes = attributes\<rparr>) w1))"

definition Unsubscribe :: "string \<Rightarrow> nat \<Rightarrow> string \<Rightarrow> 'k world \<Rightarrow> 'k world outcome" where
  "Unsubscribe uuid c topic w =
     and_then (UnsubTopic topic (cl_PubSub (w_clients w c)))
       (\<lambda>p. Done (SendPacketWithRetry c (UnSubscribePacket \<lparr>sb_Id = uuid, sb_Topic = topic, sb_Attributes = None\<rparr>)
          (upd_client c (\<lambda>cl. cl\<lparr>cl_PubSub := p\<rparr>) w)))"

text \<open>Request, RequestWithRetryByPacket and RequestWithRetry, up to the start of the call.\<close>

definition Request :: "string \<Rightarrow> nat \<Rightarrow> string \<Rightarrow> bytes option \<Rightarrow> 'k world \<Rightarrow> 'k world" where
  "Request uuid c method params w =
     spawn c (StartCall PlainRequest (RequestPacket \<lparr>rq_Id = uuid, rq_Method = method, rq_Params = params, rq_ClientId = []\<rparr>)) w"

definition RequestWithRetryByPacket :: "nat \<Rightarrow> request_packet \<Rightarrow> 'k world \<Rightarrow> 'k world" where
  "RequestWithRetryByPacket c r w = spawn c (StartCall RetryRequest (RequestPacket r)) w"

definition RequestWithRetry :: "string \<Rightarrow> nat \<Rightarrow> string \<Rightarrow> bytes option \<Rightarrow> 'k world \<Rightarrow> 'k world" where
  "RequestWithRetry uuid c method params w =
     RequestWithRetryByPacket c \<lparr>rq_Id = uuid, rq_Method = method, rq_Params = params, rq_ClientId = []\<rparr> w"

text \<open>
  For the callers that go on after it, the whole of a Request or RequestWithRetry, with what
  else happens to the world meanwhile, is a parameter: the answer or an error.
\<close>

type_synonym 'k requests = "string \<Rightarrow> bytes option \<Rightarrow> 'k world \<Rightarrow> (string + json) \<times> 'k world"

definition StreamRequest :: "string \<Rightarrow> 'k requests \<Rightarrow> (nat \<Rightarrow> 'k world \<Rightarrow> string option \<times> 'k world) \<Rightarrow> nat \<Rightarrow> string
    \<Rightarrow> bytes option \<Rightarrow> 'k world \<Rightarrow> 'k world outcome" where
  "StreamRequest uuid request execute c method params w =
     (let s = w_nstreams w;
          w1 = upd_client c (\<lambda>cl. cl\<lparr>cl_handlingStream := (cl_handlingStream cl)(uuid \<mapsto> s)\<rparr>)
            (w\<lparr>w_streams := (w_streams w)(s := newStream uuid c), w_nstreams := Suc s\<rparr>)
      in case request method params w1 of
           (answer, w2) \<Rightarrow> (case execute s w2 of (err, w3) \<Rightarrow> end_stream c uuid err w3))"

definition login_json :: "login_params \<Rightarrow> json" where
  "login_json p = JObj [(''bucket_id'', case lp_BucketId p of None \<Rightarrow> JNull | Some i \<Rightarrow> JNum (show_int64 i)),
     (''client_id'', JStr (lp_ClientId p))]"

definition exchange_json :: "string \<Rightarrow> json" where
  "exchange_json key = JObj [(''pub_key'', JStr key)]"

definition json_params :: "json \<Rightarrow> bytes option" where
  "json_params j = map_option bytes_of_string (json_marshal j)"

definition send_login :: "'k sched \<Rightarrow> 'k requests \<Rightarrow> nat \<Rightarrow> login_params \<Rightarrow> 'k world \<Rightarrow> (string option \<times> 'k world) outcome" where
  "send_login sched request c p w =
     (case request LOGIN (json_params (login_json p))
         (upd_client c (\<lambda>cl. cl\<lparr>cl_ClientId := lp_ClientId p, cl_GroupId := lp_BucketId p\<rparr>) w) of
        (Inl e, w1) \<Rightarrow> Done (Some e, w1)
      | (Inr answer, w1) \<Rightarrow> and_then (changeState sched c LOGINED w1) (\<lambda>w2. Done (None, w2)))"

definition Login :: "'k curve \<Rightarrow> 'k sched \<Rightarrow> 'k requests \<Rightarrow> nat \<Rightarrow> login_params \<Rightarrow> 'k world
    \<Rightarrow> (string option \<times> 'k world) outcome" where
  "Login E sched request c p w =
     (case co_Crypto (cl_options (w_clients w c)) of
        None \<Rightarrow> send_login sched request c p w
      | Some y \<Rightarrow>
          (case request EXCHANGE_SECRET (json_params (exchange_json (Base64PubKey E (w_cryptos w y)))) w of
             (Inl e, w1) \<Rightarrow> Done (Some e, w1)
           | (Inr answer, w1) \<Rightarrow>
               (case answer of
                  JStr key \<Rightarrow>
                    (case ComputeSecret E key (w_cryptos w1 y) of
                       (Inl e, cr) \<Rightarrow> Done (Some (crypto_error_text e), w1\<lparr>w_cryptos := (w_cryptos w1)(y := cr)\<rparr>)
                     | (Inr k, cr) \<Rightarrow>
                         and_then (changeState sched c EXCHANGED_SECRET (w1\<lparr>w_cryptos := (w_cryptos w1)(y := cr)\<rparr>))
                           (send_login sched request c p))
                | _ \<Rightarrow> type_panic)))"

end
