(* ===== verification/Client_Session.thy ===== *)
theory Client_Session
  imports Client_Tasks "HOL-Library.Multiset"
begin

text \<open>
  A client over time: receiving, handling packets, its goroutines, the tick and whatever the
  rest of the program does to it interleave in any order. The invariants: no request id is
  executed twice at a time, and what a client does before it exchanged secrets and logged in.
\<close>

subsection \<open>What an operation does to the session of a client\<close>

text \<open>The requests being executed or waiting for the acknowledgement of their reply.\<close>

fun request_of :: "client_task \<Rightarrow> request_packet list" where
  "request_of (ExecRequest r) = [r]"
| "request_of (AwaitReply r resp i b) = [r]"
| "request_of t = []"

definition open_requests :: "client \<Rightarrow> request_packet list" where
  "open_requests cl = concat (map request_of (cl_tasks cl))"

text \<open>What happens to the waiting calls of a client: any number of their events.\<close>

definition any_call :: "call_kind \<Rightarrow> string \<Rightarrow> pending_state \<Rightarrow> bool" where
  "any_call k pid s = True"

definition pend_steps :: "pending_state \<Rightarrow> pending_state \<Rightarrow> bool" where
  "pend_steps = (\<lambda>s s'. pending_event any_call s (Done s'))\<^sup>*\<^sup>*"

lemma pend_refl [simp]: "pend_steps s s"
  by (simp add: pend_steps_def)

lemma pend_trans: "pend_steps s t \<Longrightarrow> pend_steps t u \<Longrightarrow> pend_steps s u"
  unfolding pend_steps_def by (rule rtranclp_trans)

lemma pend_event: "pending_event any_call s (Done s') \<Longrightarrow> pend_steps s s'"
  unfolding pend_steps_def by (rule r_into_rtranclp)

lemmas pend_events = pend_event [OF pending_event.call] pend_event [OF pending_event.cancel]

lemma pend_receives:
  "receive_response pid result error s = Done s' \<Longrightarrow> pend_steps s s'"
  "receive_ack pid s = Done s' \<Longrightarrow> pend_steps s s'"
  using pend_event [of s s'] pending_event.response [of any_call s pid result error] pending_event.ack [of any_call s pid] by auto

lemma pend_begin: "pend_steps s (begin_call k pid s)"
  by (rule pend_event, rule pending_event.begins) (simp add: any_call_def)

lemma pend_steps_reach: "pend_steps s s' \<Longrightarrow> pending_reach any_call s \<Longrightarrow> pending_reach any_call s'"
  unfolding pend_steps_def by (induction rule: rtranclp_induct) (auto intro: pending_reach.event)

text \<open>Everything but the state stays, the state too, or it becomes DISCONNECT at most.\<close>

definition same_session :: "nat \<Rightarrow> 'k world \<Rightarrow> 'k world \<Rightarrow> bool" where
  "same_session c w w' \<longleftrightarrow>
     cl_options (w_clients w' c) = cl_options (w_clients w c) \<and> cl_rxQueue (w_clients w' c) = cl_rxQueue (w_clients w c) \<and>
     mset (open_requests (w_clients w' c)) = mset (open_requests (w_clients w c)) \<and>
     cl_handlingReq (w_clients w' c) = cl_handlingReq (w_clients w c) \<and>
     pend_steps (cl_pending (w_clients w c)) (cl_pending (w_clients w' c))"

definition calm :: "nat \<Rightarrow> 'k world \<Rightarrow> 'k world \<Rightarrow> bool" where
  "calm c w w' \<longleftrightarrow> same_session c w w' \<and> cl_state (w_clients w' c) = cl_state (w_clients w c)"

definition falls :: "nat \<Rightarrow> 'k world \<Rightarrow> 'k world \<Rightarrow> bool" where
  "falls c w w' \<longleftrightarrow> same_session c w w' \<and> cl_state (w_clients w' c) \<in> {cl_state (w_clients w c), DISCONNECT}"

lemma calm_refl [simp]: "calm c w w"
  by (simp add: calm_def same_session_def)

lemma calm_trans: "calm c u v \<Longrightarrow> calm c v w \<Longrightarrow> calm c u w"
  by (auto simp: calm_def same_session_def intro: pend_trans)

lemma falls_trans: "falls c u v \<Longrightarrow> falls c v w \<Longrightarrow> falls c u w"
  by (auto simp: falls_def same_session_def intro: pend_trans)

lemma calm_falls: "calm c w w' \<Longrightarrow> falls c w w'"
  by (simp add: calm_def falls_def)

lemma calm_clients: "w_clients w' = w_clients w \<Longrightarrow> calm c w w'"
  by (simp add: calm_def same_session_def)

text \<open>An update of a client that leaves these fields alone.\<close>

lemma calm_upd:
  "(\<And>x. cl_options (f x) = cl_options x \<and> cl_rxQueue (f x) = cl_rxQueue x \<and> cl_tasks (f x) = cl_tasks x \<and>
      cl_handlingReq (f x) = cl_handlingReq x \<and> cl_state (f x) = cl_state x \<and> cl_pending (f x) = cl_pending x) \<Longrightarrow> calm c w (upd_client d f w)"
  by (simp add: calm_def same_session_def open_requests_def)

lemma calm_pending: "pend_steps (cl_pending (w_clients w d)) s \<Longrightarrow> calm c w (upd_client d (\<lambda>cl. cl\<lparr>cl_pending := s\<rparr>) w)"
  by (simp add: calm_def same_session_def open_requests_def)

lemma calm_cancel: "calm c w (client_cancel d w)"
  by (simp add: calm_def same_session_def open_requests_def client_cancel_def pend_events(2))

lemma calm_open_call: "open_call k d p w = (i, w') \<Longrightarrow> calm c w w'"
  by (cases "c = d") (auto simp: open_call_def calm_def same_session_def open_requests_def pend_begin)

lemma calm_spawn: "request_of t = [] \<Longrightarrow> calm c w (spawn d t w)"
  by (simp add: calm_def same_session_def open_requests_def spawn_def)

named_theorems calm_intros "operations that leave the session of a client as it is"

declare calm_upd [calm_intros] calm_spawn [calm_intros]

subsection \<open>Sending and publishing\<close>

lemma calm_updI:
  assumes "w_clients w' = w_clients (upd_client d f w)"
    and "\<And>x. cl_options (f x) = cl_options x \<and> cl_rxQueue (f x) = cl_rxQueue x \<and> cl_tasks (f x) = cl_tasks x \<and>
      cl_handlingReq (f x) = cl_handlingReq x \<and> cl_state (f x) = cl_state x \<and> cl_pending (f x) = cl_pending x"
  shows "calm c w w'"
  using calm_upd [of f c w d] assms calm_clients [OF assms(1)] calm_trans by blast

lemma prepare_send_clients:
  "prepare_send d b w = Done w1 \<Longrightarrow> w_clients w1 = w_clients (upd_client d (\<lambda>cl. cl\<lparr>cl_lastTxTime := Some (w_now w)\<rparr>) w)"
  by (auto simp: prepare_send_def encode_buf_def outcome_simps Let_def split: option.splits if_splits)

lemma conn_send_clients:
  "conn_SendMessage k b w = (e, w') \<Longrightarrow> w_clients w' = w_clients w"
  "conn_SendMessageDirect k b w = (e, w') \<Longrightarrow> w_clients w' = w_clients w"
  by (auto simp: conn_SendMessage_def conn_SendMessageDirect_def Let_def split: if_splits)

lemma SendMessage_clients:
  "SendMessage d b w = Done (e, w') \<Longrightarrow>
     w_clients w' = w_clients (upd_client d (\<lambda>cl. cl\<lparr>cl_lastTxTime := Some (w_now w)\<rparr>) w)"
  by (auto simp: SendMessage_def and_then_eq_Done dest!: conn_send_clients(1) prepare_send_clients split: option.splits)

lemma SendMessageDirect_clients:
  "SendMessageDirect d b w = Done (e, w') \<Longrightarrow>
     w_clients w' = w_clients (upd_client d (\<lambda>cl. cl\<lparr>cl_lastTxTime := Some (w_now w)\<rparr>) w)"
  by (auto simp: SendMessageDirect_def and_then_eq_Done dest!: conn_send_clients(2) prepare_send_clients split: option.splits)

lemma SendMessage_calm: "SendMessage d b w = Done (e, w') \<Longrightarrow> calm c w w'"
  by (rule calm_updI, erule SendMessage_clients) simp

lemma SendMessageDirect_calm: "SendMessageDirect d b w = Done (e, w') \<Longrightarrow> calm c w w'"
  by (rule calm_updI, erule SendMessageDirect_clients) simp

lemma marshal_buf_calm: "marshal_buf p w = (b, w') \<Longrightarrow> calm c w w'"
  by (auto simp: marshal_buf_def new_buf_def intro!: calm_clients split: option.splits)

lemma SendPacket_calm: "SendPacket d p w = Done (e, w') \<Longrightarrow> calm c w w'"
  by (auto simp: SendPacket_def split: prod.splits intro: calm_trans marshal_buf_calm SendMessage_calm)

lemma SendPacketDirect_calm: "SendPacketDirect d p w = Done (e, w') \<Longrightarrow> calm c w w'"
  by (auto simp: SendPacketDirect_def split: prod.splits intro: calm_trans marshal_buf_calm SendMessageDirect_calm)

lemma send_ack_calm: "send_ack d i w = Done w' \<Longrightarrow> calm c w w'"
  by (auto simp: send_ack_def outcome_simps split: if_splits intro: SendPacket_calm)

lemma broadcast_to_calm: "broadcast_to cs b w = Done w' \<Longrightarrow> calm c w w'"
  by (induction cs arbitrary: w) (auto simp: outcome_simps intro: calm_trans SendMessage_calm)

lemma client_pub_calm: "client_pub d pkt from w = Done w' \<Longrightarrow> calm c w w'"
  by (auto simp: client_pub_def outcome_simps intro!: calm_updI [where d = d])

lemma group_center_pub_calm: "group_center_pub g pkt from w = Done w' \<Longrightarrow> calm c w w'"
  by (auto simp: group_center_pub_def outcome_simps intro!: calm_clients)

lemma publish_to_calm: "publish_to cs pkt from w = Done w' \<Longrightarrow> calm c w w'"
  by (induction cs arbitrary: w) (auto simp: outcome_simps intro: calm_trans client_pub_calm)

lemma group_pub_calm: "group_pub n g pkt from w = Done w' \<Longrightarrow> calm c w w'"
proof (induction n arbitrary: g pkt w w')
  case (Suc n)
  then obtain w1 w2 where w1: "(case gr_parent (w_groups w g) of None \<Rightarrow> Done w
        | Some p \<Rightarrow> group_pub n p (prefixed (gr_id (w_groups w g)) pkt) from w) = Done w1"
    and w2: "group_center_pub g pkt from w1 = Done w2" "publish_to (map snd (gr_clients (w_groups w2 g))) pkt from w2 = Done w'"
    by (auto simp: outcome_simps)
  have "calm c w w1" using w1 by (auto split: option.splits intro: Suc.IH)
  with w2 show ?case by (blast intro: calm_trans group_center_pub_calm publish_to_calm)
qed simp

lemma Group_PubTopic_calm: "Group_PubTopic g pkt from w = Done w' \<Longrightarrow> calm c w w'"
  unfolding Group_PubTopic_def by (rule group_pub_calm)

lemma stream_push_calm: "stream_push s p w = Done w' \<Longrightarrow> calm c w w'"
  by (auto simp: stream_push_def outcome_simps intro!: calm_clients)

lemma send_call_calm: "send_call d p sl w = Done (b, w') \<Longrightarrow> calm c w w'"
  by (auto simp: send_call_def outcome_simps split: option.splits prod.splits intro: calm_trans marshal_buf_calm SendMessage_calm)

lemma end_stream_calm:
  assumes "end_stream d sid err w = Done w'"
  shows "calm c w w'"
proof (cases "cl_handlingStream (w_clients w d) sid = None")
  case False
  let ?w1 = "upd_client d (\<lambda>cl. cl\<lparr>cl_handlingStream := (cl_handlingStream cl)(sid := None)\<rparr>) w"
  have "calm c w ?w1" by (rule calm_upd) simp
  moreover have "calm c ?w1 w'" using False assms by (auto simp: end_stream_def outcome_simps dest: SendPacketDirect_calm)
  ultimately show ?thesis by (rule calm_trans)
qed (use assms in \<open>simp add: end_stream_def\<close>)

lemmas sending_calm = SendMessage_calm SendPacket_calm SendPacketDirect_calm send_ack_calm broadcast_to_calm
  client_pub_calm group_center_pub_calm Group_PubTopic_calm stream_push_calm send_call_calm end_stream_calm

subsection \<open>Closing and disposing\<close>

lemma client_clear_calm: "client_clear sched d w = Done w' \<Longrightarrow> calm c w w'"
  by (auto simp: client_clear_def outcome_simps Let_def intro!: calm_upd)

lemma enter_disconnect_falls: "falls c w (enter_disconnect d w)"
  by (simp add: falls_def same_session_def enter_disconnect_def swap_state_def open_requests_def Let_def)

lemma falls_clients: "w_clients w' = w_clients w \<Longrightarrow> falls c w w'"
  by (rule calm_falls, rule calm_clients)

lemma run_disconnect_falls: "run_disconnect sched l ev w = Done w' \<Longrightarrow> falls c w w'"
proof (cases l)
  case (ServerDisconnect d)
  assume "run_disconnect sched l ev w = Done w'"
  with ServerDisconnect show ?thesis
    by (auto simp: outcome_simps intro: falls_trans calm_falls client_clear_calm enter_disconnect_falls)
next
  case (Reconnect d)
  assume "run_disconnect sched l ev w = Done w'"
  with Reconnect obtain w1 where w1: "client_clear sched d (enter_disconnect d w) = Done w1" "w_clients w' = w_clients w1"
    by (auto simp: outcome_simps)
  then have "falls c (enter_disconnect d w) w'"
    by (blast intro: falls_trans calm_falls client_clear_calm falls_clients)
  then show ?thesis by (blast intro: falls_trans enter_disconnect_falls)
next
  case (ReconnectUdp d)
  assume "run_disconnect sched l ev w = Done w'"
  with ReconnectUdp obtain w1 where w1: "client_clear sched d w = Done w1" "w_clients w' = w_clients w1"
    by (auto simp: outcome_simps)
  then show ?thesis by (blast intro: falls_trans calm_falls client_clear_calm falls_clients)
qed (auto intro!: falls_clients)

lemma conn_Close_falls:
  assumes "conn_Close sched k w = Done w'"
  shows "falls c w w'"
proof (cases "ic_kind (w_conns w k) = FakeUdpKind \<or> ic_closed (w_conns w k)")
  case True
  with assms show ?thesis by (auto simp: conn_Close_def conn_close_def Let_def split: if_splits intro!: falls_clients)
next
  case False
  with assms obtain u where u: "rise (run_disconnect sched) DisconnectEvent (ic_OnDisconnect (w_conns w k)) (conn_shut k w) = Done u"
    and w': "w' = conn_unlock k u" by (auto simp: conn_Close_def conn_close_def Let_def outcome_simps split: if_splits)
  have "falls c w u"
    by (rule rise_keeps [where run = "run_disconnect sched" and P = "falls c w", OF _ u])
      (auto simp: keeps_def conn_shut_def intro: falls_trans run_disconnect_falls falls_clients)
  moreover have "falls c u w'" by (rule falls_clients) (simp add: w' conn_unlock_def)
  ultimately show ?thesis by (rule falls_trans)
qed

lemma Dispose_falls:
  assumes "Dispose sched d w = Done w'"
  shows "falls c w w'"
proof (cases "cl_beDisposed (w_clients w d)")
  case True
  with assms show ?thesis by (simp add: Dispose_def calm_falls)
next
  case False
  let ?w1 = "client_cancel d (upd_client d (\<lambda>x. x\<lparr>cl_beDisposed := True\<rparr>) w)"
  from assms False obtain w2 k w3 where w2: "client_clear sched d ?w1 = Done w2" and w3: "conn_Close sched k w2 = Done w3"
    and w': "rise_listeners run_dispose (et_listeners (cl_OnDispose (w_clients w3 d))) w3 = Done w'"
    by (auto simp: Dispose_def outcome_simps Let_def RiseEvent_def split: option.splits)
  have "calm c w ?w1" by (rule calm_trans [OF calm_upd calm_cancel]) simp
  then have "falls c w w3" using w2 w3 by (blast intro: falls_trans calm_falls client_clear_calm conn_Close_falls)
  moreover have "falls c w3 w'" by (rule falls_clients) (rule run_dispose_same(1) [OF w'])
  ultimately show ?thesis by (rule falls_trans)
qed

lemma tick_falls:
  assumes "tick sched d w = Done w'"
  shows "falls c w w'"
proof -
  obtain w1 where w1: "w1 = w \<or> (\<exists>e. SendPacket d (HeartbeatPacket []) w = Done (e, w1))"
    and w': "w' = w1 \<or> Dispose sched d w1 = Done w' \<or> (\<exists>k. conn_Close sched k w1 = Done w')"
    using assms by (auto simp: tick_def Let_def outcome_simps split: if_splits option.splits)
  from w1 have "falls c w w1" by (auto intro: calm_falls SendPacket_calm)
  moreover from w' have "falls c w1 w'" by (auto intro: calm_falls Dispose_falls conn_Close_falls)
  ultimately show ?thesis by (rule falls_trans)
qed

lemma onClientLogin_falls:
  assumes "onClientLogin sched d w = Done w'"
  shows "falls c w w'"
proof -
  obtain v where v: "v = w \<or> (\<exists>e. Dispose sched e (RemoveClient (cl_ClientId (w_clients w d)) w) = Done v)"
    and w': "w' = upd_client d (\<lambda>x. x\<lparr>cl_OnDispose := AddEventListener (HubDispose d) (cl_OnDispose x)\<rparr>) (join_group d (AddClient d v))"
    using assms by (cases rule: onClientLogin_parts) blast+
  have "falls c w (RemoveClient (cl_ClientId (w_clients w d)) w)" by (rule falls_clients) (simp add: RemoveClient_def)
  then have "falls c w v" using v by (auto intro: calm_falls falls_trans Dispose_falls)
  moreover have "calm c v w'"
    by (simp add: w' calm_def same_session_def open_requests_def join_group_home AddClient_def hub_put_def)
  ultimately show ?thesis by (blast intro: falls_trans calm_falls)
qed

lemma run_login_falls: "run_login sched l w = Done w' \<Longrightarrow> falls c w w'"
  by (cases l) (auto intro: onClientLogin_falls falls_clients)

lemma changeState_same:
  assumes "changeState sched c s w = Done w'"
  shows "same_session c w w' \<and> cl_state (w_clients w' c) \<in> {settle (cl_options (w_clients w c)) s, DISCONNECT}"
proof -
  let ?w1 = "upd_client c (\<lambda>x. x\<lparr>cl_state := settle (cl_options (w_clients w c)) s\<rparr>) w"
  have "falls c ?w1 w'"
  proof (cases "fst (swap_state c s w)")
    case True
    then have rise: "rise_listeners (run_login sched) (et_listeners (cl_OnLogin (w_clients ?w1 c))) ?w1 = Done w'"
      using assms by (auto simp: changeState_def swap_state_def RiseEvent_def Let_def split: if_splits)
    show ?thesis
      by (rule rise_listeners_keeps [where P = "falls c ?w1", OF _ rise])
        (auto intro: falls_trans run_login_falls calm_falls)
  next
    case False
    then show ?thesis using assms by (auto simp: changeState_def swap_state_def calm_falls Let_def split: if_splits)
  qed
  then show ?thesis by (simp add: falls_def same_session_def open_requests_def)
qed

subsection \<open>Receiving and handling\<close>

text \<open>Application handlers that leave the session of the client to the program.\<close>

definition app_calm :: "'k app \<Rightarrow> nat \<Rightarrow> bool" where
  "app_calm app c \<longleftrightarrow> (\<forall>n r d w. calm c w (snd (app_request app n r d w))) \<and>
     (\<forall>n r s w. calm c w (snd (app_stream app n r s w)))"

lemma run_handler_calm:
  assumes "app_calm app c" and "run_handler app E h r d w = (answer, w')"
  shows "calm c w w'"
proof (cases h)
  case LoginHandler
  with assms(2) show ?thesis by (auto simp: login_handler_def intro!: calm_upd split: option.splits)
next
  case ExchangeHandler
  with assms(2) show ?thesis
    by (auto simp: exchange_handler_def intro!: calm_clients split: option.splits prod.splits sum.splits)
next
  case (UserHandler n)
  with assms(2) have "w' = snd (app_request app n r d w)" by simp
  with assms(1) show ?thesis by (simp add: app_calm_def)
qed

lemma respond_calm: "app_calm app c \<Longrightarrow> respond app E d r w = Done (resp, w') \<Longrightarrow> calm c w w'"
  by (auto simp: respond_def outcome_simps Let_def split: option.splits prod.splits dest: run_handler_calm)

lemma receive_session:
  assumes "receiveMessage c b w = Done w'"
  shows "calm c w w' \<or>
    (\<exists>pkt. admits (cl_state (w_clients w c)) (pk_PacketContent pkt) \<and>
       cl_rxQueue (w_clients w' c) = cl_rxQueue (w_clients w c) @ [pkt] \<and> length (cl_rxQueue (w_clients w c)) < RxQueueLen \<and>
       cl_state (w_clients w' c) = cl_state (w_clients w c) \<and> cl_options (w_clients w' c) = cl_options (w_clients w c) \<and>
       cl_tasks (w_clients w' c) = cl_tasks (w_clients w c) \<and> cl_handlingReq (w_clients w' c) = cl_handlingReq (w_clients w c) \<and>
       cl_pending (w_clients w' c) = cl_pending (w_clients w c))"
proof -
  obtain w1 where w1: "decrypt_received c b w = Done w1"
    and w': "(case Unmarshal (w_bufs w1 b) of Inl e \<Rightarrow> Done w1
        | Inr p \<Rightarrow> if admits (cl_state (w_clients w1 c)) p
            then enqueue_packet c \<lparr>pk_RawData = b, pk_PacketType = TypeCode p, pk_PacketContent = p, pk_Client = c\<rparr> w1
            else Done w1) = Done w'"
    using assms by (auto simp: receiveMessage_def outcome_simps)
  have same: "w_clients w1 = w_clients w"
    using w1 by (auto simp: decrypt_received_def decode_buf_def outcome_simps split: option.splits client_state.splits)
  show ?thesis
  proof (cases "w' = w1")
    case True
    with same show ?thesis by (simp add: calm_clients)
  next
    case False
    with w' obtain p where p: "admits (cl_state (w_clients w1 c)) p"
      "enqueue_packet c \<lparr>pk_RawData = b, pk_PacketType = TypeCode p, pk_PacketContent = p, pk_Client = c\<rparr> w1 = Done w'"
      by (auto split: sum.splits if_splits)
    then show ?thesis
      by (intro disjI2 exI [of _ "\<lparr>pk_RawData = b, pk_PacketType = TypeCode p, pk_PacketContent = p, pk_Client = c\<rparr>"])
        (auto simp: same enqueue_packet_def outcome_simps chan_simps upd_client_def Let_def)
  qed
qed

text \<open>Every handler but the one of requests is calm.\<close>

lemma handlers_calm:
  "onReceiveAck c' pkt w = Done w' \<Longrightarrow> calm c w w'"
  "onReceiveResponse c' pkt w = Done w' \<Longrightarrow> calm c w w'"
  "onReceivePublish c' pkt w = Done w' \<Longrightarrow> calm c w w'"
  "onReceiveSubscribe c' pkt w = Done w' \<Longrightarrow> calm c w w'"
  "onReceiveBroadcast c' pkt w = Done w' \<Longrightarrow> calm c w w'"
  "onReceiveStreamResponse c' pkt w = Done w' \<Longrightarrow> calm c w w'"
  "onReceiveCloseStream c' pkt w = Done w' \<Longrightarrow> calm c w w'"
  "onReceivePing c' pkt w = Done w' \<Longrightarrow> calm c w w'"
  "onReceivePong c' pkt w = Done w' \<Longrightarrow> calm c w w'"
proof -
  note defs = type_panic_def outcome_simps
  note splits = inet_packet.splits option.splits
  show "onReceiveAck c' pkt w = Done w' \<Longrightarrow> calm c w w'"
    by (auto simp: onReceiveAck_def defs split: splits intro!: calm_pending elim: pend_receives)
  show "onReceiveResponse c' pkt w = Done w' \<Longrightarrow> calm c w w'"
    by (auto simp: onReceiveResponse_def defs split: splits intro!: calm_trans [OF send_ack_calm calm_pending] elim: pend_receives)
  show "onReceivePublish c' pkt w = Done w' \<Longrightarrow> calm c w w'"
    by (auto simp: onReceivePublish_def defs split: splits intro: calm_trans sending_calm)
  show "onReceiveSubscribe c' pkt w = Done w' \<Longrightarrow> calm c w w'"
    by (auto simp: onReceiveSubscribe_def defs split: splits intro!: calm_trans [OF send_ack_calm calm_upd])
  show "onReceiveBroadcast c' pkt w = Done w' \<Longrightarrow> calm c w w'"
    by (auto simp: onReceiveBroadcast_def Broadcast_def defs split: splits
      intro: calm_trans sending_calm calm_trans [OF send_ack_calm calm_clients])
  show "onReceiveStreamResponse c' pkt w = Done w' \<Longrightarrow> calm c w w'"
    by (auto simp: onReceiveStreamResponse_def defs split: splits intro: calm_trans sending_calm)
  show "onReceiveCloseStream c' pkt w = Done w' \<Longrightarrow> calm c w w'"
    by (auto simp: onReceiveCloseStream_def defs split: splits intro: calm_trans sending_calm)
  show "onReceivePing c' pkt w = Done w' \<Longrightarrow> calm c w w'"
    by (auto simp: onReceivePing_def defs Let_def split: splits dest!: SendPacket_calm [where c = c])
      (simp_all add: calm_def same_session_def)
  show "onReceivePong c' pkt w = Done w' \<Longrightarrow> calm c w w'"
    by (auto simp: onReceivePong_def defs split: splits intro: calm_clients)
qed

lemma onReceiveStreamRequest_calm:
  assumes "onReceiveStreamRequest c' pkt w = Done w'"
  shows "calm c w w'"
proof -
  obtain r w1 where w1: "send_ack c' (sr_Id r) w = Done w1" and
    w': "(case cl_handlingStream (w_clients w1 c') (sr_StreamId r) of
       Some s \<Rightarrow> stream_push s (StreamRequestRawPacket r) w1
     | None \<Rightarrow>
         (case findStreamHandler (sr_Method r) (w_mgrs w1 (cl_handlerMgr (w_clients w1 c'))) of
            None \<Rightarrow> Done (spawn c' (DirectSend (StreamClosePacket
                \<lparr>sc_Id = [], sc_StreamId = sr_Id r, sc_Error = no_method_text\<rparr>)) w1)
          | Some h \<Rightarrow>
              (let s = w_nstreams w1;
                   w2 = upd_client c' (\<lambda>cl. cl\<lparr>cl_handlingStream := (cl_handlingStream cl)(sr_StreamId r \<mapsto> s)\<rparr>)
                     (w1\<lparr>w_streams := (w_streams w1)(s := newStream (sr_StreamId r) c'), w_nstreams := Suc s\<rparr>)
               in and_then (stream_push s (StreamRequestRawPacket r) w2)
                    (\<lambda>w3. Done (spawn c' (RunStream h r s) w3))))) = Done w'"
    using assms by (auto simp: onReceiveStreamRequest_def type_panic_def outcome_simps split: inet_packet.splits)
  have "calm c w1 w'"
  proof (cases "cl_handlingStream (w_clients w1 c') (sr_StreamId r)")
    case (Some s)
    with w' show ?thesis by (auto intro: stream_push_calm)
  next
    case none: None
    show ?thesis
    proof (cases "findStreamHandler (sr_Method r) (w_mgrs w1 (cl_handlerMgr (w_clients w1 c')))")
      case None
      with none w' show ?thesis by (auto intro!: calm_spawn)
    next
      case (Some h)
      let ?v = "w1\<lparr>w_streams := (w_streams w1)(w_nstreams w1 := newStream (sr_StreamId r) c'), w_nstreams := Suc (w_nstreams w1)\<rparr>"
      let ?w2 = "upd_client c' (\<lambda>cl. cl\<lparr>cl_handlingStream := (cl_handlingStream cl)(sr_StreamId r \<mapsto> w_nstreams w1)\<rparr>) ?v"
      from none Some w' obtain w3 where w3: "stream_push (w_nstreams w1) (StreamRequestRawPacket r) ?w2 = Done w3"
        and e: "w' = spawn c' (RunStream h r (w_nstreams w1)) w3" by (auto simp: outcome_simps Let_def)
      have "calm c w1 ?v" by (rule calm_clients) simp
      moreover have "calm c ?v ?w2" by (rule calm_upd) simp
      moreover have "calm c w3 w'" unfolding e by (rule calm_spawn) simp
      ultimately show ?thesis using stream_push_calm [OF w3] by (blast intro: calm_trans)
    qed
  qed
  with w1 show ?thesis by (blast intro: calm_trans send_ack_calm)
qed

text \<open>A request with an id that is not being handled opens, nothing else does.\<close>

definition opens :: "nat \<Rightarrow> request_packet \<Rightarrow> 'k world \<Rightarrow> 'k world \<Rightarrow> bool" where
  "opens c r w w' \<longleftrightarrow> rq_Id r \<notin> cl_handlingReq (w_clients w c) \<and>
     cl_options (w_clients w' c) = cl_options (w_clients w c) \<and> cl_state (w_clients w' c) = cl_state (w_clients w c) \<and>
     cl_rxQueue (w_clients w' c) = cl_rxQueue (w_clients w c) \<and>
     mset (open_requests (w_clients w' c)) = add_mset r (mset (open_requests (w_clients w c))) \<and>
     cl_handlingReq (w_clients w' c) = insert (rq_Id r) (cl_handlingReq (w_clients w c)) \<and>
     pend_steps (cl_pending (w_clients w c)) (cl_pending (w_clients w' c))"

lemma onReceiveRequest_session:
  assumes "app_calm app c" and "onReceiveRequest app E c pkt w = Done w'"
  shows "calm c w w' \<or> (\<exists>r. pk_PacketContent pkt = RequestPacket r \<and> opens c r w w')"
proof -
  obtain r where r: "pk_PacketContent pkt = RequestPacket r"
    using assms(2) by (auto simp: onReceiveRequest_def type_panic_def split: inet_packet.splits)
  show ?thesis
  proof (cases "rq_Id r = []")
    case True
    with assms r show ?thesis
      by (auto simp: onReceiveRequest_def outcome_simps split: option.splits prod.splits dest: run_handler_calm)
  next
    case False
    then obtain w1 where w1: "send_ack c (rq_Id r) w = Done w1" and w': "(if rq_Id r \<in> cl_handlingReq (w_clients w1 c) then Done w1
        else Done (spawn c (ExecRequest r) (upd_client c (\<lambda>cl. cl\<lparr>cl_handlingReq := insert (rq_Id r) (cl_handlingReq cl)\<rparr>) w1))) = Done w'"
      using assms(2) r by (auto simp: onReceiveRequest_def and_then_eq_Done)
    note calm1 = send_ack_calm [OF w1, of c]
    show ?thesis
    proof (cases "rq_Id r \<in> cl_handlingReq (w_clients w1 c)")
      case True
      with w' calm1 show ?thesis by simp
    next
      case False
      then have e: "w' = spawn c (ExecRequest r) (upd_client c (\<lambda>cl. cl\<lparr>cl_handlingReq := insert (rq_Id r) (cl_handlingReq cl)\<rparr>) w1)"
        using w' by simp
      have open_w': "mset (open_requests (w_clients w' c)) = add_mset r (mset (open_requests (w_clients w1 c)))"
        by (simp add: e spawn_def open_requests_def)
      have parts: "cl_options (w_clients w' c) = cl_options (w_clients w1 c)" "cl_state (w_clients w' c) = cl_state (w_clients w1 c)"
        "cl_rxQueue (w_clients w' c) = cl_rxQueue (w_clients w1 c)"
        "cl_handlingReq (w_clients w' c) = insert (rq_Id r) (cl_handlingReq (w_clients w1 c))"
        "cl_pending (w_clients w' c) = cl_pending (w_clients w1 c)"
        by (simp_all add: e spawn_def)
      have "opens c r w w'"
        using False calm1 unfolding opens_def open_w' parts by (simp add: calm_def same_session_def)
      with r show ?thesis by blast
    qed
  qed
qed

lemma handle_next_session:
  assumes "app_calm app c" and "handle_next app E c w = Done w'"
  shows "calm c w w' \<or>
    (\<exists>pkt q v. cl_rxQueue (w_clients w c) = pkt # q \<and> v = upd_client c (\<lambda>cl. cl\<lparr>cl_rxQueue := q\<rparr>) w \<and>
       (calm c v w' \<or> (\<exists>r. pk_PacketContent pkt = RequestPacket r \<and> opens c r v w')))"
proof (cases "cl_rxQueue (w_clients w c)")
  case Nil
  with assms(2) show ?thesis by (simp add: handle_next_def)
next
  case (Cons pkt q)
  let ?v = "upd_client c (\<lambda>cl. cl\<lparr>cl_rxQueue := q\<rparr>) w"
  let ?u = "upd_client c (\<lambda>cl. cl\<lparr>cl_rxQueue := q\<rparr>) (w\<lparr>w_Enqueue := w_Enqueue w - 1, w_EnConsume := w_EnConsume w + 1\<rparr>)"
  have cl: "w_clients ?u = w_clients ?v" by (simp add: upd_client_def)
  have calm_v: "calm c ?v x \<longleftrightarrow> calm c ?u x" "opens c r ?v x \<longleftrightarrow> opens c r ?u x" for x r
    by (simp_all only: calm_def same_session_def opens_def cl)
  have stop: "calm c ?u (upd_client c (\<lambda>cl. cl\<lparr>cl_running := False\<rparr>) ?u)" by (rule calm_upd) simp
  have "calm c ?u w' \<or> (\<exists>r. pk_PacketContent pkt = RequestPacket r \<and> opens c r ?u w')"
  proof (cases "packetHandler app E c (pk_PacketType pkt)")
    case None
    with assms(2) Cons stop show ?thesis by (simp add: handle_next_def Let_def)
  next
    case (Some h)
    then have h: "h pkt ?u = Done w'" using assms(2) Cons by (simp add: handle_next_def Let_def)
    from Some [unfolded packetHandler_def] show ?thesis
      using h onReceiveRequest_session [OF assms(1), of E pkt ?u w'] handlers_calm [of c pkt ?u w' c]
        onReceiveStreamRequest_calm [of c pkt ?u w' c]
      by (auto split: if_splits)
  qed
  with Cons calm_v show ?thesis by metis
qed

subsection \<open>The goroutines\<close>

lemma open_drop:
  "i < length (cl_tasks (w_clients w c)) \<Longrightarrow>
     mset (open_requests (w_clients w c)) =
       mset (request_of (cl_tasks (w_clients w c) ! i)) + mset (open_requests (w_clients (drop_task c i w) c))"
proof -
  let ?ts = "cl_tasks (w_clients w c)"
  assume i: "i < length ?ts"
  have "?ts = take i ?ts @ ?ts ! i # drop (Suc i) ?ts" using i by (rule id_take_nth_drop)
  then have "concat (map request_of ?ts) = concat (map request_of (take i ?ts)) @ request_of (?ts ! i) @ concat (map request_of (drop (Suc i) ?ts))"
    by (metis concat.simps(2) concat_append list.simps(9) map_append)
  then show ?thesis by (simp add: open_requests_def drop_task_def)
qed

lemma spawn_all_open:
  "mset (open_requests (w_clients (fold (spawn c) ts w) c)) = mset (open_requests (w_clients w c)) + mset (concat (map request_of ts))"
  "cl_options (w_clients (fold (spawn c) ts w) c) = cl_options (w_clients w c)"
  "cl_rxQueue (w_clients (fold (spawn c) ts w) c) = cl_rxQueue (w_clients w c)"
  "cl_handlingReq (w_clients (fold (spawn c) ts w) c) = cl_handlingReq (w_clients w c)"
  "cl_state (w_clients (fold (spawn c) ts w) c) = cl_state (w_clients w c)"
  "cl_pending (w_clients (fold (spawn c) ts w) c) = cl_pending (w_clients w c)"
  by (induction ts arbitrary: w) (simp_all add: spawn_def open_requests_def)

lemma task_start_session:
  assumes "app_calm app c" and "task_start app E c t w = Done (ts, w')"
  shows "calm c w w' \<and> concat (map request_of ts) = request_of t"
proof (cases t)
  case (ExecRequest r)
  with assms(2) obtain resp w1 where w1: "respond app E c r w = Done (resp, w1)"
    and e: "(case open_call RetryNotify c (ResponsePacket resp) w1 of (i, w2) \<Rightarrow> Done ([AwaitReply r resp i None], w2)) = Done (ts, w')"
    by (auto simp: and_then_eq_Done)
  from e have "calm c w1 w'" "ts = [AwaitReply r resp (fst (open_call RetryNotify c (ResponsePacket resp) w1)) None]"
    by (cases "open_call RetryNotify c (ResponsePacket resp) w1"; auto intro: calm_open_call)+
  with respond_calm [OF assms(1) w1] ExecRequest show ?thesis by (auto intro: calm_trans)
next
  case (StartCall k p)
  with assms(2) show ?thesis
    by (cases "open_call k c p w") (auto intro: calm_open_call)
next
  case (RunStream h r s)
  obtain answer w1 where a: "app_stream app h r s w = (answer, w1)" by fastforce
  then have "calm c w w1" using assms(1) by (metis app_calm_def snd_conv)
  with a RunStream assms(2) show ?thesis
    by (auto simp: outcome_simps intro: calm_trans end_stream_calm)
qed (use assms in \<open>auto simp: outcome_simps intro: SendPacketDirect_calm\<close>)

lemma start_task_session:
  assumes "app_calm app c" and "start_task app E c i w = Done w'"
  shows "calm c w w'"
proof (cases "i < length (cl_tasks (w_clients w c))")
  case True
  then obtain ts w1 where t: "task_start app E c (cl_tasks (w_clients w c) ! i) (drop_task c i w) = Done (ts, w1)"
    and w': "w' = fold (spawn c) ts w1" using assms(2) by (auto simp: start_task_def outcome_simps)
  note same = task_start_session [OF assms(1) t]
  have "mset (open_requests (w_clients w' c)) = mset (open_requests (w_clients w c))"
    using same unfolding w' spawn_all_open open_drop [OF True] by (simp add: calm_def same_session_def add.commute)
  moreover have "cl_options (w_clients (drop_task c i w) c) = cl_options (w_clients w c)"
    "cl_rxQueue (w_clients (drop_task c i w) c) = cl_rxQueue (w_clients w c)"
    "cl_handlingReq (w_clients (drop_task c i w) c) = cl_handlingReq (w_clients w c)"
    "cl_state (w_clients (drop_task c i w) c) = cl_state (w_clients w c)"
    "cl_pending (w_clients (drop_task c i w) c) = cl_pending (w_clients w c)"
    by (simp_all add: drop_task_def)
  ultimately show ?thesis
    using same unfolding calm_def same_session_def w' spawn_all_open by simp
qed (use assms(2) in \<open>simp add: start_task_def\<close>)

lemma request_of_with_slice [simp]: "request_of (with_slice b t) = request_of t"
  by (cases t) simp_all

lemma set_task_calm:
  assumes "n < length (cl_tasks (w_clients w c))" "request_of t = request_of (cl_tasks (w_clients w c) ! n)"
  shows "calm c w (set_task c n t w)"
proof -
  have "map request_of ((cl_tasks (w_clients w c))[n := t]) = map request_of (cl_tasks (w_clients w c))"
    using assms by (simp add: map_update list_update_same_conv)
  then show ?thesis by (simp add: calm_def same_session_def open_requests_def set_task_def)
qed

lemma send_call_tasks:
  "send_call c p sl w = Done (b, w') \<Longrightarrow> cl_tasks (w_clients w' c) = cl_tasks (w_clients w c)"
  by (auto simp: send_call_def outcome_simps marshal_buf_def new_buf_def dest!: SendMessage_clients split: option.splits)

lemma call_task_calm:
  assumes "call_task pick c n w = Done w'"
  shows "calm c w w'"
proof (cases "w' = w")
  case False
  then obtain p i sl r where t: "n < length (cl_tasks (w_clients w c))" "task_call (cl_tasks (w_clients w c) ! n) = Some (p, i, sl)"
    and r: "call_step pick i (cl_pending (w_clients w c)) = Some r"
    using assms by (auto simp: call_task_def split: if_splits option.splits)
  then obtain s where s: "r = Done s" and w': "(let w1 = upd_client c (\<lambda>cl. cl\<lparr>cl_pending := s\<rparr>) w in
      if pn_sent s = pn_sent (cl_pending (w_clients w c)) then Done w1
      else and_then (send_call c p sl w1)
        (\<lambda>(b, w2). Done (set_task c n (with_slice b (cl_tasks (w_clients w c) ! n)) w2))) = Done w'"
    using assms by (auto simp: call_task_def outcome_simps)
  let ?w1 = "upd_client c (\<lambda>cl. cl\<lparr>cl_pending := s\<rparr>) w"
  have calm1: "calm c w ?w1" using r s by (intro calm_pending pend_events(1)) auto
  show ?thesis
  proof (cases "pn_sent s = pn_sent (cl_pending (w_clients w c))")
    case True
    with w' calm1 show ?thesis by (simp add: Let_def)
  next
    case False
    with w' obtain b w2 where w2: "send_call c p sl ?w1 = Done (b, w2)"
      and e: "w' = set_task c n (with_slice b (cl_tasks (w_clients w c) ! n)) w2" by (auto simp: outcome_simps Let_def)
    have tasks: "cl_tasks (w_clients w2 c) = cl_tasks (w_clients w c)" using send_call_tasks [OF w2] by simp
    have "calm c w2 w'" unfolding e by (rule set_task_calm) (use t tasks in simp_all)
    with calm1 send_call_calm [OF w2] show ?thesis by (blast intro: calm_trans)
  qed
qed simp

text \<open>Whether the end of a reply counts as a success of its request.\<close>

definition succeeded :: "string \<Rightarrow> client_task \<Rightarrow> string option \<Rightarrow> bool" where
  "succeeded method t err \<longleftrightarrow>
     (\<exists>r resp i b. t = AwaitReply r resp i b \<and> rq_Method r = method \<and> rs_Error resp = [] \<and> err = None)"

lemma after_reply_session:
  assumes "after_reply sched c r resp err w = Done w'"
  shows "same_session c w w' \<and> (cl_state (w_clients w' c) \<in> {cl_state (w_clients w c), DISCONNECT} \<or>
     rs_Error resp = [] \<and> err = None \<and>
       (rq_Method r = EXCHANGE_SECRET \<and> cl_state (w_clients w' c) = settle (cl_options (w_clients w c)) EXCHANGED_SECRET \<or>
        rq_Method r = LOGIN \<and> cl_state (w_clients w' c) = LOGINED))"
proof -
  have "LOGIN \<noteq> EXCHANGE_SECRET" by (simp add: LOGIN_def EXCHANGE_SECRET_def)
  with assms changeState_same [of sched c EXCHANGED_SECRET w w'] changeState_same [of sched c LOGINED w w'] show ?thesis
    by (auto simp: after_reply_def same_session_def split: if_splits)
qed

text \<open>The requests of the finished task are closed.\<close>

lemma finish_task_session:
  assumes "finish_task sched c n w = Done w'" and "n < length (cl_tasks (w_clients w c))"
  defines "t \<equiv> cl_tasks (w_clients w c) ! n"
  assumes err: "task_error c t w = Some err"
  shows "calm c w w' \<and> (\<forall>r resp i b. t \<noteq> AwaitReply r resp i b) \<or>
    (\<exists>r resp i b. t = AwaitReply r resp i b \<and>
       cl_options (w_clients w' c) = cl_options (w_clients w c) \<and> cl_rxQueue (w_clients w' c) = cl_rxQueue (w_clients w c) \<and>
       mset (open_requests (w_clients w c)) = add_mset r (mset (open_requests (w_clients w' c))) \<and>
       cl_handlingReq (w_clients w' c) = cl_handlingReq (w_clients w c) - {rq_Id r} \<and>
       pend_steps (cl_pending (w_clients w c)) (cl_pending (w_clients w' c)) \<and>
       (cl_state (w_clients w' c) \<in> {cl_state (w_clients w c), DISCONNECT} \<or>
        succeeded EXCHANGE_SECRET t err \<and> cl_state (w_clients w' c) = settle (cl_options (w_clients w c)) EXCHANGED_SECRET \<or>
        succeeded LOGIN t err \<and> cl_state (w_clients w' c) = LOGINED))"
proof -
  let ?d = "drop_task c n w"
  have parts: "cl_options (w_clients ?d c) = cl_options (w_clients w c)" "cl_rxQueue (w_clients ?d c) = cl_rxQueue (w_clients w c)"
    "cl_handlingReq (w_clients ?d c) = cl_handlingReq (w_clients w c)" "cl_state (w_clients ?d c) = cl_state (w_clients w c)"
    "cl_pending (w_clients ?d c) = cl_pending (w_clients w c)"
    by (simp_all add: drop_task_def)
  have fin: "task_finish sched c err t ?d = Done w'"
    using assms(1,2) err by (simp add: finish_task_def t_def)
  show ?thesis
  proof (cases t)
    case (AwaitReply r resp i b)
    with fin obtain w1 where w1: "after_reply sched c r resp err ?d = Done w1"
      and w': "w' = upd_client c (\<lambda>cl. cl\<lparr>cl_handlingReq := cl_handlingReq cl - {rq_Id r}\<rparr>) w1"
      by (auto simp: and_then_eq_Done)
    have w'_parts: "cl_options (w_clients w' c) = cl_options (w_clients w1 c)" "cl_rxQueue (w_clients w' c) = cl_rxQueue (w_clients w1 c)"
      "open_requests (w_clients w' c) = open_requests (w_clients w1 c)" "cl_state (w_clients w' c) = cl_state (w_clients w1 c)"
      "cl_handlingReq (w_clients w' c) = cl_handlingReq (w_clients w1 c) - {rq_Id r}"
      "cl_pending (w_clients w' c) = cl_pending (w_clients w1 c)"
      by (simp_all add: w' open_requests_def)
    have "mset (open_requests (w_clients w c)) = add_mset r (mset (open_requests (w_clients ?d c)))"
      using open_drop [OF assms(2)] AwaitReply by (simp add: t_def)
    then show ?thesis
      using after_reply_session [OF w1] unfolding w'_parts parts same_session_def
      by (intro disjI2 exI [of _ r] exI [of _ resp] exI [of _ i] exI [of _ b]) (auto simp: AwaitReply succeeded_def)
  next
    case (InCall p i b)
    have "calm c w ?d"
      using open_drop [OF assms(2)] InCall parts by (simp add: calm_def same_session_def t_def)
    moreover have "w' = ?d" using fin InCall by simp
    ultimately show ?thesis using InCall by simp
  qed (use err in \<open>simp_all add: task_error_def\<close>)
qed

subsection \<open>Sessions\<close>

text \<open>
  The world with a memory: whether an exchange of secrets and a login of the client succeeded,
  and whether its state ever was DISCONNECT. The steps are the client's own, and any other
  change of the world that leaves its queue and its requests alone.
\<close>

record 'k session =
  ss_world :: "'k world"
  ss_exchanged :: bool
  ss_logged :: bool
  ss_fallen :: bool

definition session_to :: "nat \<Rightarrow> 'k world \<Rightarrow> 'k session \<Rightarrow> 'k session" where
  "session_to c w s = s\<lparr>ss_world := w, ss_fallen := ss_fallen s \<or> cl_state (w_clients w c) = DISCONNECT\<rparr>"

inductive session_step :: "'k app \<Rightarrow> 'k curve \<Rightarrow> 'k sched \<Rightarrow> nat \<Rightarrow> 'k session \<Rightarrow> 'k session \<Rightarrow> bool"
  for app :: "'k app" and E :: "'k curve" and sched :: "'k sched" and c :: nat where
  receives: "new_buf bs (ss_world s) = (b, v) \<Longrightarrow> receiveMessage c b v = Done w' \<Longrightarrow> session_step app E sched c s (session_to c w' s)"
| handles: "handle_next app E c (ss_world s) = Done w' \<Longrightarrow> session_step app E sched c s (session_to c w' s)"
| starts: "start_task app E c i (ss_world s) = Done w' \<Longrightarrow> session_step app E sched c s (session_to c w' s)"
| calls: "call_task pick c i (ss_world s) = Done w' \<Longrightarrow> session_step app E sched c s (session_to c w' s)"
| finishes: "i < length (cl_tasks (w_clients (ss_world s) c)) \<Longrightarrow> t = cl_tasks (w_clients (ss_world s) c) ! i \<Longrightarrow>
    task_error c t (ss_world s) = Some err \<Longrightarrow> finish_task sched c i (ss_world s) = Done w' \<Longrightarrow>
    session_step app E sched c s
      (session_to c w' (s\<lparr>ss_exchanged := ss_exchanged s \<or> succeeded EXCHANGE_SECRET t err,
         ss_logged := ss_logged s \<or> succeeded LOGIN t err\<rparr>))"
| ticks: "tick sched c (ss_world s) = Done w' \<Longrightarrow> session_step app E sched c s (session_to c w' s)"
| others: "falls c (ss_world s) w' \<Longrightarrow> session_step app E sched c s (session_to c w' s)"

text \<open>A client just made by the hub, of a server with a Crypto object and a login.\<close>

definition session_start :: "nat \<Rightarrow> 'k session \<Rightarrow> bool" where
  "session_start c s \<longleftrightarrow> cl_tasks (w_clients (ss_world s) c) = [] \<and> cl_handlingReq (w_clients (ss_world s) c) = {} \<and>
     cl_rxQueue (w_clients (ss_world s) c) = [] \<and> cl_state (w_clients (ss_world s) c) = CONNECTED \<and>
     co_NeedLogin (cl_options (w_clients (ss_world s) c)) \<and> cl_pending (w_clients (ss_world s) c) = pending_start \<and>
     \<not> ss_exchanged s \<and> \<not> ss_logged s \<and> \<not> ss_fallen s"

inductive session_reach :: "'k app \<Rightarrow> 'k curve \<Rightarrow> 'k sched \<Rightarrow> nat \<Rightarrow> 'k session \<Rightarrow> bool"
  for app :: "'k app" and E :: "'k curve" and sched :: "'k sched" and c :: nat where
  begins: "session_start c s \<Longrightarrow> session_reach app E sched c s"
| goes_on: "session_reach app E sched c s \<Longrightarrow> session_step app E sched c s s' \<Longrightarrow> session_reach app E sched c s'"

text \<open>What a step does to the session, whichever it is.\<close>

inductive session_effect :: "nat \<Rightarrow> 'k session \<Rightarrow> 'k session \<Rightarrow> bool" for c :: nat where
  still: "falls c (ss_world s) w' \<Longrightarrow> session_effect c s (session_to c w' s)"
| queued: "admits (cl_state (w_clients (ss_world s) c)) (pk_PacketContent pkt) \<Longrightarrow>
    cl_rxQueue (w_clients w' c) = cl_rxQueue (w_clients (ss_world s) c) @ [pkt] \<Longrightarrow>
    cl_state (w_clients w' c) = cl_state (w_clients (ss_world s) c) \<Longrightarrow>
    cl_options (w_clients w' c) = cl_options (w_clients (ss_world s) c) \<Longrightarrow>
    mset (open_requests (w_clients w' c)) = mset (open_requests (w_clients (ss_world s) c)) \<Longrightarrow>
    cl_handlingReq (w_clients w' c) = cl_handlingReq (w_clients (ss_world s) c) \<Longrightarrow>
    cl_pending (w_clients w' c) = cl_pending (w_clients (ss_world s) c) \<Longrightarrow>
    session_effect c s (session_to c w' s)"
| handled: "cl_rxQueue (w_clients (ss_world s) c) = pkt # q \<Longrightarrow>
    calm c (upd_client c (\<lambda>cl. cl\<lparr>cl_rxQueue := q\<rparr>) (ss_world s)) w' \<Longrightarrow> session_effect c s (session_to c w' s)"
| opened: "cl_rxQueue (w_clients (ss_world s) c) = pkt # q \<Longrightarrow> pk_PacketContent pkt = RequestPacket r \<Longrightarrow>
    opens c r (upd_client c (\<lambda>cl. cl\<lparr>cl_rxQueue := q\<rparr>) (ss_world s)) w' \<Longrightarrow> session_effect c s (session_to c w' s)"
| closed: "t = AwaitReply r resp i b \<Longrightarrow>
    pend_steps (cl_pending (w_clients (ss_world s) c)) (cl_pending (w_clients w' c)) \<Longrightarrow>
    cl_options (w_clients w' c) = cl_options (w_clients (ss_world s) c) \<Longrightarrow>
    cl_rxQueue (w_clients w' c) = cl_rxQueue (w_clients (ss_world s) c) \<Longrightarrow>
    mset (open_requests (w_clients (ss_world s) c)) = add_mset r (mset (open_requests (w_clients w' c))) \<Longrightarrow>
    cl_handlingReq (w_clients w' c) = cl_handlingReq (w_clients (ss_world s) c) - {rq_Id r} \<Longrightarrow>
    cl_state (w_clients w' c) \<in> {cl_state (w_clients (ss_world s) c), DISCONNECT} \<or>
      succeeded EXCHANGE_SECRET t err \<and> cl_state (w_clients w' c) = settle (cl_options (w_clients (ss_world s) c)) EXCHANGED_SECRET \<or>
      succeeded LOGIN t err \<and> cl_state (w_clients w' c) = LOGINED \<Longrightarrow>
    session_effect c s (session_to c w' (s\<lparr>ss_exchanged := ss_exchanged s \<or> succeeded EXCHANGE_SECRET t err,
      ss_logged := ss_logged s \<or> succeeded LOGIN t err\<rparr>))"

lemma session_step_effect:
  assumes "app_calm app c" and "session_step app E sched c s s'"
  shows "session_effect c s s'"
  using assms(2)
proof cases
  case (receives bs b v u)
  then have v: "w_clients v = w_clients (ss_world s)" by (auto simp: new_buf_def)
  from receive_session [OF receives(3)] show ?thesis
  proof (elim disjE exE conjE)
    assume "calm c v u"
    then have "falls c (ss_world s) u" by (simp add: calm_def falls_def same_session_def v)
    then show ?thesis unfolding receives(1) by (rule session_effect.still)
  next
    fix pkt
    assume q: "admits (cl_state (w_clients v c)) (pk_PacketContent pkt)"
      "cl_rxQueue (w_clients u c) = cl_rxQueue (w_clients v c) @ [pkt]"
      "cl_state (w_clients u c) = cl_state (w_clients v c)" "cl_options (w_clients u c) = cl_options (w_clients v c)"
      "cl_tasks (w_clients u c) = cl_tasks (w_clients v c)" "cl_handlingReq (w_clients u c) = cl_handlingReq (w_clients v c)"
      "cl_pending (w_clients u c) = cl_pending (w_clients v c)"
    show ?thesis unfolding receives(1)
      by (rule session_effect.queued [where pkt = pkt]) (use q in \<open>simp_all add: v open_requests_def\<close>)
  qed
next
  case (handles u)
  from handle_next_session [OF assms(1) handles(2)] show ?thesis
    unfolding handles(1)
  proof (elim disjE exE conjE)
    assume "calm c (ss_world s) u"
    then show "session_effect c s (session_to c u s)" by (intro session_effect.still calm_falls)
  qed (simp add: session_effect.handled, simp add: session_effect.opened)
next
  case (starts i u)
  from start_task_session [OF assms(1) starts(2)] show ?thesis
    unfolding starts(1) by (intro session_effect.still calm_falls)
next
  case (calls pick i u)
  from call_task_calm [OF calls(2)] show ?thesis
    unfolding calls(1) by (intro session_effect.still calm_falls)
next
  case (finishes i t err u)
  from finish_task_session [OF finishes(5,2) finishes(4) [unfolded finishes(3)]] show ?thesis
    unfolding finishes(1) finishes(3) [symmetric]
  proof (elim disjE exE conjE)
    assume "calm c (ss_world s) u" and "\<forall>r resp i b. t \<noteq> AwaitReply r resp i b"
    then have "session_effect c s (session_to c u s)" and "\<not> succeeded m t err" for m
      by (auto intro: session_effect.still calm_falls simp: succeeded_def)
    then show "session_effect c s (session_to c u (s\<lparr>ss_exchanged := ss_exchanged s \<or> succeeded EXCHANGE_SECRET t err,
        ss_logged := ss_logged s \<or> succeeded LOGIN t err\<rparr>))" by simp
  qed (rule session_effect.closed; simp)+
next
  case (ticks u)
  from tick_falls [OF ticks(2)] show ?thesis unfolding ticks(1) by (rule session_effect.still)
next
  case (others u)
  from others(2) show ?thesis unfolding others(1) by (rule session_effect.still)
qed

subsection \<open>The invariants\<close>

definition open_ok :: "client \<Rightarrow> bool" where
  "open_ok cl \<longleftrightarrow> distinct (map rq_Id (open_requests cl)) \<and> cl_handlingReq cl = rq_Id ` set (open_requests cl)"

lemma open_ok_more:
  assumes "mset (open_requests x) = mset xs"
  shows "open_ok x \<longleftrightarrow> distinct (map rq_Id xs) \<and> cl_handlingReq x = rq_Id ` set xs"
proof -
  have "mset (map rq_Id (open_requests x)) = mset (map rq_Id xs)" using assms by simp
  then have "distinct (map rq_Id (open_requests x)) = distinct (map rq_Id xs)" by (rule mset_eq_imp_distinct_iff)
  with mset_eq_setD [OF assms] show ?thesis by (simp add: open_ok_def)
qed

lemma open_ok_same:
  "mset (open_requests x) = mset (open_requests y) \<Longrightarrow> cl_handlingReq x = cl_handlingReq y \<Longrightarrow> open_ok x \<longleftrightarrow> open_ok y"
  using open_ok_more [of x "open_requests y"] by (simp add: open_ok_def)

lemma open_ok_effect:
  assumes "session_effect c s s'" and "open_ok (w_clients (ss_world s) c)"
  shows "open_ok (w_clients (ss_world s') c)"
  using assms(1)
proof cases
  case (still w')
  then show ?thesis using assms(2) open_ok_same [of "w_clients w' c" "w_clients (ss_world s) c"]
    by (simp add: falls_def same_session_def session_to_def)
next
  case (queued pkt w')
  then show ?thesis using assms(2) open_ok_same [of "w_clients w' c" "w_clients (ss_world s) c"]
    by (simp add: session_to_def)
next
  case (handled pkt q w')
  then show ?thesis using assms(2) open_ok_same [of "w_clients w' c" "w_clients (ss_world s) c"]
    by (simp add: calm_def same_session_def session_to_def open_requests_def)
next
  case (opened pkt q r w')
  have "mset (open_requests (w_clients w' c)) = mset (r # open_requests (w_clients (ss_world s) c))"
    using opened(4) by (simp add: opens_def open_requests_def)
  from open_ok_more [OF this] show ?thesis
    using opened assms(2) by (auto simp: opens_def open_ok_def session_to_def)
next
  case (closed t r resp i b w' err)
  have "mset (open_requests (w_clients (ss_world s) c)) = mset (r # open_requests (w_clients w' c))"
    using closed(6) by simp
  from open_ok_more [OF this] show ?thesis
    using closed(1,7) assms(2) by (auto simp: open_ok_def session_to_def) (metis image_eqI)
qed

text \<open>
  C2: At any time at most one goroutine of a client executes or answers a request of a given
  id, however often the packet arrives, and handlingReq holds exactly the ids of these.
\<close>

theorem one_execution_per_id:
  assumes "app_calm app c" and "session_reach app E sched c s"
  shows "distinct (map rq_Id (open_requests (w_clients (ss_world s) c))) \<and>
    cl_handlingReq (w_clients (ss_world s) c) = rq_Id ` set (open_requests (w_clients (ss_world s) c))"
  using assms(2)
proof (induction rule: session_reach.induct)
  case (begins s)
  then show ?case by (simp add: session_start_def open_requests_def)
next
  case (goes_on s s')
  then show ?case using open_ok_effect [OF session_step_effect [OF assms(1)]] by (simp add: open_ok_def)
qed

text \<open>What holds of a client until it exchanged secrets, and until it logged in.\<close>

definition gate_ok :: "nat \<Rightarrow> 'k session \<Rightarrow> bool" where
  "gate_ok c s \<longleftrightarrow>
     (let cl = w_clients (ss_world s) c in
      co_NeedLogin (cl_options cl) \<and> (cl_state cl = DISCONNECT \<longrightarrow> ss_fallen s) \<and> (cl_state cl = LOGINED \<longrightarrow> ss_logged s) \<and>
      (ss_fallen s \<or> ss_exchanged s \<or>
        cl_state cl = CONNECTED \<and> \<not> ss_logged s \<and> (\<forall>pkt \<in> set (cl_rxQueue cl). admits CONNECTED (pk_PacketContent pkt)) \<and>
        (\<forall>r \<in> set (open_requests cl). rq_Method r = EXCHANGE_SECRET)) \<and>
      (ss_fallen s \<or> ss_logged s \<or>
        cl_state cl \<in> {CONNECTED, EXCHANGED_SECRET} \<and>
        (\<forall>pkt \<in> set (cl_rxQueue cl). admits EXCHANGED_SECRET (pk_PacketContent pkt)) \<and>
        (\<forall>r \<in> set (open_requests cl). rq_Method r \<in> {EXCHANGE_SECRET, LOGIN})))"

lemma admits_more: "admits CONNECTED p \<Longrightarrow> admits EXCHANGED_SECRET p"
  by (cases p) auto

lemma admits_request: "admits EXCHANGED_SECRET (RequestPacket r) \<Longrightarrow> rq_Method r \<in> {EXCHANGE_SECRET, LOGIN}"
  by auto

text \<open>A step that keeps the options, closes requests at most, and queues nothing new.\<close>

lemma gate_ok_shrink:
  assumes "gate_ok c s" and "cl_options (w_clients w' c) = cl_options (w_clients (ss_world s) c)"
    and "set (cl_rxQueue (w_clients w' c)) \<subseteq> set (cl_rxQueue (w_clients (ss_world s) c))"
    and "set (open_requests (w_clients w' c)) \<subseteq> set (open_requests (w_clients (ss_world s) c))"
    and "cl_state (w_clients w' c) \<in> {cl_state (w_clients (ss_world s) c), DISCONNECT}"
  shows "gate_ok c (session_to c w' s)"
  using assms unfolding gate_ok_def session_to_def Let_def by auto

lemma gate_ok_effect:
  assumes "session_effect c s s'" and "gate_ok c s"
  shows "gate_ok c s'"
  using assms(1)
proof cases
  case (still w')
  show ?thesis unfolding still(1)
    by (rule gate_ok_shrink [OF assms(2)]) (use still(2) in \<open>auto simp: falls_def same_session_def dest: mset_eq_setD\<close>)
next
  case (handled pkt q w')
  have "set (open_requests (w_clients w' c)) = set (open_requests (w_clients (ss_world s) c))"
    by (rule mset_eq_setD) (use handled(3) in \<open>simp add: calm_def same_session_def open_requests_def\<close>)
  then show ?thesis unfolding handled(1)
    by (intro gate_ok_shrink [OF assms(2)]) (use handled(2,3) in \<open>auto simp: calm_def same_session_def\<close>)
next
  case (queued pkt w')
  have "set (open_requests (w_clients w' c)) = set (open_requests (w_clients (ss_world s) c))"
    using queued(6) by (rule mset_eq_setD)
  then show ?thesis
    using assms(2) queued admits_more [of "pk_PacketContent pkt"]
    unfolding gate_ok_def session_to_def Let_def by auto
next
  case (opened pkt q r w')
  have open_w': "set (open_requests (w_clients w' c)) = insert r (set (open_requests (w_clients (ss_world s) c)))"
    using opened(4) mset_eq_setD [of "open_requests (w_clients w' c)" "r # open_requests (w_clients (ss_world s) c)"]
    by (simp add: opens_def open_requests_def)
  show ?thesis
    using assms(2) opened open_w' admits_request [of r]
    unfolding gate_ok_def session_to_def opens_def Let_def by auto
next
  case (closed t r resp i b w' err)
  have open_w': "set (open_requests (w_clients (ss_world s) c)) = insert r (set (open_requests (w_clients w' c)))"
    using closed(6) mset_eq_setD [of "open_requests (w_clients (ss_world s) c)" "r # open_requests (w_clients w' c)"] by simp
  have suc: "succeeded m t err \<Longrightarrow> rq_Method r = m" for m using closed(2) by (auto simp: succeeded_def)
  let ?old = "w_clients (ss_world s) c" and ?new = "w_clients w' c"
  have old: "(\<forall>x \<in> set (open_requests ?old). P x) \<longleftrightarrow> P r \<and> (\<forall>x \<in> set (open_requests ?new). P x)" for P
    using open_w' by simp
  note g = assms(2) [unfolded gate_ok_def Let_def old]
  have nl: "co_NeedLogin (cl_options ?old)" using g by blast
  then have st: "cl_state ?new \<in> {cl_state ?old, DISCONNECT} \<or> succeeded EXCHANGE_SECRET t err \<and> cl_state ?new = EXCHANGED_SECRET \<or>
      succeeded LOGIN t err \<and> cl_state ?new = LOGINED" using closed(8) by simp
  have sets: "gate_ok c s' \<longleftrightarrow>
      (cl_state ?new = DISCONNECT \<longrightarrow> ss_fallen s') \<and> (cl_state ?new = LOGINED \<longrightarrow> ss_logged s') \<and>
      (ss_fallen s' \<or> ss_exchanged s' \<or> cl_state ?new = CONNECTED \<and> \<not> ss_logged s' \<and>
        (\<forall>pkt \<in> set (cl_rxQueue ?old). admits CONNECTED (pk_PacketContent pkt)) \<and>
        (\<forall>x \<in> set (open_requests ?new). rq_Method x = EXCHANGE_SECRET)) \<and>
      (ss_fallen s' \<or> ss_logged s' \<or> cl_state ?new \<in> {CONNECTED, EXCHANGED_SECRET} \<and>
        (\<forall>pkt \<in> set (cl_rxQueue ?old). admits EXCHANGED_SECRET (pk_PacketContent pkt)) \<and>
        (\<forall>x \<in> set (open_requests ?new). rq_Method x \<in> {EXCHANGE_SECRET, LOGIN}))"
    using nl closed(4,5) unfolding gate_ok_def Let_def closed(1) session_to_def by simp
  have flags: "ss_fallen s' \<longleftrightarrow> ss_fallen s \<or> cl_state ?new = DISCONNECT"
    "ss_exchanged s' \<longleftrightarrow> ss_exchanged s \<or> succeeded EXCHANGE_SECRET t err" "ss_logged s' \<longleftrightarrow> ss_logged s \<or> succeeded LOGIN t err"
    by (simp_all add: closed(1) session_to_def)
  consider "ss_fallen s" | "\<not> ss_fallen s" "ss_logged s" | "\<not> ss_fallen s" "\<not> ss_logged s" "ss_exchanged s"
    | "\<not> ss_fallen s" "\<not> ss_logged s" "\<not> ss_exchanged s" by blast
  then show ?thesis
  proof cases
    case 4
    then have "\<not> succeeded LOGIN t err" using g suc [of LOGIN] by (auto simp: LOGIN_def EXCHANGE_SECRET_def)
    with 4 g st show ?thesis unfolding sets flags by auto
  qed (use g st in \<open>unfold sets flags, auto\<close>)
qed


lemma pend_effect:
  "session_effect c s s' \<Longrightarrow> pend_steps (cl_pending (w_clients (ss_world s) c)) (cl_pending (w_clients (ss_world s') c))"
  by (induction rule: session_effect.induct)
    (simp_all add: falls_def calm_def same_session_def opens_def session_to_def)


definition sample_session :: "unit session" where
  "sample_session = \<lparr>ss_world = set_client 0 ((newClient (Some 0) (no_options\<lparr>co_NeedLogin := True, co_Crypto := Some 0\<rparr>) ''u'' 1 0)
     \<lparr>cl_state := CONNECTED, cl_handlerMgr := 0\<rparr>) (New (\<lambda>y. NewCrypto ()) 0), ss_exchanged = False, ss_logged = False, ss_fallen = False\<rparr>"

definition quiet_app :: "'k app" where
  "quiet_app = \<lparr>app_request = \<lambda>n r c w. (Returns JNull None, w), app_stream = \<lambda>n r c w. (Returns () None, w)\<rparr>"

lemma sample_session_reach: "app_calm quiet_app c" "session_reach quiet_app E sched 0 sample_session"
  by (simp add: app_calm_def quiet_app_def)
    (rule session_reach.begins, simp add: session_start_def sample_session_def set_client_def newClient_def no_options_def)

text \<open>The session after a request for the exchange of secrets arrived.\<close>

definition sample_request :: request_packet where
  "sample_request = \<lparr>rq_Id = ''a'', rq_Method = EXCHANGE_SECRET, rq_Params = None, rq_ClientId = []\<rparr>"

definition sample_bytes :: bytes where
  "sample_bytes = bytes_of_string (''1@'' @ ''{\"id\":\"a\",\"method\":\"exchange_secret\",\"params\":null}'')"

lemma Unmarshal_sample: "Unmarshal sample_bytes = Inr (RequestPacket sample_request)"
  by code_simp

lemma sample_receives:
  "\<exists>b v w'. new_buf sample_bytes (ss_world sample_session) = (b, v) \<and> receiveMessage 0 b v = Done w' \<and>
     cl_rxQueue (w_clients w' 0) = [\<lparr>pk_RawData = b, pk_PacketType = REQUEST_PACKET,
       pk_PacketContent = RequestPacket sample_request, pk_Client = 0\<rparr>] \<and>
     cl_state (w_clients w' 0) = CONNECTED \<and> cl_conn (w_clients w' 0) = Some 0 \<and> cl_handlingReq (w_clients w' 0) = {} \<and>
     cl_tasks (w_clients w' 0) = []"
  by (simp add: sample_session_def new_buf_def receiveMessage_def decrypt_received_def set_client_def newClient_def
    no_options_def Unmarshal_sample enqueue_packet_def chan_send_def RxQueueLen_def upd_client_def Let_def
    sample_request_def)

definition sample_queued :: "unit session" where
  "sample_queued = (case new_buf sample_bytes (ss_world sample_session) of (b, v) \<Rightarrow>
     (case receiveMessage 0 b v of Done w' \<Rightarrow> session_to 0 w' sample_session | _ \<Rightarrow> sample_session))"

lemma sample_queued_reach: "session_reach quiet_app E sched 0 sample_queued"
proof -
  obtain b v w' where w': "new_buf sample_bytes (ss_world sample_session) = (b, v)" "receiveMessage 0 b v = Done w'"
    using sample_receives by blast
  have q: "sample_queued = session_to 0 w' sample_session" by (simp add: sample_queued_def w')
  show ?thesis unfolding q
    by (rule session_reach.goes_on [OF sample_session_reach(2)]) (rule session_step.receives [OF w'])
qed

lemma sample_queued_parts:
  "\<exists>b. cl_rxQueue (w_clients (ss_world sample_queued) 0) = [\<lparr>pk_RawData = b, pk_PacketType = REQUEST_PACKET,
       pk_PacketContent = RequestPacket sample_request, pk_Client = 0\<rparr>]"
  "cl_state (w_clients (ss_world sample_queued) 0) = CONNECTED" "cl_conn (w_clients (ss_world sample_queued) 0) = Some 0"
  "cl_handlingReq (w_clients (ss_world sample_queued) 0) = {}" "cl_tasks (w_clients (ss_world sample_queued) 0) = []"
  "\<not> ss_fallen sample_queued" "\<not> ss_exchanged sample_queued"
  using sample_receives by (auto simp: sample_queued_def session_to_def sample_session_def)


text \<open>The session after the request was taken from the queue: its goroutine is there.\<close>

lemma send_ack_plain:
  "\<not> encrypts (w_clients w c) \<Longrightarrow> cl_conn (w_clients w c) = Some k \<Longrightarrow> \<exists>w'. send_ack c i w = Done w'"
  by (simp add: send_ack_def SendPacket_def SendMessage_def prepare_send_def marshal_buf_def new_buf_def upd_client_def
    encrypts_def Let_def split: option.split prod.split)

lemma sample_handled:
  "\<exists>w'. handle_next quiet_app E 0 (ss_world sample_queued) = Done w' \<and>
     open_requests (w_clients w' 0) = [sample_request] \<and> cl_state (w_clients w' 0) = CONNECTED"
proof -
  let ?w = "ss_world sample_queued"
  let ?v = "upd_client 0 (\<lambda>cl. cl\<lparr>cl_rxQueue := []\<rparr>) (?w\<lparr>w_Enqueue := w_Enqueue ?w - 1, w_EnConsume := w_EnConsume ?w + 1\<rparr>)"
  obtain b where q: "cl_rxQueue (w_clients ?w 0) = [\<lparr>pk_RawData = b, pk_PacketType = REQUEST_PACKET,
       pk_PacketContent = RequestPacket sample_request, pk_Client = 0\<rparr>]" using sample_queued_parts(1) by blast
  have "\<not> encrypts (w_clients ?v 0)" "cl_conn (w_clients ?v 0) = Some 0"
    using sample_queued_parts(2,3) by (simp_all add: encrypts_def)
  then obtain w1 where w1: "send_ack 0 ''a'' ?v = Done w1" using send_ack_plain by blast
  from send_ack_calm [OF w1, of 0] sample_queued_parts(2,4,5)
  have c: "open_requests (w_clients w1 0) = []" "cl_handlingReq (w_clients w1 0) = {}" "cl_state (w_clients w1 0) = CONNECTED"
    by (simp_all add: calm_def same_session_def open_requests_def)
  then show ?thesis
    by (simp add: handle_next_def q packetHandler_def onReceiveRequest_def sample_request_def w1 Let_def spawn_def
      open_requests_def)
qed

definition one_key :: "unit curve" where
  "one_key = \<lparr>pub_bytes = (\<lambda>k. []), valid_pub = (\<lambda>b. b = []), shared = (\<lambda>k b. Some [1])\<rparr>"

theorem one_execution_per_id_witness:
  "\<exists>s. session_reach quiet_app one_key (\<lambda>c w. True) 0 s \<and>
     open_requests (w_clients (ss_world s) 0) = [sample_request] \<and> cl_handlingReq (w_clients (ss_world s) 0) = {''a''}"
proof -
  obtain w' where w': "handle_next quiet_app one_key 0 (ss_world sample_queued) = Done w'"
    "open_requests (w_clients w' 0) = [sample_request]" using sample_handled by blast
  let ?s = "session_to 0 w' sample_queued"
  have r: "session_reach quiet_app one_key (\<lambda>c w. True) 0 ?s"
    by (rule session_reach.goes_on [OF sample_queued_reach]) (rule session_step.handles [OF w'(1)])
  have q: "open_requests (w_clients (ss_world ?s) 0) = [sample_request]" using w'(2) by (simp add: session_to_def)
  with one_execution_per_id [OF sample_session_reach(1) r]
  have "cl_handlingReq (w_clients (ss_world ?s) 0) = {''a''}" by (simp add: sample_request_def)
  with r q show ?thesis by blast
qed


end
