(* ===== verification/Client_Wire.thy ===== *)
theory Client_Wire
  imports Client_Session
begin

text \<open>
  What clients put on the wire and what packets do to them: retries and broadcasts encrypt a
  shared slice in place; which packets make the goroutine of a client panic; where the
  publication of a member arrives.
\<close>

subsection \<open>Slices that are sent more than once\<close>

definition encrypting :: "nat \<Rightarrow> nat \<Rightarrow> 'k world \<Rightarrow> bool" where
  "encrypting c y w \<longleftrightarrow> co_Crypto (cl_options (w_clients w c)) = Some y \<and> encrypts (w_clients w c) \<and>
     cl_conn (w_clients w c) \<noteq> None"

lemma SendMessage_encrypts:
  assumes "encrypting c y w" and "encoder (w_cryptos w y) = Some ci"
  shows "\<exists>e w'. SendMessage c b w = Done (e, w') \<and>
    w_bufs w' = (w_bufs w)(b := fst (xor_stream ci (w_bufs w b))) \<and>
    encoder (w_cryptos w' y) = Some (snd (xor_stream ci (w_bufs w b))) \<and>
    (\<forall>d z. encrypting d z w' = encrypting d z w) \<and> cl_conn (w_clients w' c) = cl_conn (w_clients w c) \<and>
    (\<forall>k. cl_conn (w_clients w c) = Some k \<longrightarrow> \<not> ic_closed (w_conns w k) \<longrightarrow> length (ic_queue (w_conns w k)) < 100 \<longrightarrow>
       w_conns w' = (w_conns w)(k := (w_conns w k)\<lparr>ic_queue := ic_queue (w_conns w k) @ [b]\<rparr>))"
proof -
  let ?u = "upd_client c (\<lambda>cl. cl\<lparr>cl_lastTxTime := Some (w_now w)\<rparr>) w"
  let ?cr = "(w_cryptos w y)\<lparr>encoder := Some (snd (xor_stream ci (w_bufs w b)))\<rparr>"
  let ?v = "?u\<lparr>w_cryptos := (w_cryptos w)(y := ?cr), w_bufs := (w_bufs w)(b := fst (xor_stream ci (w_bufs w b)))\<rparr>"
  obtain k where k: "cl_conn (w_clients w c) = Some k" using assms(1) by (auto simp: encrypting_def)
  have "encode_buf y b ?u = Done ?v"
    using encode_in_place [OF assms(2), of b "w_bufs w"] by (simp add: encode_buf_def upd_client_def)
  then have prep: "prepare_send c b w = Done ?v"
    using assms(1) by (simp add: prepare_send_def encrypting_def encrypts_def Let_def)
  have "SendMessage c b w = Done (conn_SendMessage k b ?v)"
    by (simp add: SendMessage_def prep k)
  then obtain e w' where w': "SendMessage c b w = Done (e, w')" "conn_SendMessage k b ?v = (e, w')"
    by (cases "conn_SendMessage k b ?v") auto
  have parts: "w_clients w' = w_clients ?v" "w_bufs w' = w_bufs ?v" "w_cryptos w' = w_cryptos ?v"
    using w'(2) by (auto simp: conn_SendMessage_def upd_conn_def Let_def split: if_splits)
  have "w_conns w' = (w_conns w)(j := (w_conns w j)\<lparr>ic_queue := ic_queue (w_conns w j) @ [b]\<rparr>)"
    if "cl_conn (w_clients w c) = Some j" "\<not> ic_closed (w_conns w j)" "length (ic_queue (w_conns w j)) < 100" for j
    using that k w'(2) by (auto simp: conn_SendMessage_def upd_conn_def upd_client_def Let_def split: if_splits)
  then show ?thesis
    using w'(1) by (intro exI [of _ e] exI [of _ w']) (simp add: parts encrypting_def encrypts_def)
qed


text \<open>Encrypting a slice again and again in place.\<close>

fun encrypt_times :: "nat \<Rightarrow> rc4 \<Rightarrow> bytes \<Rightarrow> bytes" where
  "encrypt_times 0 ci m = m"
| "encrypt_times (Suc n) ci m = encrypt_times n (snd (xor_stream ci m)) (fst (xor_stream ci m))"

text \<open>
  C28: A broadcast to members that share the server's Crypto object encrypts the one slice once
  for every member, so what is queued for each of them is encrypted as often as there are
  members.
\<close>

theorem broadcast_encrypts_per_member:
  assumes "\<And>c. c \<in> snd ` set (gr_clients (w_groups w g)) \<Longrightarrow> encrypting c y w" and "encoder (w_cryptos w y) = Some ci"
  shows "\<exists>w'. Broadcast g b w = Done w' \<and>
    w_bufs w' b = encrypt_times (length (gr_clients (w_groups w g))) ci (w_bufs w b)"
proof -
  have "\<exists>w'. broadcast_to cs b v = Done w' \<and> w_bufs w' b = encrypt_times (length cs) co (w_bufs v b)"
    if "\<And>c. c \<in> set cs \<Longrightarrow> encrypting c y v" "encoder (w_cryptos v y) = Some co" for cs v co
    using that
  proof (induction cs arbitrary: v co)
    case (Cons c cs)
    obtain e v' where v': "SendMessage c b v = Done (e, v')" "w_bufs v' b = fst (xor_stream co (w_bufs v b))"
      "encoder (w_cryptos v' y) = Some (snd (xor_stream co (w_bufs v b)))" "\<And>d. encrypting d y v' = encrypting d y v"
      using SendMessage_encrypts [OF Cons.prems(1) [of c] Cons.prems(2), of b] by fastforce
    from Cons.IH [of v', OF _ v'(3)] Cons.prems(1) v' show ?case by auto
  qed simp
  from this [of "map snd (gr_clients (w_groups w g))" w ci] assms show ?thesis
    by (simp add: Broadcast_def)
qed

text \<open>Two members of a group on one Crypto object, with a cipher.\<close>

definition sample_members :: "unit world" where
  "sample_members =
     (let member = \<lambda>c. (newClient (Some c) (no_options\<lparr>co_Crypto := Some 0\<rparr>) [] 0 0)\<lparr>cl_state := LOGINED\<rparr>
      in (New (\<lambda>y. (NewCrypto ())\<lparr>encoder := NewCipher [1], decoder := NewCipher [1]\<rparr>) 0)
           \<lparr>w_clients := member, w_groups := (\<lambda>g. (newGroup (- 1) None)\<lparr>gr_clients := [(''a'', 0), (''b'', 1)]\<rparr>)\<rparr>)"

lemma sample_members_parts:
  "encrypting c 0 sample_members" "encoder (w_cryptos sample_members 0) = Some (the (NewCipher [1]))"
  "cl_conn (w_clients sample_members c) = Some c" "\<not> ic_closed (w_conns sample_members c)"
  "ic_queue (w_conns sample_members c) = []" "gr_clients (w_groups sample_members g) = [(''a'', 0), (''b'', 1)]"
  by (simp_all add: sample_members_def New_def encrypting_def encrypts_def newClient_def NewCipher_def Let_def)


theorem broadcast_encrypts_per_member_witness:
  "\<exists>w'. Broadcast 0 5 sample_members = Done w' \<and>
     w_bufs w' 5 = encrypt_times 2 (the (NewCipher [1])) (w_bufs sample_members 5)"
  using broadcast_encrypts_per_member [OF sample_members_parts(1,2), of 0 5]
  by (simp add: sample_members_parts numeral_2_eq_2)

subsection \<open>Panics\<close>

text \<open>
  Clients C whose sending cannot fail with a panic: each has a connection, and a cipher if it
  encrypts, and its group has no other members; and an application whose handlers return.
\<close>

definition wired :: "nat set \<Rightarrow> 'k world \<Rightarrow> bool" where
  "wired C w \<longleftrightarrow> (\<forall>c \<in> C. cl_conn (w_clients w c) \<noteq> None \<and>
     (\<forall>y. co_Crypto (cl_options (w_clients w c)) = Some y \<longrightarrow> encrypts (w_clients w c) \<longrightarrow> encoder (w_cryptos w y) \<noteq> None) \<and>
     (\<forall>g. cl_Group (w_clients w c) = Some g \<longrightarrow> set (map snd (gr_clients (w_groups w g))) \<subseteq> C))"

definition app_returns :: "'k app \<Rightarrow> bool" where
  "app_returns app \<longleftrightarrow> (\<forall>n r c w. \<exists>x e. fst (app_request app n r c w) = Returns x e)"

lemma Encode_in_place_parts:
  assumes "encoder cr \<noteq> None"
  shows "\<exists>cr' st'. Encode b b (cr, st) = Done (cr', st') \<and> encoder cr' \<noteq> None"
  using assms encode_in_place [of cr] by (cases "encoder cr") auto

lemma wired_keep:
  assumes "wired C w" and "\<And>c. cl_conn (w_clients w' c) = cl_conn (w_clients w c) \<and> cl_Group (w_clients w' c) = cl_Group (w_clients w c) \<and>
      cl_options (w_clients w' c) = cl_options (w_clients w c) \<and> cl_state (w_clients w' c) = cl_state (w_clients w c)"
    and "\<And>y. encoder (w_cryptos w y) \<noteq> None \<Longrightarrow> encoder (w_cryptos w' y) \<noteq> None"
    and "\<And>g. gr_clients (w_groups w' g) = gr_clients (w_groups w g)"
  shows "wired C w'"
  using assms unfolding wired_def encrypts_def by simp

lemma prepare_send_wired:
  assumes "wired C w" "c \<in> C"
  shows "\<exists>w1. prepare_send c b w = Done w1 \<and> wired C w1"
proof (cases "\<exists>y. co_Crypto (cl_options (w_clients w c)) = Some y \<and> encrypts (w_clients w c)")
  case True
  then obtain y where y: "co_Crypto (cl_options (w_clients w c)) = Some y" "encrypts (w_clients w c)" by blast
  let ?u = "upd_client c (\<lambda>cl. cl\<lparr>cl_lastTxTime := Some (w_now w)\<rparr>) w"
  have "encoder (w_cryptos w y) \<noteq> None" using assms y by (auto simp: wired_def)
  from Encode_in_place_parts [OF this, of b "w_bufs w"] obtain cr' st'
    where e: "Encode b b (w_cryptos w y, w_bufs w) = Done (cr', st')" "encoder cr' \<noteq> None" by blast
  let ?w1 = "?u\<lparr>w_cryptos := (w_cryptos w)(y := cr'), w_bufs := st'\<rparr>"
  have "prepare_send c b w = Done ?w1"
    using y e(1) by (simp add: prepare_send_def encode_buf_def encrypts_def upd_client_def Let_def)
  moreover have "wired C ?w1"
    by (rule wired_keep [OF assms(1)]) (use e(2) in \<open>auto simp: upd_client_def\<close>)
  ultimately show ?thesis by blast
next
  case False
  let ?u = "upd_client c (\<lambda>cl. cl\<lparr>cl_lastTxTime := Some (w_now w)\<rparr>) w"
  have "prepare_send c b w = Done ?u"
    using False by (auto simp: prepare_send_def encrypts_def Let_def split: option.splits)
  moreover have "wired C ?u"
    by (rule wired_keep [OF assms(1)]) (auto simp: upd_client_def)
  ultimately show ?thesis by blast
qed

lemma conn_sends_wired:
  "wired C w \<Longrightarrow> conn_SendMessage k b w = (e, w') \<Longrightarrow> wired C w'"
  "wired C w \<Longrightarrow> conn_SendMessageDirect k b w = (e, w') \<Longrightarrow> wired C w'"
  by (erule wired_keep; auto simp: conn_SendMessage_def conn_SendMessageDirect_def upd_conn_def Let_def split: if_splits)+

lemma SendMessage_wired:
  assumes "wired C w" "c \<in> C"
  shows "\<exists>e w'. SendMessage c b w = Done (e, w') \<and> wired C w'"
proof -
  obtain w1 where w1: "prepare_send c b w = Done w1" "wired C w1" using prepare_send_wired [OF assms] by blast
  then obtain k where k: "cl_conn (w_clients w1 c) = Some k" using assms(2) by (auto simp: wired_def)
  obtain e w' where "conn_SendMessage k b w1 = (e, w')" by fastforce
  with w1 k conn_sends_wired(1) show ?thesis by (fastforce simp: SendMessage_def)
qed

lemma marshal_buf_wired: "wired C w \<Longrightarrow> marshal_buf p w = (b, w') \<Longrightarrow> wired C w'"
  by (erule wired_keep) (auto simp: marshal_buf_def new_buf_def split: option.splits)

lemma wired_members:
  "wired C w \<Longrightarrow> c \<in> C \<Longrightarrow> cl_Group (w_clients w c) = Some g \<Longrightarrow> set (map snd (gr_clients (w_groups w g))) \<subseteq> C"
  unfolding wired_def by blast

lemma SendPacket_wired: "wired C w \<Longrightarrow> c \<in> C \<Longrightarrow> \<exists>e w'. SendPacket c p w = Done (e, w') \<and> wired C w'"
  by (cases "marshal_buf p w") (auto simp: SendPacket_def dest: marshal_buf_wired intro: SendMessage_wired)

lemma send_ack_wired: "wired C w \<Longrightarrow> c \<in> C \<Longrightarrow> \<exists>w'. send_ack c i w = Done w' \<and> wired C w'"
  using SendPacket_wired [of C w c "AckPacket \<lparr>ak_Id = i\<rparr>"] by (auto simp: send_ack_def)

lemma send_then_no_panic:
  assumes "wired C w" "c \<in> C" and "\<And>w1. wired C w1 \<Longrightarrow> \<not> is_panic (f w1)"
  shows "\<not> is_panic (and_then (send_ack c i w) f)"
  using send_ack_wired [OF assms(1,2), of i] assms(3) by auto

lemma PubTopic_no_panic: "\<not> is_panic (PubTopic pkt from s)"
  by (cases s) (simp add: PubTopic_def outcome_simps)

lemma client_pub_no_panic: "\<not> is_panic (client_pub c pkt from w)" "\<not> is_panic (group_center_pub g pkt from w)"
  by (auto simp: client_pub_def group_center_pub_def outcome_simps PubTopic_no_panic)

lemma publish_to_no_panic: "\<not> is_panic (publish_to cs pkt from w)"
  by (induction cs arbitrary: w) (auto simp: outcome_simps client_pub_no_panic)

lemma group_pub_no_panic: "\<not> is_panic (group_pub n g pkt from w)"
proof (induction n arbitrary: g pkt w)
  case (Suc n)
  then show ?case
    by (auto simp: outcome_simps client_pub_no_panic publish_to_no_panic split: option.splits)
qed simp

lemma broadcast_to_no_panic: "wired C w \<Longrightarrow> set cs \<subseteq> C \<Longrightarrow> \<not> is_panic (broadcast_to cs b w)"
proof (induction cs arbitrary: w)
  case (Cons c cs)
  obtain e w1 where "SendMessage c b w = Done (e, w1)" "wired C w1"
    using SendMessage_wired [OF Cons.prems(1), of c b] Cons.prems(2) by auto
  with Cons show ?case by simp
qed simp

lemma stream_push_no_panic: "\<not> is_panic (stream_push s p w)"
  by (simp add: stream_push_def outcome_simps)

lemma SubTopic_no_panic: "\<not> is_panic (SubTopic l p)"
  by (simp add: SubTopic_def outcome_simps)

lemmas parts_no_panic = client_pub_no_panic publish_to_no_panic group_pub_no_panic broadcast_to_no_panic
  stream_push_no_panic SubTopic_no_panic

lemma run_handler_returns: "app_returns app \<Longrightarrow> \<exists>x e w'. run_handler app E h r c w = (Returns x e, w')"
  by (cases h) (auto simp: login_handler_def exchange_handler_def app_returns_def prod_eq_iff
    split: option.splits prod.splits sum.splits)

text \<open>
  A response or acknowledgement for a waiting call whose channel is closed already, which the
  timeout of Request leaves behind.
\<close>

fun stale :: "pending_state \<Rightarrow> inet_packet \<Rightarrow> bool" where
  "stale s (ResponsePacket r) =
     (case pendingResp s (rs_Id r) of None \<Rightarrow> False | Some a \<Rightarrow> fp_resultBack (pn_heap s ! a) \<noteq> OpenChan)"
| "stale s (AckPacket k) =
     (case pendingAck s (ak_Id k) of None \<Rightarrow> False | Some a \<Rightarrow> fp_ackBack (pn_heap s ! a) \<noteq> OpenChan)"
| "stale s p = False"

lemma close_chan_panics: "is_panic (close_chan x) \<longleftrightarrow> x \<noteq> OpenChan"
  by (cases x) simp_all

lemma receives_panic:
  "is_panic (receive_response (rs_Id r) res (rs_Error r) s) \<longleftrightarrow> stale s (ResponsePacket r)"
  "is_panic (receive_ack (ak_Id k) s) \<longleftrightarrow> stale s (AckPacket k)"
  by (auto simp: receive_response_def receive_ack_def close_back_def back_of_def Let_def is_panic_and_then close_chan_panics
    split: option.splits)

declare stale.simps(1,2) [simp del]

lemma send_ack_pending: "send_ack d i w = Done w' \<Longrightarrow> cl_pending (w_clients w' c) = cl_pending (w_clients w c)"
  by (auto simp: send_ack_def SendPacket_def marshal_buf_def new_buf_def outcome_simps dest!: SendMessage_clients
    split: if_splits)

text \<open>Each handler on a packet of its own type.\<close>

lemma handlers_no_panic:
  assumes "wired C w" and "c \<in> C" and "app_returns app"
  shows "pk_PacketContent pkt = RequestPacket r \<Longrightarrow> \<not> is_panic (onReceiveRequest app E c pkt w)"
    and "pk_PacketContent pkt = ResponsePacket rs \<Longrightarrow>
      is_panic (onReceiveResponse c pkt w) \<longleftrightarrow> stale (cl_pending (w_clients w c)) (ResponsePacket rs)"
    and "pk_PacketContent pkt = AckPacket a \<Longrightarrow>
      is_panic (onReceiveAck c pkt w) \<longleftrightarrow> stale (cl_pending (w_clients w c)) (AckPacket a)"
    and "pk_PacketContent pkt = PublishPacket p \<Longrightarrow> \<not> is_panic (onReceivePublish c pkt w)"
    and "pk_PacketContent pkt = SubscribePacket sb \<Longrightarrow> \<not> is_panic (onReceiveSubscribe c pkt w)"
    and "pk_PacketContent pkt = BroadcastPacket p \<Longrightarrow> \<not> is_panic (onReceiveBroadcast c pkt w)"
    and "pk_PacketContent pkt = StreamRequestRawPacket sr \<Longrightarrow> \<not> is_panic (onReceiveStreamRequest c pkt w)"
    and "pk_PacketContent pkt = StreamResponsePacket sp \<Longrightarrow> \<not> is_panic (onReceiveStreamResponse c pkt w)"
    and "pk_PacketContent pkt = StreamClosePacket sc \<Longrightarrow> \<not> is_panic (onReceiveCloseStream c pkt w)"
    and "pk_PacketContent pkt = PingPacket s \<Longrightarrow> \<not> is_panic (onReceivePing c pkt w)"
    and "pk_PacketContent pkt = PongPacket s \<Longrightarrow> \<not> is_panic (onReceivePong c pkt w)"
proof -
  note split_all = option.splits
  show "pk_PacketContent pkt = RequestPacket r \<Longrightarrow> \<not> is_panic (onReceiveRequest app E c pkt w)"
  proof (cases "rq_Id r = []")
    case True
    assume p: "pk_PacketContent pkt = RequestPacket r"
    show ?thesis
    proof (cases "client_handler c (rq_Method r) w")
      case (Some h)
      obtain x e w' where "run_handler app E h r (pk_Client pkt) w = (Returns x e, w')"
        using run_handler_returns [OF assms(3)] by blast
      with Some True p show ?thesis by (simp add: onReceiveRequest_def)
    qed (use True p in \<open>simp add: onReceiveRequest_def\<close>)
  next
    case False
    assume p: "pk_PacketContent pkt = RequestPacket r"
    have "\<not> is_panic (and_then (send_ack c (rq_Id r) w)
            (\<lambda>w1. if rq_Id r \<in> cl_handlingReq (w_clients w1 c) then Done w1
              else Done (spawn c (ExecRequest r)
                (upd_client c (\<lambda>cl. cl\<lparr>cl_handlingReq := insert (rq_Id r) (cl_handlingReq cl)\<rparr>) w1))))"
      by (rule send_then_no_panic [OF assms(1,2)]) simp
    with False p show ?thesis by (simp add: onReceiveRequest_def)
  qed
  show "is_panic (onReceiveResponse c pkt w) \<longleftrightarrow> stale (cl_pending (w_clients w c)) (ResponsePacket rs)"
    if "pk_PacketContent pkt = ResponsePacket rs"
  proof -
    obtain w1 where w1: "send_ack c (rs_Id rs) w = Done w1" using send_ack_wired [OF assms(1,2)] by blast
    show ?thesis
      by (simp only: onReceiveResponse_def that inet_packet.case w1 and_then.simps is_panic_and_then receives_panic
        is_panic.simps send_ack_pending [OF w1]) simp
  qed
  show "is_panic (onReceiveAck c pkt w) \<longleftrightarrow> stale (cl_pending (w_clients w c)) (AckPacket a)"
    if "pk_PacketContent pkt = AckPacket a"
    by (simp only: onReceiveAck_def that inet_packet.case is_panic_and_then receives_panic is_panic.simps) simp
  show "pk_PacketContent pkt = PublishPacket p \<Longrightarrow> \<not> is_panic (onReceivePublish c pkt w)"
    by (simp add: onReceivePublish_def, rule send_then_no_panic [OF assms(1,2)])
      (auto simp: Group_PubTopic_def parts_no_panic simp del: group_pub.simps split: split_all)
  show "pk_PacketContent pkt = SubscribePacket sb \<Longrightarrow> \<not> is_panic (onReceiveSubscribe c pkt w)"
    by (simp add: onReceiveSubscribe_def, rule send_then_no_panic [OF assms(1,2)]) (auto simp: outcome_simps parts_no_panic)
  have "wired C w1 \<Longrightarrow> cl_Group (w_clients w1 c) = Some g \<Longrightarrow> \<not> is_panic (Broadcast g b w1)" for w1 g b
    unfolding Broadcast_def using wired_members [OF _ assms(2)] by (intro broadcast_to_no_panic)
  then show "pk_PacketContent pkt = BroadcastPacket p \<Longrightarrow> \<not> is_panic (onReceiveBroadcast c pkt w)"
    by (simp add: onReceiveBroadcast_def, intro send_then_no_panic [OF assms(1,2)]) (auto split: split_all)
  show "pk_PacketContent pkt = StreamRequestRawPacket sr \<Longrightarrow> \<not> is_panic (onReceiveStreamRequest c pkt w)"
    by (simp add: onReceiveStreamRequest_def, rule send_then_no_panic [OF assms(1,2)])
      (auto simp: outcome_simps parts_no_panic Let_def split: split_all)
  show "pk_PacketContent pkt = StreamResponsePacket sp \<Longrightarrow> \<not> is_panic (onReceiveStreamResponse c pkt w)"
    by (simp add: onReceiveStreamResponse_def, rule send_then_no_panic [OF assms(1,2)]) (auto simp: parts_no_panic split: split_all)
  show "pk_PacketContent pkt = StreamClosePacket sc \<Longrightarrow> \<not> is_panic (onReceiveCloseStream c pkt w)"
    by (simp add: onReceiveCloseStream_def, rule send_then_no_panic [OF assms(1,2)]) (auto simp: parts_no_panic split: split_all)
  have ping: "wired C (w\<lparr>w_user := u\<rparr>)" for u using assms(1) by (simp add: wired_def)
  show "pk_PacketContent pkt = PingPacket s \<Longrightarrow> \<not> is_panic (onReceivePing c pkt w)"
    using SendPacket_wired [OF assms(1,2), of "PongPacket s"] SendPacket_wired [OF ping assms(2), where p = "PongPacket s"]
    by (auto simp: onReceivePing_def split: split_all) (metis and_then.simps(1) is_panic.simps(2) old.prod.case)
  show "pk_PacketContent pkt = PongPacket s \<Longrightarrow> \<not> is_panic (onReceivePong c pkt w)"
    by (simp add: onReceivePong_def split: split_all)
qed

text \<open>A packet from the wire never is a StreamRequestPacket: its type code decodes to the raw one.\<close>

lemma Unmarshal_no_stream_request:
  assumes "Unmarshal bs = Inr p"
  shows "p \<noteq> StreamRequestPacket r"
proof -
  obtain code dec j where "contentDecoder code = Some dec" "dec j = Some p"
    using assms by (auto simp: Unmarshal_def decode_body_def Let_def split: option.splits if_splits)
  then show ?thesis by (auto simp: contentDecoder_def split: if_splits)
qed

lemma packets_that_panic:
  assumes "wired C w" and "c \<in> C" and "app_returns app" and "cl_rxQueue (w_clients w c) = pkt # q"
    and "Unmarshal bs = Inr (pk_PacketContent pkt)" and "pk_PacketType pkt = TypeCode (pk_PacketContent pkt)"
  shows "is_panic (handle_next app E c w) \<longleftrightarrow>
    (\<exists>r. pk_PacketContent pkt = UnSubscribePacket r) \<or> stale (cl_pending (w_clients w c)) (pk_PacketContent pkt)"
proof -
  let ?u = "upd_client c (\<lambda>cl. cl\<lparr>cl_rxQueue := q\<rparr>) (w\<lparr>w_Enqueue := w_Enqueue w - 1, w_EnConsume := w_EnConsume w + 1\<rparr>)"
  have "wired C ?u" by (rule wired_keep [OF assms(1)]) (auto simp: upd_client_def)
  note fine = handlers_no_panic [OF this assms(2,3), where pkt = pkt]
  have same: "cl_pending (w_clients ?u c) = cl_pending (w_clients w c)" by (simp add: upd_client_def)
  have "handle_next app E c w = (case packetHandler app E c (TypeCode (pk_PacketContent pkt)) of
      None \<Rightarrow> Done (upd_client c (\<lambda>cl. cl\<lparr>cl_running := False\<rparr>) ?u) | Some h \<Rightarrow> h pkt ?u)"
    using assms(4,6) by (simp add: handle_next_def Let_def)
  then show ?thesis
    using fine [unfolded same] Unmarshal_no_stream_request [OF assms(5)]
    by (cases "pk_PacketContent pkt")
      (simp_all add: packetHandler_def packet_codes, auto simp: onReceiveSubscribe_def type_panic_def)
qed


definition sample_inbox :: "inet_packet \<Rightarrow> unit world" where
  "sample_inbox p = sample_members\<lparr>w_clients := \<lambda>c. (w_clients sample_members c)
     \<lparr>cl_rxQueue := [\<lparr>pk_RawData = 0, pk_PacketType = TypeCode p, pk_PacketContent = p, pk_Client = c\<rparr>]\<rparr>\<rparr>"


subsection \<open>Where the publication of a member arrives\<close>


text \<open>The member dev of group 5 publishes room/temp.\<close>

definition sample_member :: "unit world" where
  "sample_member = upd_client 3 (\<lambda>x. x\<lparr>cl_ClientId := ''dev'', cl_Group := Some 1\<rparr>) sample_hub"

definition sample_publication :: packet where
  "sample_publication = \<lparr>pk_RawData = 0, pk_PacketType = PUBLISH_PACKET,
     pk_PacketContent = PublishPacket (sample_publish\<lparr>pb_Id := []\<rparr>), pk_Client = 3\<rparr>"

lemma sample_member_parts:
  "registry_ok sample_member" "FindGroup 5 sample_member = Some 1" "cl_Group (w_clients sample_member 3) = Some 1"
  "w_hub_group sample_member = 0" "gr_clients (w_groups sample_member h) = []" "ps_pubCh (center u sample_member) = []"
  "2 \<le> ps_pubSize (center u sample_member)" "cl_ClientId (w_clients sample_member 3) = ''dev''"
proof -
  show "registry_ok sample_member" "FindGroup 5 sample_member = Some 1"
    using sample_hub_registry by (simp_all add: sample_member_def registry_ok_def FindGroup_def)
  show "cl_Group (w_clients sample_member 3) = Some 1" "cl_ClientId (w_clients sample_member 3) = ''dev''"
    by (simp_all add: sample_member_def)
  show "w_hub_group sample_member = 0" "gr_clients (w_groups sample_member h) = []"
    "ps_pubCh (center u sample_member) = []" "2 \<le> ps_pubSize (center u sample_member)"
    by (cases u; simp add: sample_member_def sample_hub_def FindOrCreateGroup_def New_def sync_map_defs Let_def newGroup_def
        newPubSub_def GroupPubChLen_def newClient_def ClientPubChLen_def)+
qed


end
