(* ===== verification/Hub_Server.thy ===== *)
theory Hub_Server
  imports Client_Tasks Tcp_Conn
begin

text \<open>
  The hub as a server (hub.go): its options, the clients it makes for accepted connections and
  for datagrams; the servers' side of a connection (tcp_server.go, websocket_server.go):
  authentication, the listeners, the clients map.
\<close>

subsection \<open>Options\<close>

text \<open>Functional options are functions, applied in order. Durations are milliseconds.\<close>

record hub_options =
  ho_HeartbeatTimeout :: nat
  ho_RetryTimeout :: nat
  ho_RetryInterval :: nat

record login_options =
  lo_Timeout :: nat
  lo_CheckFunc :: "bytes \<Rightarrow> string option"

record server_options =
  so_Tls :: bool
  so_Login :: "login_options option"

type_synonym server_option = "server_options \<Rightarrow> server_options"

definition WithTls :: "bool \<Rightarrow> server_option" where
  "WithTls t opts = opts\<lparr>so_Tls := t\<rparr>"

definition WithLogin :: "login_options option \<Rightarrow> server_option" where
  "WithLogin l opts = opts\<lparr>so_Login := l\<rparr>"

record hub_server_options =
  hs_Crypto :: "nat option"
  hs_NeedLogin :: bool
  hs_ServerOpts :: "server_option list"

type_synonym hub_server_option = "hub_server_options \<Rightarrow> hub_server_options"

definition WithCrypto :: "nat option \<Rightarrow> hub_server_option" where
  "WithCrypto y opts = opts\<lparr>hs_Crypto := y\<rparr>"

definition WithNeedLogin :: "bool \<Rightarrow> hub_server_option" where
  "WithNeedLogin b opts = opts\<lparr>hs_NeedLogin := b\<rparr>"

definition WithServerOpts :: "server_option list \<Rightarrow> hub_server_option" where
  "WithServerOpts ss opts = opts\<lparr>hs_ServerOpts := ss\<rparr>"

definition NewServer_opts :: "server_option list \<Rightarrow> server_options" where
  "NewServer_opts args = fold (\<lambda>f opts. f opts) args \<lparr>so_Tls = False, so_Login = None\<rparr>"

definition hub_opts :: "hub_server_option list \<Rightarrow> hub_server_options" where
  "hub_opts opts = fold (\<lambda>f x. f x) opts \<lparr>hs_Crypto = None, hs_NeedLogin = False, hs_ServerOpts = []\<rparr>"

definition served_options :: "hub_options \<Rightarrow> hub_server_options \<Rightarrow> client_options" where
  "served_options ho x = \<lparr>co_HeartbeatTimeout = ho_HeartbeatTimeout ho, co_WaitTimeout = ho_RetryTimeout ho,
     co_RetryInterval = ho_RetryInterval ho, co_Crypto = hs_Crypto x, co_NeedLogin = hs_NeedLogin x\<rparr>"

subsection \<open>An accepted connection\<close>

text \<open>
  OnClientConnect of ListenAndServeTcp and of ListenAndServeWebsocket: the address c of the
  new client, that of its own handler table and its uuid come from the allocator. The hub's
  handlers, at address 0, are installed after the change of state.
\<close>

definition hub_serve :: "'k sched \<Rightarrow> client_options \<Rightarrow> string \<Rightarrow> nat \<Rightarrow> nat \<Rightarrow> 'k world \<Rightarrow> 'k world outcome" where
  "hub_serve sched opts uuid c k w =
     (let cl = newClient (Some k) opts uuid (Suc c) (w_now w)
      in and_then
           (changeState sched c CONNECTED
             (set_client c (cl\<lparr>cl_OnLogin := AddEventListener (HubLogin c) (cl_OnLogin cl)\<rparr>) w))
           (\<lambda>w1. Done (upd_conn k (\<lambda>x. x\<lparr>ic_OnMessage := AddEventListener (ClientReceive c) (ic_OnMessage x),
                ic_OnDisconnect := AddEventListener (ServerDisconnect c) (ic_OnDisconnect x)\<rparr>)
              (upd_client c (\<lambda>x. x\<lparr>cl_handlerMgr := 0\<rparr>) w1))))"

text \<open>
  OnReceiveMessage of ListenAndServeUdp. The table is keyed by the net.Addr the socket
  returned: an interface holding a pointer, equal only to itself, so the key is an address
  of the allocator like c, and k the new fakeUdpConn.
\<close>

definition new_fake_conn :: "nat \<Rightarrow> string \<Rightarrow> 'k world \<Rightarrow> 'k world" where
  "new_fake_conn k addr w = upd_conn k (\<lambda>x. \<lparr>ic_kind = FakeUdpKind, ic_addr = addr, ic_queue = [], ic_direct = [],
     ic_closed = False, ic_locked = False, ic_OnDisconnect = newEventTarget, ic_OnMessage = newEventTarget,
     ic_LoginData = None, ic_started = False\<rparr>) w"

definition hub_datagram :: "'k sched \<Rightarrow> client_options \<Rightarrow> string \<Rightarrow> nat \<Rightarrow> nat \<Rightarrow> nat \<Rightarrow> string \<Rightarrow> nat
    \<Rightarrow> (nat \<rightharpoonup> nat) \<Rightarrow> 'k world \<Rightarrow> ((nat \<rightharpoonup> nat) \<times> 'k world) outcome" where
  "hub_datagram sched opts uuid c k ptr addr b addrToClient w =
     (case sm_load ptr addrToClient of
        Some d \<Rightarrow> and_then (receiveMessage d b w) (\<lambda>w1. Done (addrToClient, w1))
      | None \<Rightarrow>
          and_then
            (changeState sched c CONNECTED
              (set_client c (newClient (Some k) opts uuid (Suc c) (w_now w)) (new_fake_conn k addr w)))
            (\<lambda>w1. let w2 = upd_client c (\<lambda>x. x\<lparr>cl_handlerMgr := 0\<rparr>) w1 in
               case sm_load_or_store ptr c addrToClient of
                 (d, loaded, m) \<Rightarrow> and_then (receiveMessage d b w2) (\<lambda>w3. Done (m, w3))))"

subsection \<open>The servers\<close>

text \<open>
  checkConnAuth: what came first, the timeout, an error of the first read, or a message. It
  returns whether the connection is accepted, the error, and the LoginData it stored.
\<close>

datatype auth_input = AuthTimeout | AuthReadError string | AuthMessage bytes

definition checkConnAuth :: "login_options \<Rightarrow> auth_input \<Rightarrow> bool \<times> string option \<times> bytes option" where
  "checkConnAuth config i =
     (case i of
        AuthTimeout \<Rightarrow> (False, Some ''authentication timeout'', None)
      | AuthReadError e \<Rightarrow> (False, Some e, None)
      | AuthMessage loginData \<Rightarrow>
          (case lo_CheckFunc config loginData of
             None \<Rightarrow> (True, None, Some loginData)
           | Some e \<Rightarrow> (False, Some e, Some loginData)))"

text \<open>OnClientConnect of a server, when it is set.\<close>

type_synonym 'k connect_handler = "(nat \<Rightarrow> 'k world \<Rightarrow> 'k world outcome) option"

definition handleClientConnect :: "'k connect_handler \<Rightarrow> nat \<Rightarrow> 'k world \<Rightarrow> 'k world outcome" where
  "handleClientConnect connect k w =
     (let w1 = w\<lparr>w_server_conns := insert k (w_server_conns w)\<rparr>
      in case connect of None \<Rightarrow> Done w1 | Some f \<Rightarrow> f k w1)"

text \<open>The listeners both servers add, the connect handler, and the start of the goroutines.\<close>

definition serve_conn :: "'k connect_handler \<Rightarrow> nat \<Rightarrow> 'k world \<Rightarrow> 'k world outcome" where
  "serve_conn connect k w =
     and_then
       (handleClientConnect connect k
         (upd_conn k (\<lambda>x. x\<lparr>ic_OnMessage := AddEventListener (ServerReceive k) (ic_OnMessage x),
            ic_OnDisconnect := AddEventListener (ServerForget k) (ic_OnDisconnect x)\<rparr>) w))
       (\<lambda>w1. Done (upd_conn k (\<lambda>x. x\<lparr>ic_started := True\<rparr>) w1))"

definition set_login_data :: "nat \<Rightarrow> bytes option \<Rightarrow> 'k world \<Rightarrow> 'k world" where
  "set_login_data k d w = upd_conn k (\<lambda>x. x\<lparr>ic_LoginData := d\<rparr>) w"

text \<open>The goroutine of TcpServer for an accepted connection k.\<close>

definition tcp_accept :: "'k sched \<Rightarrow> server_options \<Rightarrow> 'k connect_handler \<Rightarrow> auth_input \<Rightarrow> nat \<Rightarrow> 'k world \<Rightarrow> 'k world outcome" where
  "tcp_accept sched opts connect i k w =
     (case so_Login opts of
        None \<Rightarrow> serve_conn connect k w
      | Some config \<Rightarrow>
          (case checkConnAuth config i of
             (beOk, err, loginData) \<Rightarrow>
               let w1 = (case loginData of None \<Rightarrow> w | Some d \<Rightarrow> set_login_data k (Some d) w) in
               if err \<noteq> None then conn_Close sched k w1
               else if \<not> beOk then conn_Close sched k w1
               else serve_conn connect k w1))"

text \<open>
  What the listener of a TcpServer accepts: with TLS the connections are those of crypto/tls.
  The goroutine of an accepted connection begins with NewTcpConn.
\<close>

definition listener_conn :: "server_options \<Rightarrow> string \<Rightarrow> net_conn" where
  "listener_conn opts addr = (if so_Tls opts then OtherConn ''*tls.Conn'' else TCPConn addr)"

definition conn_goroutine :: "'k sched \<Rightarrow> server_options \<Rightarrow> 'k connect_handler \<Rightarrow> string \<Rightarrow> string \<Rightarrow> auth_input \<Rightarrow> nat
    \<Rightarrow> 'k world \<Rightarrow> 'k world outcome" where
  "conn_goroutine sched opts connect uuid addr i k w =
     and_then (NewTcpConn uuid (listener_conn opts addr) :: (unit, unit) tcp_conn outcome)
       (\<lambda>c. tcp_accept sched opts connect i k w)"

text \<open>
  The goroutine of a listener: temporary errors are passed over, any other ends it. The
  accepted connections' goroutines run as they come. The result says whether it ended.
\<close>

datatype accept_result = Accepted string string auth_input nat | TemporaryError | AcceptError string

fun accept_loop :: "'k sched \<Rightarrow> server_options \<Rightarrow> 'k connect_handler \<Rightarrow> accept_result list \<Rightarrow> 'k world
    \<Rightarrow> (bool \<times> 'k world) outcome" where
  "accept_loop sched opts connect [] w = Done (False, w)"
| "accept_loop sched opts connect (TemporaryError # rs) w = accept_loop sched opts connect rs w"
| "accept_loop sched opts connect (AcceptError e # rs) w =
     Done (True, w\<lparr>w_user := w_user w @ (if w_OnError w then [ErrorCall e] else [])\<rparr>)"
| "accept_loop sched opts connect (Accepted uuid addr i k # rs) w =
     and_then (conn_goroutine sched opts connect uuid addr i k w) (accept_loop sched opts connect rs)"

text \<open>
  ListenAndServe opens one listener after the other; the first that fails ends it with its
  error, and those before it serve. The result is the error and the number of them.
\<close>

fun start_listeners :: "string option list \<Rightarrow> string option \<times> nat" where
  "start_listeners [] = (None, 0)"
| "start_listeners (Some e # ls) = (Some e, 0)"
| "start_listeners (None # ls) = (case start_listeners ls of (err, n) \<Rightarrow> (err, Suc n))"

definition TcpServer_ListenAndServe :: "nat \<Rightarrow> (nat \<Rightarrow> string option) \<Rightarrow> string option \<times> nat" where
  "TcpServer_ListenAndServe listenerCount listen = start_listeners (map listen [0..<listenerCount])"

text \<open>
  accept of WebsocketServer: the query's first values as a JSON object are the LoginData. The
  upgrade is the library's; False stands for its failure. The result says whether the request
  was refused with the status Unauthorized.
\<close>

definition query_json :: "(string \<times> string list) list \<Rightarrow> bytes option" where
  "query_json query = json_params (JObj (fold (\<lambda>(s, vs). put_sorted s (JStr (vs ! 0))) query []))"

definition ws_accept :: "server_options \<Rightarrow> 'k connect_handler \<Rightarrow> (string \<times> string list) list \<Rightarrow> bool \<Rightarrow> nat \<Rightarrow> 'k world
    \<Rightarrow> (bool \<times> 'k world) outcome" where
  "ws_accept opts connect query upgrades k w =
     (let loginData = (if so_Login opts = None then None else query_json query);
          refused = (case so_Login opts of
             None \<Rightarrow> False
           | Some config \<Rightarrow> lo_CheckFunc config (case loginData of None \<Rightarrow> [] | Some d \<Rightarrow> d) \<noteq> None)
      in if refused then Done (True, w)
         else if \<not> upgrades then Done (False, w)
         else and_then (serve_conn connect k (set_login_data k loginData w)) (\<lambda>w1. Done (False, w1)))"

subsection \<open>Sessions\<close>

text \<open>
  TemptSaveSession keeps a session for two minutes: each call starts a goroutine that sleeps
  for that time and deletes the entry of its id, whoever stored it by then.
\<close>

definition TemptSaveSession :: "session_data \<Rightarrow> 'k world \<Rightarrow> 'k world" where
  "TemptSaveSession data w =
     w\<lparr>w_sessions := sm_store (sd_SessionId data) data (w_sessions w),
       w_expiries := w_expiries w @ [(w_now w + 120000, sd_SessionId data)]\<rparr>"

definition expire_sessions :: "'k world \<Rightarrow> 'k world" where
  "expire_sessions w =
     w\<lparr>w_sessions := fold (\<lambda>(t, i) m. if t \<le> w_now w then sm_delete i m else m) (w_expiries w) (w_sessions w),
       w_expiries := filter (\<lambda>(t, i). w_now w < t) (w_expiries w)\<rparr>"

subsection \<open>Messages\<close>

text \<open>A message of a connection: its listeners get the slice.\<close>

fun run_message :: "nat \<Rightarrow> message_listener \<Rightarrow> 'k world \<Rightarrow> 'k world outcome" where
  "run_message b (ServerReceive k) w =
     Done (if w_OnReceiveMessage w then w\<lparr>w_user := w_user w @ [MessageCall k (w_bufs w b)]\<rparr> else w)"
| "run_message b (ClientReceive c) w = receiveMessage c b w"
| "run_message b (UserMessage n) w = Done (w\<lparr>w_user := w_user w @ [MessageCall n (w_bufs w b)]\<rparr>)"

definition conn_message :: "nat \<Rightarrow> bytes \<Rightarrow> 'k world \<Rightarrow> 'k world outcome" where
  "conn_message k bs w =
     (case new_buf bs w of (b, w1) \<Rightarrow> RiseEvent (run_message b) (ic_OnMessage (w_conns w1 k)) w1)"

text \<open>The hub behind a UDP server, a TCP server, and a WebSocket server.\<close>

definition hub_udp :: "'k sched \<Rightarrow> hub_options \<Rightarrow> hub_server_option list \<Rightarrow> string \<Rightarrow> nat \<Rightarrow> nat \<Rightarrow> nat \<Rightarrow> string \<Rightarrow> nat
    \<Rightarrow> (nat \<rightharpoonup> nat) \<Rightarrow> 'k world \<Rightarrow> ((nat \<rightharpoonup> nat) \<times> 'k world) outcome" where
  "hub_udp sched ho opts uuid c k ptr addr b addrToClient w =
     (let x = hub_opts opts
      in hub_datagram sched (served_options ho x) uuid c k ptr addr b addrToClient w)"

definition hub_tcp :: "'k sched \<Rightarrow> hub_options \<Rightarrow> hub_server_option list \<Rightarrow> string \<Rightarrow> nat \<Rightarrow> auth_input \<Rightarrow> nat \<Rightarrow> 'k world \<Rightarrow> 'k world outcome" where
  "hub_tcp sched ho opts uuid c i k w =
     (let x = hub_opts opts
      in tcp_accept sched (NewServer_opts (hs_ServerOpts x)) (Some (hub_serve sched (served_options ho x) uuid c)) i k w)"

definition hub_websocket :: "'k sched \<Rightarrow> hub_options \<Rightarrow> hub_server_option list \<Rightarrow> string \<Rightarrow> nat
    \<Rightarrow> (string \<times> string list) list \<Rightarrow> bool \<Rightarrow> nat \<Rightarrow> 'k world \<Rightarrow> (bool \<times> 'k world) outcome" where
  "hub_websocket sched ho opts uuid c query upgrades k w =
     (let x = hub_opts opts
      in ws_accept (NewServer_opts (hs_ServerOpts x)) (Some (hub_serve sched (served_options ho x) uuid c)) query upgrades k w)"

end
