(* ===== verification/Reconnecting_Clients.thy ===== *)
theory Reconnecting_Clients
  imports Hub_Server
begin

text \<open>
  tcp_client.go, websocket_client.go and DialHubUdp of udp_client.go: a client that dials, logs
  in until it succeeds, and dials again when the connection ends. tryConn is a goroutine; those that were started and
  did not run yet are the list of dials of the world. What DialTcp or DialWebsocket returned
  is an argument: no connection, or the address of a new one.
\<close>

definition dial_later :: "nat \<Rightarrow> 'k world \<Rightarrow> 'k world" where
  "dial_later c w = w\<lparr>w_now := w_now w + 3000, w_dials := w_dials w @ [c]\<rparr>"

text \<open>The connection is given to the client before its goroutines start and the state changes.\<close>

definition attach :: "'k sched \<Rightarrow> nat \<Rightarrow> nat \<Rightarrow> 'k world \<Rightarrow> 'k world outcome" where
  "attach sched c k w =
     changeState sched c CONNECTED
       (upd_conn k (\<lambda>x. x\<lparr>ic_OnMessage := AddEventListener (ClientReceive c) (ic_OnMessage x),
           ic_OnDisconnect := AddEventListener (Reconnect c) (ic_OnDisconnect x), ic_started := True\<rparr>)
         (upd_client c (\<lambda>x. x\<lparr>cl_conn := Some k\<rparr>) w))"

text \<open>
  The login loops, for a number of attempts; the result says whether the loop ended. The TCP
  client looks first whether its connection was closed, the WebSocket client does not.
\<close>

fun tcp_login_loop :: "nat \<Rightarrow> 'k curve \<Rightarrow> 'k sched \<Rightarrow> 'k requests \<Rightarrow> nat \<Rightarrow> nat \<Rightarrow> login_params \<Rightarrow> 'k world
    \<Rightarrow> (bool \<times> 'k world) outcome" where
  "tcp_login_loop 0 E sched request c k p w = Done (False, w)"
| "tcp_login_loop (Suc n) E sched request c k p w =
     and_then (conn_IsClosed k w)
       (\<lambda>closed. if closed then Done (True, w)
          else and_then (Login E sched request c p w)
            (\<lambda>(err, w1). if err \<noteq> None then tcp_login_loop n E sched request c k p (w1\<lparr>w_now := w_now w1 + 3000\<rparr>)
               else Done (True, w1)))"

fun ws_login_loop :: "nat \<Rightarrow> 'k curve \<Rightarrow> 'k sched \<Rightarrow> 'k requests \<Rightarrow> nat \<Rightarrow> login_params \<Rightarrow> 'k world
    \<Rightarrow> (bool \<times> 'k world) outcome" where
  "ws_login_loop 0 E sched request c p w = Done (False, w)"
| "ws_login_loop (Suc n) E sched request c p w =
     and_then (Login E sched request c p w)
       (\<lambda>(err, w1). if err \<noteq> None then ws_login_loop n E sched request c p (w1\<lparr>w_now := w_now w1 + 3000\<rparr>)
          else Done (True, w1))"

definition tcp_tryConn :: "nat \<Rightarrow> 'k curve \<Rightarrow> 'k sched \<Rightarrow> 'k requests \<Rightarrow> nat \<Rightarrow> login_params \<Rightarrow> nat option \<Rightarrow> 'k world
    \<Rightarrow> (bool \<times> 'k world) outcome" where
  "tcp_tryConn n E sched request c p dialled w =
     (case dialled of
        None \<Rightarrow> Done (True, dial_later c w)
      | Some k \<Rightarrow> and_then (attach sched c k w) (tcp_login_loop n E sched request c k p))"

definition ws_tryConn :: "nat \<Rightarrow> 'k curve \<Rightarrow> 'k sched \<Rightarrow> 'k requests \<Rightarrow> nat \<Rightarrow> login_params \<Rightarrow> nat option \<Rightarrow> 'k world
    \<Rightarrow> (bool \<times> 'k world) outcome" where
  "ws_tryConn n E sched request c p dialled w =
     (case dialled of
        None \<Rightarrow> Done (True, dial_later c w)
      | Some k \<Rightarrow> and_then (attach sched c k w) (ws_login_loop n E sched request c p))"

definition dial_client :: "client_options \<Rightarrow> string \<Rightarrow> nat \<Rightarrow> 'k world \<Rightarrow> 'k world" where
  "dial_client opts uuid c w =
     (set_client c ((newClient None opts uuid (Suc c) (w_now w))\<lparr>cl_beClient := True\<rparr>) w)\<lparr>w_dials := w_dials w @ [c]\<rparr>"

definition DialHubTcp :: "client_options \<Rightarrow> string \<Rightarrow> nat \<Rightarrow> 'k world \<Rightarrow> 'k world" where
  "DialHubTcp opts uuid c w = dial_client opts uuid c w"

definition DialHubWebsocket :: "string \<Rightarrow> nat \<Rightarrow> 'k world \<Rightarrow> 'k world" where
  "DialHubWebsocket uuid c w =
     dial_client \<lparr>co_HeartbeatTimeout = 5000, co_WaitTimeout = 5000, co_RetryInterval = 3000, co_Crypto = None,
       co_NeedLogin = True\<rparr> uuid c w"

text \<open>
  The UDP client never enters CONNECTED; its connection, a UdpClient, closes as the others do.
  Its login loop is the WebSocket client's.
\<close>

definition udp_attach :: "nat \<Rightarrow> nat \<Rightarrow> 'k world \<Rightarrow> 'k world" where
  "udp_attach c k w =
     upd_conn k (\<lambda>x. x\<lparr>ic_OnDisconnect := AddEventListener (ReconnectUdp c) (ic_OnDisconnect x),
         ic_OnMessage := AddEventListener (ClientReceive c) (ic_OnMessage x), ic_started := True\<rparr>)
       (upd_client c (\<lambda>x. x\<lparr>cl_conn := Some k\<rparr>) w)"

definition udp_tryConn :: "nat \<Rightarrow> 'k curve \<Rightarrow> 'k sched \<Rightarrow> 'k requests \<Rightarrow> nat \<Rightarrow> login_params \<Rightarrow> nat option \<Rightarrow> 'k world
    \<Rightarrow> (bool \<times> 'k world) outcome" where
  "udp_tryConn n E sched request c p dialled w =
     (case dialled of
        None \<Rightarrow> Done (True, dial_later c w)
      | Some k \<Rightarrow> ws_login_loop n E sched request c p (udp_attach c k w))"

definition DialHubUdp :: "string \<Rightarrow> nat \<Rightarrow> 'k world \<Rightarrow> 'k world" where
  "DialHubUdp uuid c w =
     dial_client \<lparr>co_HeartbeatTimeout = 5000, co_WaitTimeout = 5000, co_RetryInterval = 3000, co_Crypto = None,
       co_NeedLogin = False\<rparr> uuid c w"

subsection \<open>The end of a connection\<close>

text \<open>A dialled client on an open connection, whose only listener is the client's own.\<close>

definition dialled_client :: "nat \<Rightarrow> nat \<Rightarrow> 'k world \<Rightarrow> bool" where
  "dialled_client c k w \<longleftrightarrow> cl_conn (w_clients w c) = Some k \<and> ic_kind (w_conns w k) \<noteq> FakeUdpKind \<and>
     et_listeners (ic_OnDisconnect (w_conns w k)) = [Reconnect c] \<and>
     \<not> ic_closed (w_conns w k) \<and> \<not> ic_locked (w_conns w k)"

lemma dialled_close:
  assumes "dialled_client c k w"
  shows "conn_Close sched k w =
    and_then (client_clear sched c (enter_disconnect c (conn_shut k w)))
      (\<lambda>w1. Done (conn_unlock k (dial_later c w1)))"
  using assms
  by (simp add: conn_Close_def conn_close_def dialled_client_def RiseEvent_def and_then_assoc dial_later_def Let_def)

text \<open>
  A closed connection of a dialled client is replaced: the client is disconnected, its
  subscriptions are to be cleared, and three seconds later, with the connection's mutex
  locked all the while, a new tryConn is started.
\<close>

theorem closed_client_dials_again:
  assumes "dialled_client c k w" and "ps_clearCh (cl_PubSub (w_clients w c)) = []"
  shows "\<exists>w'. conn_Close sched k w = Done w' \<and> w_dials w' = w_dials w @ [c] \<and> w_now w' = w_now w + 3000 \<and>
    cl_state (w_clients w' c) = DISCONNECT \<and> ps_clearCh (cl_PubSub (w_clients w' c)) = [()] \<and>
    ic_closed (w_conns w' k) \<and> \<not> ic_locked (w_conns w' k)"
proof -
  have "ps_clearCh (cl_PubSub (w_clients (enter_disconnect c (conn_shut k w)) c)) = []"
    using assms(2) by (simp add: enter_disconnect_def swap_state_def conn_shut_def Let_def)
  from client_clear_free [OF this] show ?thesis
    by (simp add: dialled_close [OF assms(1)])
      (simp add: dial_later_def conn_unlock_def enter_disconnect_def swap_state_def conn_shut_def Let_def
        upd_client_def upd_conn_def)
qed

definition sample_dialled :: "unit world" where
  "sample_dialled = upd_conn 4 (\<lambda>x. x\<lparr>ic_OnDisconnect := \<lparr>et_listeners = [Reconnect 0]\<rparr>\<rparr>)
     (upd_client 0 (\<lambda>x. x\<lparr>cl_conn := Some 4\<rparr>) (DialHubWebsocket ''u'' 0 (New (\<lambda>y. NewCrypto ()) 0)))"

lemma sample_dialled_parts [simp]:
  "dialled_client 0 4 sample_dialled" "ps_clearCh (cl_PubSub (w_clients sample_dialled 0)) = []"
  "ps_running (cl_PubSub (w_clients sample_dialled 0))" "\<not> cl_beDisposed (w_clients sample_dialled 0)"
  by (simp_all add: sample_dialled_def dialled_client_def DialHubWebsocket_def dial_client_def New_def newClient_def
    newPubSub_def upd_client_def upd_conn_def set_client_def)

theorem closed_client_dials_again_witness:
  "\<exists>w'. conn_Close (\<lambda>c w. False) 4 sample_dialled = Done w' \<and> cl_state (w_clients w' 0) = DISCONNECT"
  using closed_client_dials_again [of 0 4 sample_dialled "\<lambda>c w. False"] by auto



text \<open>
  C36: When the connection of a logged in UDP client is closed, a new tryConn starts three
  seconds later, but the client stays logged in: the login on the next connection changes
  nothing, and the listeners of OnLogin are not called again.
\<close>

theorem udp_login_unnoticed:
  assumes "cl_conn (w_clients w c) = Some k" "ic_kind (w_conns w k) \<noteq> FakeUdpKind"
    and "et_listeners (ic_OnDisconnect (w_conns w k)) = [ReconnectUdp c]" "\<not> ic_closed (w_conns w k)" "\<not> ic_locked (w_conns w k)"
    and "ps_clearCh (cl_PubSub (w_clients w c)) = []" "cl_state (w_clients w c) = LOGINED"
  shows "\<exists>w'. conn_Close sched k w = Done w' \<and> ic_closed (w_conns w' k) \<and> w_dials w' = w_dials w @ [c] \<and>
    w_now w' = w_now w + 3000 \<and> cl_state (w_clients w' c) = LOGINED \<and>
    (\<forall>j. j \<noteq> k \<longrightarrow> changeState sched c LOGINED (udp_attach c j w') = Done (udp_attach c j w'))"
proof -
  have clear: "ps_clearCh (cl_PubSub (w_clients (conn_shut k w) c)) = []" using assms(6) by (simp add: conn_shut_def)
  let ?w' = "conn_unlock k (dial_later c (upd_client c (\<lambda>x. x\<lparr>cl_PubSub := (cl_PubSub x)\<lparr>ps_clearCh := [()]\<rparr>\<rparr>) (conn_shut k w)))"
  have close: "conn_Close sched k w = Done ?w'"
    using assms(2-5) client_clear_free [OF clear]
    by (simp add: conn_Close_def conn_close_def RiseEvent_def dial_later_def Let_def)
  have state: "cl_state (w_clients ?w' c) = LOGINED"
    using assms(7) by (simp add: conn_unlock_def dial_later_def conn_shut_def)
  have same: "upd_client c (\<lambda>x. x\<lparr>cl_state := LOGINED\<rparr>) v = v" if "cl_state (w_clients v c) = LOGINED" for v :: "'a world"
  proof -
    have "(w_clients v c)\<lparr>cl_state := LOGINED\<rparr> = w_clients v c" using that by (cases "w_clients v c") simp
    then show ?thesis by (simp add: upd_client_def)
  qed
  have "changeState sched c LOGINED (udp_attach c j ?w') = Done (udp_attach c j ?w')" for j
  proof -
    have "cl_state (w_clients (udp_attach c j ?w') c) = LOGINED" using state by (simp add: udp_attach_def)
    from same [OF this] this show ?thesis by (simp add: changeState_def swap_state_def Let_def)
  qed
  with close state show ?thesis
    by (intro exI [of _ ?w']) (simp add: conn_unlock_def dial_later_def conn_shut_def upd_client_def upd_conn_def)
qed

definition sample_udp :: "unit world" where
  "sample_udp = udp_attach 0 4 (upd_client 0 (\<lambda>x. x\<lparr>cl_state := LOGINED\<rparr>) (DialHubUdp ''u'' 0 (New (\<lambda>y. NewCrypto ()) 0)))"

theorem udp_login_unnoticed_witness:
  "\<exists>w'. conn_Close (\<lambda>c w. False) 4 sample_udp = Done w' \<and> cl_state (w_clients w' 0) = LOGINED \<and>
     changeState (\<lambda>c w. False) 0 LOGINED (udp_attach 0 5 w') = Done (udp_attach 0 5 w')"
proof -
  have "cl_conn (w_clients sample_udp 0) = Some 4" "ic_kind (w_conns sample_udp 4) \<noteq> FakeUdpKind"
    "et_listeners (ic_OnDisconnect (w_conns sample_udp 4)) = [ReconnectUdp 0]" "\<not> ic_closed (w_conns sample_udp 4)"
    "\<not> ic_locked (w_conns sample_udp 4)" "ps_clearCh (cl_PubSub (w_clients sample_udp 0)) = []"
    "cl_state (w_clients sample_udp 0) = LOGINED"
    by (simp_all add: sample_udp_def udp_attach_def DialHubUdp_def dial_client_def New_def newClient_def newPubSub_def
      upd_client_def upd_conn_def set_client_def AddEventListener_def newEventTarget_def)
  from udp_login_unnoticed [OF this, of "\<lambda>c w. False"] show ?thesis by auto
qed

subsection \<open>The login loops\<close>

lemma Login_fails:
  assumes "\<And>m d v. \<exists>e v'. request m d v = (Inl e, v')"
  shows "\<exists>e v. Login E sched request c p w = Done (Some e, v)"
proof -
  have "\<exists>e v. send_login sched request c p u = Done (Some e, v)" for u
    using assms [of LOGIN "json_params (login_json p)" "upd_client c (\<lambda>cl. cl\<lparr>cl_ClientId := lp_ClientId p, cl_GroupId := lp_BucketId p\<rparr>) u"]
    by (auto simp: send_login_def)
  then show ?thesis
    using assms [of EXCHANGE_SECRET "json_params (exchange_json (Base64PubKey E (w_cryptos w y)))" w for y]
    by (auto simp: Login_def split: option.splits) (metis old.prod.case sum.case(1))
qed



end
