(* ===== verification/Login_Session.thy ===== *)
theory Login_Session
  imports Reconnecting_Clients
begin

text \<open>
  The two sides of a login together: Login of a client against the request handlers of a hub.
  A request of the client is executed by the server's client and its reply acknowledged; how
  requests and replies cross the connection is the subject of the codec, the encryption and
  the connections.
\<close>

subsection \<open>Login parameters survive JSON\<close>

lemma digit_char_zero: "digit_char 0 = CHR ''0''"
  by code_simp

lemma digit_char_head:
  assumes "0 < n" "n < 10"
  shows "digit_char n \<noteq> CHR ''0''"
proof
  assume "digit_char n = CHR ''0''"
  then have "code (digit_char n) = code (digit_char 0)" by (simp only: digit_char_zero)
  with assms show False by simp
qed

lemma show_nat_head: "0 < n \<Longrightarrow> hd (show_nat n) \<noteq> CHR ''0''"
proof (induction n rule: show_nat.induct)
  case (1 n)
  show ?case
  proof (cases "n < 10")
    case True
    then show ?thesis using digit_char_head 1(2) by (subst show_nat.simps) simp
  next
    case False
    with 1(1) have "hd (show_nat (n div 10)) \<noteq> CHR ''0''" by simp
    with False show ?thesis by (subst show_nat.simps) simp
  qed
qed

lemma scan_int_show_nat: "scan_int (show_nat n) = Some (show_nat n, [])"
proof (cases "n = 0")
  case True
  then show ?thesis by (subst (1 2) show_nat.simps) (simp add: scan_int_def digit_char_zero)
next
  case False
  have "takeWhile is_digit (show_nat n) = show_nat n" "dropWhile is_digit (show_nat n) = []"
    using show_nat_digits by (auto simp: takeWhile_eq_all_conv)
  with False show ?thesis
    using show_nat_head [of n] show_nat_not_Nil [of n]
    by (auto simp: scan_int_def scan_digits_def split: list.splits)
qed

lemma scan_number_show_int: "scan_number (show_int i) = Some (show_int i, [])"
proof -
  have seq: "seq_scan scan_int (seq_scan scan_frac scan_exp) (show_nat n) = Some (show_nat n, [])" for n
    by (simp add: seq_scan_def scan_int_show_nat scan_frac_def scan_exp_def prepend_def)
  have "scan_number (show_nat n) = Some (show_nat n, [])" for n
  proof -
    obtain c cs where c: "show_nat n = c # cs" using show_nat_not_Nil [of n] by (cases "show_nat n") auto
    then have "c \<noteq> CHR ''-''" using show_nat_digits [of c n] is_digit_not [of c] by simp
    then show ?thesis using seq [of n] unfolding c by (simp add: scan_number_def)
  qed
  with seq show ?thesis by (auto simp: show_int_def scan_number_def prepend_def)
qed

lemma int_range_sint: "int_range (sint (i :: int64))"
  using sint_greater_eq [of i] sint_less [of i] by (simp add: int_range_def)

lemma parse_params: "wf_json j \<Longrightarrow> json_parse (string_of_bytes (case json_params j of None \<Rightarrow> [] | Some b \<Rightarrow> b)) = Some j"
  by (simp add: json_params_def json_marshal_def wf_json_encodable json_parse_print)

lemma fold_eq_login: "\<not> fold_eq ''bucket_id'' ''client_id''" "\<not> fold_eq ''client_id'' ''bucket_id''"
  "fold_eq s s"
  by (simp add: fold_eq_def, code_simp, simp add: fold_eq_def, code_simp, simp add: fold_eq_def)

lemma decode_login_json: "decode_login (json_params (login_json p)) = Some p"
proof -
  have "wf_json (login_json p)"
    by (auto simp: login_json_def show_int64_def scan_number_show_int split: option.splits)
  moreover have "dec_int64 (case lp_BucketId p of None \<Rightarrow> JNull | Some i \<Rightarrow> JNum (show_int64 i)) None = Some (lp_BucketId p)"
    by (auto simp: show_int64_def int_range_sint split: option.splits)
  ultimately show ?thesis
    by (simp add: decode_login_def parse_params) (simp add: login_json_def decode_struct_def fold_eq_login)
qed

lemma decode_exchange_json: "decode_exchange (json_params (exchange_json key)) = Some key"
  by (simp add: decode_exchange_def parse_params exchange_json_def decode_struct_def fold_eq_login)

subsection \<open>A request and its reply\<close>

text \<open>
  Request of a client whose server's client is s: the request is executed, the reply is
  acknowledged, the state of s changes, and the client sees the result or the error.
\<close>

definition served_request :: "'k app \<Rightarrow> 'k curve \<Rightarrow> 'k sched \<Rightarrow> nat \<Rightarrow> string \<Rightarrow> 'k requests" where
  "served_request app E sched s pid method params w =
     (let r = \<lparr>rq_Id = pid, rq_Method = method, rq_Params = params, rq_ClientId = []\<rparr> in
      case respond app E s r w of
        Done (resp, w1) \<Rightarrow>
          (case after_reply sched s r resp None w1 of
             Done w2 \<Rightarrow> (if rs_Error resp \<noteq> [] then Inl (rs_Error resp) else Inr (rs_Result resp), w2)
           | _ \<Rightarrow> (Inl ''no reply'', w1))
      | _ \<Rightarrow> (Inl ''no reply'', w))"

text \<open>A curve on which both parties derive one secret, whatever their keys.\<close>

definition agreeing :: "'k curve \<Rightarrow> bool" where
  "agreeing E \<longleftrightarrow> (\<forall>a b. shared E a (pub_bytes E b) = shared E b (pub_bytes E a) \<and>
     shared E a (pub_bytes E b) \<noteq> None \<and> valid_pub E (pub_bytes E a))"

text \<open>The Crypto object after the exchange with the one of another party.\<close>

definition with_secret :: "'k curve \<Rightarrow> 'k crypto \<Rightarrow> 'k crypto \<Rightarrow> 'k crypto" where
  "with_secret E other cr =
     (let secret = NewCipher (the (shared E (priKey cr) (pub_bytes E (priKey other))))
      in cr\<lparr>encoder := secret, decoder := secret\<rparr>)"

lemma ComputeSecret_agreeing:
  "agreeing E \<Longrightarrow> ComputeSecret E (Base64PubKey E other) cr = (Inr (Base64PubKey E cr), with_secret E other cr)"
  by (auto simp: ComputeSecret_def Base64PubKey_def agreeing_def with_secret_def Let_def split: option.splits)

lemma with_secret_agree:
  assumes "agreeing E"
  shows "encoder (with_secret E a b) = decoder (with_secret E b a)" "encoder (with_secret E b a) = decoder (with_secret E a b)"
  using assms by (auto simp: agreeing_def with_secret_def Let_def)

lemma changeState_exchanged:
  "co_NeedLogin (cl_options (w_clients w c)) \<Longrightarrow>
     changeState sched c EXCHANGED_SECRET w = Done (upd_client c (\<lambda>x. x\<lparr>cl_state := EXCHANGED_SECRET\<rparr>) w)"
  by (simp add: changeState_def swap_state_def Let_def)

lemma changeState_logined:
  "cl_state (w_clients w c) \<noteq> LOGINED \<Longrightarrow>
     changeState sched c LOGINED w =
       RiseEvent (run_login sched) (cl_OnLogin (w_clients w c)) (upd_client c (\<lambda>x. x\<lparr>cl_state := LOGINED\<rparr>) w)"
  by (simp add: changeState_def swap_state_def Let_def)

definition set_crypto :: "nat \<Rightarrow> 'k crypto \<Rightarrow> 'k world \<Rightarrow> 'k world" where
  "set_crypto y cr w = w\<lparr>w_cryptos := (w_cryptos w)(y := cr)\<rparr>"

lemma set_crypto_parts [simp]:
  "w_clients (set_crypto y cr w) = w_clients w" "w_conns (set_crypto y cr w) = w_conns w"
  "w_hub_clients (set_crypto y cr w) = w_hub_clients w" "w_mgrs (set_crypto y cr w) = w_mgrs w"
  "w_cryptos (set_crypto y cr w) = (w_cryptos w)(y := cr)" "w_cryptos (upd_client c f w) = w_cryptos w"
  "w_mgrs (upd_client c f w) = w_mgrs w"
  by (simp_all add: set_crypto_def upd_client_def)

lemma hub_handlers_find:
  "findRequestHandler EXCHANGE_SECRET hub_handlers = Some ExchangeHandler"
  "findRequestHandler LOGIN hub_handlers = Some LoginHandler"
  by (simp_all add: hub_handlers_def EXCHANGE_SECRET_def LOGIN_def handler_mgr_defs)

lemma exchange_served:
  assumes "agreeing E" "w_mgrs w (cl_handlerMgr (w_clients w s)) = hub_handlers"
    and "co_Crypto (cl_options (w_clients w s)) = Some z" "co_NeedLogin (cl_options (w_clients w s))"
  shows "served_request app E sched s pid EXCHANGE_SECRET (json_params (exchange_json (Base64PubKey E other))) w =
    (Inr (JStr (Base64PubKey E (w_cryptos w z))),
     upd_client s (\<lambda>x. x\<lparr>cl_state := EXCHANGED_SECRET\<rparr>) (set_crypto z (with_secret E other (w_cryptos w z)) w))"
  using assms
  by (simp add: served_request_def respond_def client_handler_def hub_handlers_find exchange_handler_def decode_exchange_json
    ComputeSecret_agreeing after_reply_def changeState_exchanged flip: set_crypto_def)

lemma login_served:
  assumes "w_mgrs w (cl_handlerMgr (w_clients w s)) = hub_handlers" "cl_state (w_clients w s) = EXCHANGED_SECRET"
    and "cl_OnLogin (w_clients w s) = \<lparr>et_listeners = [HubLogin s]\<rparr>" "FindClient (lp_ClientId p) w = None"
  shows "served_request app E sched s pid LOGIN (json_params (login_json p)) w =
    (Inr (JStr success_text),
     (let v = upd_client s (\<lambda>x. x\<lparr>cl_ClientId := lp_ClientId p, cl_GroupId := lp_BucketId p, cl_state := LOGINED\<rparr>) w
      in upd_client s (\<lambda>x. x\<lparr>cl_OnDispose := AddEventListener (HubDispose s) (cl_OnDispose x)\<rparr>) (join_group s (AddClient s v))))"
proof -
  have "LOGIN \<noteq> EXCHANGE_SECRET" by (simp add: LOGIN_def EXCHANGE_SECRET_def)
  with assms show ?thesis
    by (simp add: served_request_def respond_def client_handler_def hub_handlers_find login_handler_def decode_login_json
      after_reply_def changeState_logined RiseEvent_def onClientLogin_def sync_map_defs FindClient_def Let_def)
      (simp add: upd_client_def)
qed

text \<open>
  A dialled client c and the client s the hub made for its connection, each with a Crypto
  object of its own, both connected and to log in; nobody is registered under the id yet.
\<close>

definition login_ready :: "nat \<Rightarrow> nat \<Rightarrow> nat \<Rightarrow> nat \<Rightarrow> string \<Rightarrow> 'k world \<Rightarrow> bool" where
  "login_ready c s y z i w \<longleftrightarrow> c \<noteq> s \<and> y \<noteq> z \<and>
     co_Crypto (cl_options (w_clients w c)) = Some y \<and> co_NeedLogin (cl_options (w_clients w c)) \<and>
     cl_state (w_clients w c) = CONNECTED \<and> cl_OnLogin (w_clients w c) = newEventTarget \<and>
     co_Crypto (cl_options (w_clients w s)) = Some z \<and> co_NeedLogin (cl_options (w_clients w s)) \<and>
     cl_state (w_clients w s) = CONNECTED \<and> cl_OnLogin (w_clients w s) = \<lparr>et_listeners = [HubLogin s]\<rparr> \<and>
     w_mgrs w (cl_handlerMgr (w_clients w s)) = hub_handlers \<and> FindClient i w = None"

lemma join_group_parts [simp]:
  "w_clients (join_group s w) d = (if d = s then (w_clients w s)\<lparr>cl_Group := Some (fst (home s w))\<rparr> else w_clients w d)"
  "w_cryptos (join_group s w) = w_cryptos w"
proof -
  have "w_cryptos (snd (FindOrCreateGroup i v)) = w_cryptos v" for i and v :: "'a world"
    by (cases rule: FindOrCreateGroup_cases [of i v]) simp_all
  then show "w_cryptos (join_group s w) = w_cryptos w"
    by (simp add: join_group_home home_def Group_AddClient_def upd_client_def upd_group_def split: option.splits)
qed (simp add: join_group_home)

lemma AddClient_parts [simp]:
  "w_clients (AddClient s w) = w_clients w" "w_cryptos (AddClient s w) = w_cryptos w"
  by (simp_all add: AddClient_def hub_put_def)


text \<open>A client 0 and the hub's client 1, with the toy curve.\<close>

definition sample_login :: "8 word world" where
  "sample_login =
     (let opts = \<lambda>y. \<lparr>co_HeartbeatTimeout = 5000, co_WaitTimeout = 5000, co_RetryInterval = 3000, co_Crypto = Some y, co_NeedLogin = True\<rparr>
      in set_client 0 ((newClient (Some 0) (opts 0) ''u'' 1 0)\<lparr>cl_state := CONNECTED\<rparr>)
           (set_client 1 ((newClient (Some 1) (opts 1) ''v'' 0 0)\<lparr>cl_state := CONNECTED, cl_OnLogin := \<lparr>et_listeners = [HubLogin 1]\<rparr>\<rparr>)
             (New (\<lambda>y. NewCrypto (if y = 0 then 3 else 5)) 0)))"

lemma agreeing_toy: "agreeing toy_curve"
  by (auto simp: agreeing_def toy_curve_def add.commute)

lemma sample_login_ready: "login_ready 0 1 0 1 i sample_login"
  by (simp add: login_ready_def sample_login_def newClient_def newEventTarget_def New_def FindClient_def sync_map_defs
    set_client_def Let_def)


text \<open>
  C30: All clients of a server share its one Crypto object, so a second exchange replaces the
  keys of the first: afterwards the server decodes and encodes with the secret of the second
  client alone, and the first client's encoder is the server's decoder only when the two
  clients' secrets give the same cipher.
\<close>

theorem shared_crypto_serves_last:
  assumes "agreeing E" and "s \<noteq> t" and "\<And>d. d \<in> {s, t} \<Longrightarrow>
      w_mgrs w (cl_handlerMgr (w_clients w d)) = hub_handlers \<and>
      co_Crypto (cl_options (w_clients w d)) = Some z \<and> co_NeedLogin (cl_options (w_clients w d))"
    and first: "served_request app E sched s pid EXCHANGE_SECRET (json_params (exchange_json (Base64PubKey E a))) w = (r1, w1)"
    and second: "served_request app E sched t pid' EXCHANGE_SECRET (json_params (exchange_json (Base64PubKey E b))) w1 = (r2, w2)"
  shows "r1 = r2 \<and> decoder (w_cryptos w2 z) = encoder (with_secret E (w_cryptos w z) b) \<and>
    encoder (w_cryptos w2 z) = decoder (with_secret E (w_cryptos w z) b) \<and>
    (decoder (w_cryptos w2 z) = encoder (with_secret E (w_cryptos w z) a) \<longleftrightarrow>
       NewCipher (the (shared E (priKey a) (pub_bytes E (priKey (w_cryptos w z))))) =
       NewCipher (the (shared E (priKey b) (pub_bytes E (priKey (w_cryptos w z))))))"
proof -
  let ?cz = "w_cryptos w z"
  have w1: "r1 = Inr (JStr (Base64PubKey E ?cz))"
    "w1 = upd_client s (\<lambda>x. x\<lparr>cl_state := EXCHANGED_SECRET\<rparr>) (set_crypto z (with_secret E a ?cz) w)"
    using first assms(1,3) by (subst (asm) exchange_served [where z = z]; simp)+
  have w2: "r2 = Inr (JStr (Base64PubKey E (w_cryptos w1 z)))"
    "w2 = upd_client t (\<lambda>x. x\<lparr>cl_state := EXCHANGED_SECRET\<rparr>) (set_crypto z (with_secret E b (w_cryptos w1 z)) w1)"
    using second assms(1-3) w1(2) by (subst (asm) exchange_served [where z = z]; simp)+
  have "shared E (priKey ?cz) (pub_bytes E (priKey b)) = shared E (priKey b) (pub_bytes E (priKey ?cz))"
    using assms(1) by (auto simp: agreeing_def)
  then show ?thesis using w1 w2 by (auto simp: with_secret_def Base64PubKey_def Let_def)
qed

theorem shared_crypto_serves_last_witness:
  "\<exists>w1 (w2 :: 8 word world) r1 r2. let app = \<lparr>app_request = \<lambda>n r c v. (Returns JNull None, v), app_stream = \<lambda>n r c v. (Returns () None, v)\<rparr>;
       w = set_client 2 (w_clients sample_login 1) sample_login; a = NewCrypto 3; b = NewCrypto 4 in
     served_request app toy_curve (\<lambda>c w. True) 1 ''1'' EXCHANGE_SECRET (json_params (exchange_json (Base64PubKey toy_curve a))) w = (r1, w1) \<and>
     served_request app toy_curve (\<lambda>c w. True) 2 ''2'' EXCHANGE_SECRET (json_params (exchange_json (Base64PubKey toy_curve b))) w1 = (r2, w2) \<and>
     decoder (w_cryptos w2 1) = encoder (with_secret toy_curve (w_cryptos w 1) b)"
proof -
  let ?app = "\<lparr>app_request = \<lambda>n r c v. (Returns JNull None, v), app_stream = \<lambda>n r c v. (Returns () None, v)\<rparr>"
  let ?w = "set_client 2 (w_clients sample_login 1) sample_login"
  have ready: "w_mgrs ?w (cl_handlerMgr (w_clients ?w d)) = hub_handlers \<and>
      co_Crypto (cl_options (w_clients ?w d)) = Some 1 \<and> co_NeedLogin (cl_options (w_clients ?w d))" if "d \<in> {1, 2}" for d
    using that sample_login_ready [of "[]"] by (auto simp: login_ready_def set_client_def)
  obtain r1 w1 where w1: "served_request ?app toy_curve (\<lambda>c w. True) 1 ''1'' EXCHANGE_SECRET
      (json_params (exchange_json (Base64PubKey toy_curve (NewCrypto 3)))) ?w = (r1, w1)" by fastforce
  obtain r2 w2 where w2: "served_request ?app toy_curve (\<lambda>c w. True) 2 ''2'' EXCHANGE_SECRET
      (json_params (exchange_json (Base64PubKey toy_curve (NewCrypto 4)))) w1 = (r2, w2)" by fastforce
  from shared_crypto_serves_last [OF agreeing_toy _ ready w1 w2] w1 w2 show ?thesis
    unfolding Let_def by fastforce
qed

end
