(* ===== verification/World_Invariant.thy ===== *)
theory World_Invariant
  imports Hub_Server Client_Session
begin

text \<open>
  What holds of the hub's world at any time: every reference leads to an object of its kind,
  every packet in a queue carries its own type code and its receiver, the groups are the root
  and its children, no channel holds more than its buffer, and the gauges of the package count
  what waits. This theory has the invariant and its preservation by the updates the operations
  are made of.
\<close>

subsection \<open>The invariant\<close>

text \<open>
  The addresses in use, C of clients and K of connections, are parameters: the allocator's.
  A stream's id and client never change, so they are its signature.
\<close>

type_synonym stream_sig = "nat \<rightharpoonup> string \<times> nat"

definition stream_sig :: "'k world \<Rightarrow> stream_sig" where
  "stream_sig w s = (if s < w_nstreams w then Some (sm_Id (w_streams w s), sm_Client (w_streams w s)) else None)"

fun task_ok :: "nat \<Rightarrow> stream_sig \<Rightarrow> nat \<Rightarrow> client_task \<Rightarrow> bool" where
  "task_ok nb sig c (AwaitReply r resp i b) = (rs_Id resp = rq_Id r \<and> (case b of None \<Rightarrow> True | Some x \<Rightarrow> x < nb))"
| "task_ok nb sig c (InCall p i b) = (case b of None \<Rightarrow> True | Some x \<Rightarrow> x < nb)"
| "task_ok nb sig c (RunStream h r s) = (sig s = Some (sr_StreamId r, c))"
| "task_ok nb sig c t = True"

definition packet_ok :: "nat \<Rightarrow> nat \<Rightarrow> packet \<Rightarrow> bool" where
  "packet_ok nb c p \<longleftrightarrow> pk_PacketType p = TypeCode (pk_PacketContent p) \<and> pk_Client p = c \<and> pk_RawData p < nb \<and>
     (\<exists>bs. Unmarshal bs = Inr (pk_PacketContent p))"

definition center_ok :: "nat \<Rightarrow> 'cb pubsub \<Rightarrow> bool" where
  "center_ok n p \<longleftrightarrow> ps_inv p \<and> ps_pubSize p = n"

definition client_ok :: "nat set \<Rightarrow> nat set \<Rightarrow> nat \<Rightarrow> nat \<Rightarrow> stream_sig \<Rightarrow> nat \<Rightarrow> client \<Rightarrow> bool" where
  "client_ok C K nb ng sig c cl \<longleftrightarrow>
     (\<exists>k \<in> K. cl_conn cl = Some k) \<and> length (cl_rxQueue cl) \<le> RxQueueLen \<and> (\<forall>p \<in> set (cl_rxQueue cl). packet_ok nb c p) \<and>
     center_ok ClientPubChLen (cl_PubSub cl) \<and> (\<forall>sid s. cl_handlingStream cl sid = Some s \<longrightarrow> sig s = Some (sid, c)) \<and>
     (case cl_Group cl of None \<Rightarrow> True | Some g \<Rightarrow> g < ng) \<and> (\<forall>t \<in> set (cl_tasks cl). task_ok nb sig c t) \<and>
     (\<forall>d. HubLogin d \<in> set (et_listeners (cl_OnLogin cl)) \<longrightarrow> d \<in> C)"

definition conn_ok :: "nat set \<Rightarrow> nat \<Rightarrow> conn_obj \<Rightarrow> bool" where
  "conn_ok C nb x \<longleftrightarrow> length (ic_queue x) \<le> 100 \<and> (\<forall>b \<in> set (ic_queue x). b < nb) \<and>
     (\<forall>c. ClientReceive c \<in> set (et_listeners (ic_OnMessage x)) \<longrightarrow> c \<in> C)"

definition group_ok :: "nat set \<Rightarrow> nat \<Rightarrow> nat \<Rightarrow> group \<Rightarrow> bool" where
  "group_ok C root g x \<longleftrightarrow> gr_parent x = (if g = root then None else Some root) \<and> center_ok GroupPubChLen (gr_PubSub x) \<and>
     distinct (map fst (gr_clients x)) \<and> snd ` set (gr_clients x) \<subseteq> C"

definition tables_ok :: "nat set \<Rightarrow> 'k world \<Rightarrow> bool" where
  "tables_ok C w \<longleftrightarrow> w_hub_group w < w_ngroups w \<and> ran (w_hub_clients w) \<subseteq> C \<and>
     (\<forall>i g. w_hub_buckets w i = Some g \<longrightarrow> g < w_ngroups w \<and> g \<noteq> w_hub_group w \<and> gr_id (w_groups w g) = i)"

text \<open>Enqueue counts the packets in the clients' queues, PubQueue the publications in the centers', both modulo 2^64.\<close>

definition rx_sum :: "nat set \<Rightarrow> (nat \<Rightarrow> client) \<Rightarrow> int64" where
  "rx_sum C cs = (\<Sum>c \<in> C. of_nat (length (cl_rxQueue (cs c))))"

definition pub_sum :: "nat set \<Rightarrow> (nat \<Rightarrow> client) \<Rightarrow> int64" where
  "pub_sum C cs = (\<Sum>c \<in> C. of_nat (length (ps_pubCh (cl_PubSub (cs c)))))"

definition group_sum :: "nat \<Rightarrow> (nat \<Rightarrow> group) \<Rightarrow> int64" where
  "group_sum n gs = (\<Sum>g < n. of_nat (length (ps_pubCh (gr_PubSub (gs g)))))"

definition gauges_ok :: "nat set \<Rightarrow> 'k world \<Rightarrow> bool" where
  "gauges_ok C w \<longleftrightarrow> w_Enqueue w = rx_sum C (w_clients w) \<and>
     PubQueue (w_pub w) = pub_sum C (w_clients w) + group_sum (w_ngroups w) (w_groups w)"

definition world_ok :: "nat set \<Rightarrow> nat set \<Rightarrow> 'k world \<Rightarrow> bool" where
  "world_ok C K w \<longleftrightarrow> finite C \<and>
     (\<forall>c \<in> C. client_ok C K (w_nbufs w) (w_ngroups w) (stream_sig w) c (w_clients w c)) \<and>
     (\<forall>k \<in> K. conn_ok C (w_nbufs w) (w_conns w k)) \<and> (\<forall>s. length (sm_OnRev (w_streams w s)) \<le> 10) \<and>
     (\<forall>g < w_ngroups w. group_ok C (w_hub_group w) g (w_groups w g)) \<and> tables_ok C w \<and> gauges_ok C w"

lemmas ok_defs = client_ok_def conn_ok_def group_ok_def tables_ok_def gauges_ok_def

named_theorems ok_intros "updates that keep the world in order"

subsection \<open>Reading the invariant\<close>

lemma world_ok_client: "world_ok C K w \<Longrightarrow> c \<in> C \<Longrightarrow> client_ok C K (w_nbufs w) (w_ngroups w) (stream_sig w) c (w_clients w c)"
  by (simp add: world_ok_def)

lemma world_ok_conn: "world_ok C K w \<Longrightarrow> k \<in> K \<Longrightarrow> conn_ok C (w_nbufs w) (w_conns w k)"
  by (simp add: world_ok_def)

lemma world_ok_group: "world_ok C K w \<Longrightarrow> g < w_ngroups w \<Longrightarrow> group_ok C (w_hub_group w) g (w_groups w g)"
  by (simp add: world_ok_def)

lemma world_ok_tables: "world_ok C K w \<Longrightarrow> tables_ok C w"
  by (simp add: world_ok_def)

lemma world_ok_registry: "world_ok C K w \<Longrightarrow> registry_ok w"
  by (auto simp: world_ok_def tables_ok_def group_ok_def registry_ok_def FindGroup_def sm_load_def)

lemma world_ok_found: "world_ok C K w \<Longrightarrow> FindClient u w = Some c \<Longrightarrow> c \<in> C"
  by (auto simp: world_ok_def tables_ok_def FindClient_def sm_load_def ran_def)

lemma world_ok_members: "world_ok C K w \<Longrightarrow> g < w_ngroups w \<Longrightarrow> set (map snd (gr_clients (w_groups w g))) \<subseteq> C"
  by (auto simp: world_ok_def group_ok_def)

text \<open>What it does not speak of may change.\<close>

lemma stream_sig_upd [simp]:
  "stream_sig (w\<lparr>w_clients := x1\<rparr>) = stream_sig w" "stream_sig (w\<lparr>w_groups := x2\<rparr>) = stream_sig w"
  "stream_sig (w\<lparr>w_conns := x3\<rparr>) = stream_sig w" "stream_sig (w\<lparr>w_bufs := x4\<rparr>) = stream_sig w"
  "stream_sig (w\<lparr>w_nbufs := n\<rparr>) = stream_sig w" "stream_sig (w\<lparr>w_ngroups := n\<rparr>) = stream_sig w"
  "stream_sig (w\<lparr>w_cryptos := x5\<rparr>) = stream_sig w" "stream_sig (w\<lparr>w_pub := x6\<rparr>) = stream_sig w"
  "stream_sig (w\<lparr>w_Enqueue := q\<rparr>) = stream_sig w" "stream_sig (w\<lparr>w_EnConsume := q\<rparr>) = stream_sig w"
  "stream_sig (w\<lparr>w_hub_clients := x7\<rparr>) = stream_sig w" "stream_sig (w\<lparr>w_hub_buckets := x8\<rparr>) = stream_sig w"
  "stream_sig (w\<lparr>w_now := n\<rparr>) = stream_sig w" "stream_sig (w\<lparr>w_user := x9\<rparr>) = stream_sig w"
  "stream_sig (w\<lparr>w_server_conns := x10\<rparr>) = stream_sig w" "stream_sig (w\<lparr>w_dials := x11\<rparr>) = stream_sig w"
  "stream_sig (w\<lparr>w_sessions := x12\<rparr>) = stream_sig w" "stream_sig (w\<lparr>w_expiries := x13\<rparr>) = stream_sig w"
  by (simp_all add: stream_sig_def fun_eq_iff)

lemma world_ok_upd [simp]:
  "world_ok C K (w\<lparr>w_bufs := x1\<rparr>) = world_ok C K w" "world_ok C K (w\<lparr>w_cryptos := x2\<rparr>) = world_ok C K w"
  "world_ok C K (w\<lparr>w_EnConsume := x3\<rparr>) = world_ok C K w" "world_ok C K (w\<lparr>w_now := x4\<rparr>) = world_ok C K w"
  "world_ok C K (w\<lparr>w_user := x5\<rparr>) = world_ok C K w" "world_ok C K (w\<lparr>w_server_conns := x6\<rparr>) = world_ok C K w"
  "world_ok C K (w\<lparr>w_dials := x7\<rparr>) = world_ok C K w" "world_ok C K (w\<lparr>w_sessions := x8\<rparr>) = world_ok C K w"
  "world_ok C K (w\<lparr>w_expiries := x9\<rparr>) = world_ok C K w"
  by (simp_all add: world_ok_def tables_ok_def gauges_ok_def)

subsection \<open>Sums\<close>

lemma rx_sum_upd: "finite C \<Longrightarrow> c \<in> C \<Longrightarrow>
  rx_sum C (cs(c := x)) = rx_sum C cs - of_nat (length (cl_rxQueue (cs c))) + of_nat (length (cl_rxQueue x))"
  by (simp add: rx_sum_def sum.remove [of C c])

lemma pub_sum_upd: "finite C \<Longrightarrow> c \<in> C \<Longrightarrow>
  pub_sum C (cs(c := x)) = pub_sum C cs - of_nat (length (ps_pubCh (cl_PubSub (cs c)))) + of_nat (length (ps_pubCh (cl_PubSub x)))"
  by (simp add: pub_sum_def sum.remove [of C c])

lemma group_sum_upd: "g < n \<Longrightarrow>
  group_sum n (gs(g := x)) = group_sum n gs - of_nat (length (ps_pubCh (gr_PubSub (gs g)))) + of_nat (length (ps_pubCh (gr_PubSub x)))"
  by (simp add: group_sum_def sum.remove [of "{..<n}" g])

lemma sums_outside [simp]:
  "c \<notin> C \<Longrightarrow> rx_sum C (cs(c := x)) = rx_sum C cs" "c \<notin> C \<Longrightarrow> pub_sum C (cs(c := x)) = pub_sum C cs"
  by (auto simp: rx_sum_def pub_sum_def intro!: sum.cong)

lemma sums_insert:
  "finite C \<Longrightarrow> c \<notin> C \<Longrightarrow> rx_sum (insert c C) cs = of_nat (length (cl_rxQueue (cs c))) + rx_sum C cs"
  "finite C \<Longrightarrow> c \<notin> C \<Longrightarrow> pub_sum (insert c C) cs = of_nat (length (ps_pubCh (cl_PubSub (cs c)))) + pub_sum C cs"
  by (simp_all add: rx_sum_def pub_sum_def)

lemma group_sum_Suc: "group_sum (Suc n) gs = group_sum n gs + of_nat (length (ps_pubCh (gr_PubSub (gs n))))"
  by (simp add: group_sum_def)

lemma group_sum_above [simp]: "n \<le> g \<Longrightarrow> group_sum n (gs(g := x)) = group_sum n gs"
  by (auto simp: group_sum_def intro!: sum.cong)

subsection \<open>Updating a client\<close>

text \<open>The general case: the client stays in order, and the gauges follow its two channels.\<close>

lemma upd_client_world:
  assumes "world_ok C K w" "c \<in> C"
    and "client_ok C K (w_nbufs w) (w_ngroups w) (stream_sig w) c (f (w_clients w c))"
    and "q = w_Enqueue w - of_nat (length (cl_rxQueue (w_clients w c))) + of_nat (length (cl_rxQueue (f (w_clients w c))))"
    and "PubQueue p = PubQueue (w_pub w) - of_nat (length (ps_pubCh (cl_PubSub (w_clients w c)))) +
           of_nat (length (ps_pubCh (cl_PubSub (f (w_clients w c)))))"
  shows "world_ok C K ((upd_client c f w)\<lparr>w_Enqueue := q, w_pub := p\<rparr>)"
proof -
  have fin: "finite C" using assms(1) by (simp add: world_ok_def)
  have "gauges_ok C ((upd_client c f w)\<lparr>w_Enqueue := q, w_pub := p\<rparr>)"
    using assms(1,4,5) by (simp add: gauges_ok_def world_ok_def upd_client_def rx_sum_upd [OF fin assms(2)] pub_sum_upd [OF fin assms(2)])
  moreover have "tables_ok C ((upd_client c f w)\<lparr>w_Enqueue := q, w_pub := p\<rparr>)"
    using assms(1) by (simp add: world_ok_def tables_ok_def)
  ultimately show ?thesis using assms(1,3) by (simp add: world_ok_def upd_client_def)
qed

text \<open>A client whose channels keep their length; one that is not in use may become anything.\<close>

lemma upd_client_keeps:
  assumes "world_ok C K w"
    and "c \<in> C \<Longrightarrow> client_ok C K (w_nbufs w) (w_ngroups w) (stream_sig w) c (w_clients w c) \<Longrightarrow>
      client_ok C K (w_nbufs w) (w_ngroups w) (stream_sig w) c (f (w_clients w c))"
    and "c \<in> C \<Longrightarrow> length (cl_rxQueue (f (w_clients w c))) = length (cl_rxQueue (w_clients w c))"
    and "c \<in> C \<Longrightarrow> length (ps_pubCh (cl_PubSub (f (w_clients w c)))) = length (ps_pubCh (cl_PubSub (w_clients w c)))"
  shows "world_ok C K (upd_client c f w)"
proof (cases "c \<in> C")
  case True
  have "world_ok C K ((upd_client c f w)\<lparr>w_Enqueue := w_Enqueue w, w_pub := w_pub w\<rparr>)"
    by (rule upd_client_world [where f = f, OF assms(1) True assms(2) [OF True world_ok_client [OF assms(1) True]]])
      (simp_all add: assms(3,4) [OF True])
  then show ?thesis by (simp add: upd_client_def)
next
  case False
  then have "gauges_ok C (upd_client c f w) = gauges_ok C w" by (simp add: gauges_ok_def upd_client_def)
  with False assms(1) show ?thesis
    by (auto simp: world_ok_def upd_client_def tables_ok_def)
qed

text \<open>Changes the invariant does not speak of.\<close>

definition client_view :: "client \<Rightarrow> _" where
  "client_view cl = (cl_conn cl, cl_rxQueue cl, cl_PubSub cl, cl_handlingStream cl, cl_Group cl, cl_tasks cl, cl_OnLogin cl)"

lemma upd_client_view [ok_intros]:
  "world_ok C K w \<Longrightarrow> (\<And>x. client_view (f x) = client_view x) \<Longrightarrow> world_ok C K (upd_client c f w)"
  by (rule upd_client_keeps) (simp_all add: client_view_def client_ok_def)

text \<open>The center, without a publication.\<close>

lemma upd_center_ok:
  assumes "world_ok C K w"
    and "c \<in> C \<Longrightarrow> ps_inv (cl_PubSub (w_clients w c)) \<Longrightarrow>
      ps_inv p \<and> ps_pubSize p = ps_pubSize (cl_PubSub (w_clients w c)) \<and> ps_pubCh p = ps_pubCh (cl_PubSub (w_clients w c))"
  shows "world_ok C K (upd_client c (\<lambda>cl. cl\<lparr>cl_PubSub := p\<rparr>) w)"
  using assms(2) world_ok_client [OF assms(1)]
  by (intro upd_client_keeps [OF assms(1)]) (auto simp: client_ok_def center_ok_def)

lemma spawn_ok [ok_intros]:
  "world_ok C K w \<Longrightarrow> task_ok (w_nbufs w) (stream_sig w) c t \<Longrightarrow> world_ok C K (spawn c t w)"
  unfolding spawn_def by (rule upd_client_keeps) (auto simp: client_ok_def)

lemma set_task_ok [ok_intros]:
  "world_ok C K w \<Longrightarrow> task_ok (w_nbufs w) (stream_sig w) c t \<Longrightarrow> world_ok C K (set_task c n t w)"
  unfolding set_task_def by (rule upd_client_keeps) (auto simp: client_ok_def dest!: set_update_subset_insert [THEN subsetD])

lemma drop_task_ok [ok_intros]: "world_ok C K w \<Longrightarrow> world_ok C K (drop_task c n w)"
  unfolding drop_task_def
  by (rule upd_client_keeps) (auto simp: client_ok_def dest: in_set_takeD in_set_dropD)

lemma forget_stream_ok [ok_intros]:
  "world_ok C K w \<Longrightarrow> world_ok C K (upd_client c (\<lambda>cl. cl\<lparr>cl_handlingStream := (cl_handlingStream cl)(sid := None)\<rparr>) w)"
  by (rule upd_client_keeps) (auto simp: client_ok_def)

lemma task_of_ok:
  "world_ok C K w \<Longrightarrow> c \<in> C \<Longrightarrow> n < length (cl_tasks (w_clients w c)) \<Longrightarrow>
     task_ok (w_nbufs w) (stream_sig w) c (cl_tasks (w_clients w c) ! n)"
  using world_ok_client [of C K w c] by (auto simp: client_ok_def)

subsection \<open>Slices, connections, streams and groups\<close>

lemma task_ok_mono: "task_ok nb sig c t \<Longrightarrow> nb \<le> nb' \<Longrightarrow> sig \<subseteq>\<^sub>m sig' \<Longrightarrow> task_ok nb' sig' c t"
  by (cases t) (auto split: option.splits simp: map_le_def dom_def)

lemma client_ok_mono:
  assumes "client_ok C K nb ng sig c cl" "nb \<le> nb'" "ng \<le> ng'" "sig \<subseteq>\<^sub>m sig'" "C \<subseteq> C'" "K \<subseteq> K'"
  shows "client_ok C' K' nb' ng' sig' c cl"
  using assms task_ok_mono [OF _ assms(2,4)]
  by (auto simp: client_ok_def packet_ok_def map_le_def dom_def split: option.splits) (fastforce+)?

lemma conn_ok_mono: "conn_ok C nb x \<Longrightarrow> nb \<le> nb' \<Longrightarrow> C \<subseteq> C' \<Longrightarrow> conn_ok C' nb' x"
  by (fastforce simp: conn_ok_def)

lemma new_buf_ok:
  assumes "world_ok C K w" "new_buf bs w = (b, w')"
  shows "world_ok C K w'" "b < w_nbufs w'" "w_clients w' = w_clients w" "w_conns w' = w_conns w"
proof -
  have w': "w' = w\<lparr>w_bufs := (w_bufs w)(b := bs), w_nbufs := Suc b\<rparr>" "b = w_nbufs w"
    using assms(2) by (auto simp: new_buf_def)
  show "b < w_nbufs w'" "w_clients w' = w_clients w" "w_conns w' = w_conns w" by (simp_all add: w')
  have "client_ok C K nb ng sig c cl \<Longrightarrow> client_ok C K (Suc nb) ng sig c cl" for nb ng sig c cl
    by (erule client_ok_mono) simp_all
  moreover have "conn_ok C nb x \<Longrightarrow> conn_ok C (Suc nb) x" for nb x by (erule conn_ok_mono) simp_all
  ultimately show "world_ok C K w'" using assms(1) by (simp add: w' world_ok_def tables_ok_def gauges_ok_def)
qed

lemma upd_conn_ok:
  "world_ok C K w \<Longrightarrow> (k \<in> K \<Longrightarrow> conn_ok C (w_nbufs w) (w_conns w k) \<Longrightarrow> conn_ok C (w_nbufs w) (f (w_conns w k))) \<Longrightarrow>
     world_ok C K (upd_conn k f w)"
  by (auto simp: world_ok_def upd_conn_def tables_ok_def gauges_ok_def)

lemma upd_conn_view [ok_intros]:
  "world_ok C K w \<Longrightarrow> (\<And>x. ic_queue (f x) = ic_queue x \<and> ic_OnMessage (f x) = ic_OnMessage x) \<Longrightarrow> world_ok C K (upd_conn k f w)"
  by (rule upd_conn_ok) (simp_all add: conn_ok_def)

lemma upd_group_ok:
  assumes "world_ok C K w" "g < w_ngroups w" "group_ok C (w_hub_group w) g (f (w_groups w g))"
    and "gr_id (f (w_groups w g)) = gr_id (w_groups w g)"
    and "PubQueue p = PubQueue (w_pub w) - of_nat (length (ps_pubCh (gr_PubSub (w_groups w g)))) +
      of_nat (length (ps_pubCh (gr_PubSub (f (w_groups w g)))))"
  shows "world_ok C K ((upd_group g f w)\<lparr>w_pub := p\<rparr>)"
  using assms by (auto simp: world_ok_def upd_group_def tables_ok_def gauges_ok_def group_sum_upd)

lemma upd_group_keeps:
  assumes "world_ok C K w" "g < w_ngroups w \<Longrightarrow> group_ok C (w_hub_group w) g (w_groups w g) \<Longrightarrow> group_ok C (w_hub_group w) g (f (w_groups w g))"
    and "\<And>x. gr_id (f x) = gr_id x \<and> ps_pubCh (gr_PubSub (f x)) = ps_pubCh (gr_PubSub x)" and "g < w_ngroups w"
  shows "world_ok C K (upd_group g f w)"
proof -
  have "world_ok C K ((upd_group g f w)\<lparr>w_pub := w_pub w\<rparr>)"
    by (rule upd_group_ok [where f = f, OF assms(1,4) assms(2) [OF assms(4) world_ok_group [OF assms(1,4)]]]) (simp_all add: assms(3))
  then show ?thesis by (simp add: upd_group_def)
qed

end
