(* ===== verification/World_Preserved.thy ===== *)
theory World_Preserved
  imports World_Invariant
begin

text \<open>
  Every operation of the hub keeps the invariant: sending and publishing, the topic centers,
  the registry, closing and disposing, receiving, the packet handlers and the goroutines.
\<close>

subsection \<open>Sending\<close>

lemma encode_buf_ok: "encode_buf y b w = Done w' \<Longrightarrow> world_ok C K w \<Longrightarrow> world_ok C K w'"
  by (auto simp: encode_buf_def outcome_simps)

lemma prepare_send_ok: "prepare_send c b w = Done w' \<Longrightarrow> world_ok C K w \<Longrightarrow> world_ok C K w'"
  by (auto simp: prepare_send_def Let_def client_view_def split: option.splits if_splits intro!: upd_client_view elim!: encode_buf_ok)

lemma prepare_send_nbufs: "prepare_send c b w = Done w' \<Longrightarrow> w_nbufs w' = w_nbufs w \<and> stream_sig w' = stream_sig w"
  by (auto simp: prepare_send_def encode_buf_def outcome_simps upd_client_def Let_def split: option.splits if_splits)

lemma conn_sends_ok:
  "conn_SendMessage k b w = (e, w') \<Longrightarrow> b < w_nbufs w \<Longrightarrow> world_ok C K w \<Longrightarrow> world_ok C K w'"
  "conn_SendMessageDirect k b w = (e, w') \<Longrightarrow> world_ok C K w \<Longrightarrow> world_ok C K w'"
proof -
  assume s: "conn_SendMessage k b w = (e, w')" and b: "b < w_nbufs w" and ok: "world_ok C K w"
  have "w' = w \<or> length (ic_queue (w_conns w k)) < 100 \<and> w' = upd_conn k (\<lambda>x. x\<lparr>ic_queue := ic_queue x @ [b]\<rparr>) w"
    using s by (auto simp: conn_SendMessage_def Let_def split: if_splits)
  then show "world_ok C K w'" using ok b upd_conn_ok [OF ok, of k "\<lambda>x. x\<lparr>ic_queue := ic_queue x @ [b]\<rparr>"]
    by (auto simp: conn_ok_def)
qed (auto simp: conn_SendMessageDirect_def intro!: upd_conn_view)

text \<open>The allocations only grow, and a sending allocates nothing but slices.\<close>

definition grown :: "'k world \<Rightarrow> 'k world \<Rightarrow> bool" where
  "grown w w' \<longleftrightarrow> w_nbufs w \<le> w_nbufs w' \<and> w_ngroups w \<le> w_ngroups w' \<and> stream_sig w \<subseteq>\<^sub>m stream_sig w'"

lemma grown_refl [simp]: "grown w w"
  by (simp add: grown_def)

lemma grown_trans [trans]: "grown u v \<Longrightarrow> grown v w \<Longrightarrow> grown u w"
  unfolding grown_def using map_le_trans by fastforce

lemma grown_eq: "w_nbufs w' = w_nbufs w \<Longrightarrow> w_ngroups w' = w_ngroups w \<Longrightarrow> stream_sig w' = stream_sig w \<Longrightarrow> grown w w'"
  by (simp add: grown_def)

lemma SendMessage_ok:
  assumes "SendMessage c b w = Done (e, w')" "b < w_nbufs w" "world_ok C K w"
  shows "world_ok C K w'"
proof -
  obtain w1 k where w1: "prepare_send c b w = Done w1" "conn_SendMessage k b w1 = (e, w')"
    using assms(1) by (auto simp: SendMessage_def outcome_simps split: option.splits)
  show ?thesis
    using conn_sends_ok(1) [OF w1(2)] prepare_send_ok [OF w1(1) assms(3)] prepare_send_nbufs [OF w1(1)] assms(2) by simp
qed

lemma SendMessageDirect_ok:
  "SendMessageDirect c b w = Done (e, w') \<Longrightarrow> world_ok C K w \<Longrightarrow> world_ok C K w'"
  by (auto simp: SendMessageDirect_def outcome_simps split: option.splits elim!: conn_sends_ok(2) prepare_send_ok)

lemma marshal_buf_ok:
  assumes "marshal_buf p w = (b, w')" "world_ok C K w"
  shows "world_ok C K w'" "b < w_nbufs w'" "w_clients w' = w_clients w"
  using new_buf_ok [OF assms(2) assms(1) [unfolded marshal_buf_def]] by simp_all

lemma SendPacket_ok: "SendPacket c p w = Done (e, w') \<Longrightarrow> world_ok C K w \<Longrightarrow> world_ok C K w'"
  by (auto simp: SendPacket_def split: prod.splits dest: marshal_buf_ok intro: SendMessage_ok)

lemma SendPacketDirect_ok: "SendPacketDirect c p w = Done (e, w') \<Longrightarrow> world_ok C K w \<Longrightarrow> world_ok C K w'"
  by (auto simp: SendPacketDirect_def split: prod.splits dest: marshal_buf_ok intro: SendMessageDirect_ok)

lemma send_ack_ok: "send_ack c i w = Done w' \<Longrightarrow> world_ok C K w \<Longrightarrow> world_ok C K w'"
  by (auto simp: send_ack_def outcome_simps split: if_splits intro: SendPacket_ok)

lemma conn_sends_grown:
  "conn_SendMessage k b w = (e, w') \<Longrightarrow> grown w w'" "conn_SendMessageDirect k b w = (e, w') \<Longrightarrow> grown w w'"
  by (auto simp: conn_SendMessage_def conn_SendMessageDirect_def upd_conn_def Let_def split: if_splits intro!: grown_eq)

lemma prepare_send_grown: "prepare_send c b w = Done w' \<Longrightarrow> grown w w'"
  by (rule grown_eq)
    (auto simp: prepare_send_def encode_buf_def outcome_simps upd_client_def Let_def split: option.splits if_splits)

lemma SendMessage_grown: "SendMessage c b w = Done (e, w') \<Longrightarrow> grown w w'"
  by (auto simp: SendMessage_def outcome_simps split: option.splits
    dest!: conn_sends_grown(1) prepare_send_grown intro: grown_trans)

lemma SendPacket_grown: "SendPacket c p w = Done (e, w') \<Longrightarrow> grown w w'"
proof -
  assume s: "SendPacket c p w = Done (e, w')"
  obtain b w1 where b: "marshal_buf p w = (b, w1)" by fastforce
  then have "grown w w1" by (auto simp: marshal_buf_def new_buf_def grown_def split: option.splits)
  with s b show ?thesis by (auto simp: SendPacket_def dest: SendMessage_grown intro: grown_trans)
qed

lemma send_ack_grown: "send_ack c i w = Done w' \<Longrightarrow> grown w w'"
  by (auto simp: send_ack_def outcome_simps split: if_splits intro: SendPacket_grown)

lemma send_call_ok:
  assumes "send_call c p sl w = Done (b, w')" "world_ok C K w" "case sl of None \<Rightarrow> True | Some x \<Rightarrow> x < w_nbufs w"
  shows "world_ok C K w'" "b < w_nbufs w'"
proof -
  obtain w1 e where w1: "b < w_nbufs w1" "world_ok C K w1" "SendMessage c b w1 = Done (e, w')"
    using assms by (auto simp: send_call_def outcome_simps split: option.splits prod.splits dest: marshal_buf_ok)
  show "world_ok C K w'" by (rule SendMessage_ok [OF w1(3,1,2)])
  show "b < w_nbufs w'" using SendMessage_grown [OF w1(3)] w1(1) by (simp add: grown_def)
qed

lemma broadcast_to_ok: "broadcast_to cs b w = Done w' \<Longrightarrow> b < w_nbufs w \<Longrightarrow> world_ok C K w \<Longrightarrow> world_ok C K w'"
proof (induction cs arbitrary: w)
  case (Cons c cs)
  then obtain e w1 where w1: "SendMessage c b w = Done (e, w1)" "broadcast_to cs b w1 = Done w'"
    by (auto simp: outcome_simps)
  show ?case
    using Cons.IH [OF w1(2)] SendMessage_ok [OF w1(1) Cons.prems(2,3)] SendMessage_grown [OF w1(1)] Cons.prems(2)
    by (simp add: grown_def)
qed simp

lemma end_stream_ok: "end_stream c sid err w = Done w' \<Longrightarrow> world_ok C K w \<Longrightarrow> world_ok C K w'"
  by (auto simp: end_stream_def outcome_simps split: if_splits intro: SendPacketDirect_ok forget_stream_ok)

subsection \<open>Publishing\<close>

lemma PubTopic_parts:
  assumes "PubTopic pkt from (cnt, p) = Done (cnt', p')"
  shows "PubQueue cnt' = PubQueue cnt + 1" "ps_pubCh p' = ps_pubCh p @ [\<lparr>pt_pkt = pkt, pt_from = from\<rparr>]"
    "center_ok n p \<Longrightarrow> center_ok n p'"
  using assms by (auto simp: PubTopic_def outcome_simps chan_simps center_ok_def ps_inv_def)

lemma client_pub_ok:
  assumes "client_pub c pkt from w = Done w'" "c \<in> C" "world_ok C K w"
  shows "world_ok C K w'"
proof -
  obtain cnt p where p: "PubTopic pkt from (w_pub w, cl_PubSub (w_clients w c)) = Done (cnt, p)"
    and w': "w' = (upd_client c (\<lambda>cl. cl\<lparr>cl_PubSub := p\<rparr>) w)\<lparr>w_Enqueue := w_Enqueue w, w_pub := cnt\<rparr>"
    using assms(1) by (auto simp: client_pub_def outcome_simps upd_client_def)
  show ?thesis unfolding w'
    by (rule upd_client_world [OF assms(3,2)])
      (use world_ok_client [OF assms(3,2)] PubTopic_parts [OF p] in \<open>auto simp: client_ok_def\<close>)
qed

lemma group_center_pub_ok:
  assumes "group_center_pub g pkt from w = Done w'" "g < w_ngroups w" "world_ok C K w"
  shows "world_ok C K w'"
proof -
  obtain cnt p where p: "PubTopic pkt from (w_pub w, gr_PubSub (w_groups w g)) = Done (cnt, p)"
    and w': "w' = (upd_group g (\<lambda>x. x\<lparr>gr_PubSub := p\<rparr>) w)\<lparr>w_pub := cnt\<rparr>"
    using assms(1) by (auto simp: group_center_pub_def outcome_simps)
  show ?thesis unfolding w'
    by (rule upd_group_ok [OF assms(3,2)])
      (use world_ok_group [OF assms(3,2)] PubTopic_parts [OF p] in \<open>auto simp: group_ok_def\<close>)
qed

lemma publish_to_ok: "publish_to cs pkt from w = Done w' \<Longrightarrow> set cs \<subseteq> C \<Longrightarrow> world_ok C K w \<Longrightarrow> world_ok C K w'"
  by (induction cs arbitrary: w) (auto simp: outcome_simps dest: client_pub_ok)

lemma group_pub_ok: "group_pub n g pkt from w = Done w' \<Longrightarrow> g < w_ngroups w \<Longrightarrow> world_ok C K w \<Longrightarrow> world_ok C K w' \<and> same_groups w w'"
proof (induction n arbitrary: g pkt w w')
  case (Suc n)
  from Suc.prems(1) obtain w1 w2 where w1: "(case gr_parent (w_groups w g) of None \<Rightarrow> Done w
        | Some p \<Rightarrow> group_pub n p (prefixed (gr_id (w_groups w g)) pkt) from w) = Done w1"
    and w2: "group_center_pub g pkt from w1 = Done w2" "publish_to (map snd (gr_clients (w_groups w2 g))) pkt from w2 = Done w'"
    by (auto simp: outcome_simps)
  have root: "w_hub_group w < w_ngroups w" "gr_parent (w_groups w g) = (if g = w_hub_group w then None else Some (w_hub_group w))"
    using Suc.prems(3) world_ok_group [OF Suc.prems(3,2)] by (simp_all add: world_ok_def tables_ok_def group_ok_def)
  have s1: "world_ok C K w1 \<and> same_groups w w1"
    using w1 root Suc.prems(3) Suc.IH [of "w_hub_group w" _ w w1] by (auto split: if_splits)
  then have g: "g < w_ngroups w1" using Suc.prems(2) by (simp add: same_groups_def)
  note s2 = group_center_pub_ok [OF w2(1) g] group_center_pub_groups [OF w2(1)]
  then have g2: "g < w_ngroups w2" "world_ok C K w2" using g s1 by (simp_all add: same_groups_def)
  have "publish_to (map snd (gr_clients (w_groups w2 g))) pkt from w2 =
      publish_all (map (\<lambda>(k, c). (ClientCenter c, pkt)) (gr_clients (w_groups w2 g))) from w2" by (rule publish_to_all)
  with w2(2) have "same_groups w2 w'" using publish_all_groups by metis
  moreover have "world_ok C K w'" using publish_to_ok [OF w2(2)] world_ok_members [OF g2(2,1)] g2(2) by blast
  ultimately show ?case using s1 s2(2) same_groups_trans by blast
qed simp

lemma Group_PubTopic_ok:
  "Group_PubTopic g pkt from w = Done w' \<Longrightarrow> g < w_ngroups w \<Longrightarrow> world_ok C K w \<Longrightarrow> world_ok C K w'"
  unfolding Group_PubTopic_def using group_pub_ok by blast

subsection \<open>Topic centers\<close>

lemma SubTopic_center: "SubTopic (NewTopicListener t (Some cb)) p = Done p' \<Longrightarrow> ps_inv p \<Longrightarrow>
    ps_inv p' \<and> ps_pubSize p' = ps_pubSize p \<and> ps_pubCh p' = ps_pubCh p"
  by (auto simp: SubTopic_def outcome_simps chan_simps ps_inv_def)

lemma UnsubTopic_center: "UnsubTopic t p = Done p' \<Longrightarrow> ps_inv p \<Longrightarrow>
    ps_inv p' \<and> ps_pubSize p' = ps_pubSize p \<and> ps_pubCh p' = ps_pubCh p"
  by (auto simp: UnsubTopic_def outcome_simps chan_simps ps_inv_def)

lemma ClearAllSubTopics_center: "ClearAllSubTopics p = Done p' \<Longrightarrow> ps_inv p \<Longrightarrow>
    ps_inv p' \<and> ps_pubSize p' = ps_pubSize p \<and> ps_pubCh p' = ps_pubCh p"
  by (auto simp: ClearAllSubTopics_def outcome_simps chan_simps ps_inv_def)

lemma take_clear_center: "ps_inv p \<Longrightarrow> ps_inv (take_clear p) \<and> ps_pubSize (take_clear p) = ps_pubSize p \<and> ps_pubCh (take_clear p) = ps_pubCh p"
  by (auto simp: take_clear_def ps_inv_def listeners_ok_def)

lemmas centers = SubTopic_center UnsubTopic_center ClearAllSubTopics_center

lemma client_clear_ok:
  assumes "client_clear sched c w = Done w'" "world_ok C K w"
  shows "world_ok C K w'"
proof -
  let ?p = "cl_PubSub (w_clients w c)"
  let ?q = "if sched c w then take_clear ?p else ?p"
  obtain p' where p': "ClearAllSubTopics ?q = Done p'" and w': "w' = upd_client c (\<lambda>x. x\<lparr>cl_PubSub := p'\<rparr>) w"
    using assms(1) by (auto simp: client_clear_def outcome_simps Let_def)
  have "ps_inv ?p \<Longrightarrow> ps_inv ?q \<and> ps_pubSize ?q = ps_pubSize ?p \<and> ps_pubCh ?q = ps_pubCh ?p"
    using take_clear_center [of ?p] by simp
  with ClearAllSubTopics_center [OF p'] show ?thesis
    unfolding w' by (intro upd_center_ok [OF assms(2)]) simp
qed

lemma client_cancel_ok: "world_ok C K w \<Longrightarrow> world_ok C K (client_cancel c w)"
  unfolding client_cancel_def by (rule upd_client_keeps) (auto simp: client_ok_def center_ok_def ps_cancel_def ps_inv_def)

text \<open>A pass of a center takes at most one publication.\<close>

lemma loop_step_center:
  assumes "loop_step (cnt, p) calls (cnt', p')" "center_ok n p"
  shows "center_ok n p'" "PubQueue cnt' = PubQueue cnt - of_nat (length (ps_pubCh p)) + of_nat (length (ps_pubCh p'))"
    "\<And>cb pkt src. (cb, pkt, src) \<in> set calls \<Longrightarrow> cb \<in> the ` tl_callBack ` set (ps_listeners p)"
proof -
  show "center_ok n p'" using assms ps_inv_loop [OF assms(1)]
    by (auto simp: center_ok_def elim!: loop_stepE)
  show "PubQueue cnt' = PubQueue cnt - of_nat (length (ps_pubCh p)) + of_nat (length (ps_pubCh p'))"
    using assms(1) by (auto elim!: loop_stepE)
  have "deliver sp pub ls = Done cs \<Longrightarrow> (cb, pkt, src) \<in> set cs \<Longrightarrow> cb \<in> the ` tl_callBack ` set ls" for sp pub ls cs cb pkt src
    by (induction ls arbitrary: cs) (force simp: outcome_simps split: if_splits option.splits)+
  then show "\<And>cb pkt src. (cb, pkt, src) \<in> set calls \<Longrightarrow> cb \<in> the ` tl_callBack ` set (ps_listeners p)"
    using assms(1) by (auto simp: on_pub_def elim!: loop_stepE)
qed

subsection \<open>The registry\<close>

lemma newGroup_ok: "g \<noteq> root \<Longrightarrow> group_ok C root g (newGroup i (Some root))"
  by (simp add: group_ok_def newGroup_def center_ok_def) (simp add: newPubSub_def)

lemma FindOrCreateGroup_ok:
  assumes "FindOrCreateGroup i w = (g, w')" "world_ok C K w"
  shows "world_ok C K w'" "g < w_ngroups w'" "grown w w'" "w_clients w' = w_clients w"
proof -
  have *: "world_ok C K w' \<and> g < w_ngroups w' \<and> grown w w' \<and> w_clients w' = w_clients w"
  proof (cases rule: FindOrCreateGroup_cases [of i w])
    case (old h)
    then show ?thesis using assms world_ok_tables [OF assms(2)] by (auto simp: tables_ok_def FindGroup_def sm_load_def)
  next
    case made
    let ?n = "w_ngroups w"
    have parts: "g = ?n" "w' = w\<lparr>w_groups := (w_groups w)(?n := newGroup i (Some (w_hub_group w))),
         w_ngroups := Suc ?n, w_hub_buckets := (w_hub_buckets w)(i \<mapsto> ?n)\<rparr>"
      using made(2) assms(1) by simp_all
    have t: "tables_ok C w" and ga: "gauges_ok C w" using assms(2) by (simp_all add: world_ok_def)
    have "tables_ok C w'" using t by (auto simp: parts tables_ok_def newGroup_def) (metis less_SucI less_irrefl)+
    moreover have "gauges_ok C w'"
      using ga by (simp add: parts gauges_ok_def group_sum_Suc) (simp add: newGroup_def newPubSub_def)
    moreover have "client_ok C K nb ng sig c cl \<Longrightarrow> client_ok C K nb (Suc ng) sig c cl" for nb ng sig c cl
      by (erule client_ok_mono) simp_all
    moreover have "group_ok C (w_hub_group w) ?n (newGroup i (Some (w_hub_group w)))"
      using t by (intro newGroup_ok) (simp add: tables_ok_def)
    ultimately have "world_ok C K w'" using assms(2) by (auto simp: parts world_ok_def less_Suc_eq)
    then show ?thesis by (simp add: parts grown_def)
  qed
  show "world_ok C K w'" "g < w_ngroups w'" "grown w w'" "w_clients w' = w_clients w" using * by simp_all
qed

lemma home_ok:
  assumes "world_ok C K w"
  shows "world_ok C K (snd (home c w))" "fst (home c w) < w_ngroups (snd (home c w))"
proof -
  have "world_ok C K (snd (FindOrCreateGroup i w)) \<and> fst (FindOrCreateGroup i w) < w_ngroups (snd (FindOrCreateGroup i w))" for i
    using FindOrCreateGroup_ok(1,2) [OF prod.collapse [symmetric] assms] by simp
  then show "world_ok C K (snd (home c w))" "fst (home c w) < w_ngroups (snd (home c w))"
    using world_ok_tables [OF assms] assms by (simp_all add: home_def tables_ok_def split: option.splits)
qed

lemma members_update: "snd ` set (AList.update k c al) \<subseteq> insert c (snd ` set al)"
  by (induction al) auto

lemma members_delete: "snd ` set (AList.delete k al) \<subseteq> snd ` set al"
  by (induction al) auto

lemma member_store_ok: "group_ok C root g x \<Longrightarrow> c \<in> C \<Longrightarrow> group_ok C root g (member_store k c x)"
  using members_update [of k c "gr_clients x"] by (auto simp: group_ok_def member_store_def distinct_update)

lemma member_delete_ok: "group_ok C root g x \<Longrightarrow> group_ok C root g (member_delete k x)"
  using members_delete [of k "gr_clients x"] by (auto simp: group_ok_def member_delete_def distinct_delete)

lemma Group_AddClient_ok:
  assumes "world_ok C K w" "g < w_ngroups w" "c \<in> C"
  shows "world_ok C K (Group_AddClient g c w)"
proof -
  let ?w1 = "upd_group g (member_store (cl_ClientId (w_clients w c)) c) w"
  have "world_ok C K ?w1"
    by (rule upd_group_keeps [OF assms(1) _ _ assms(2)]) (auto simp: member_store_ok assms(3), simp_all add: member_store_def)
  moreover have "g < w_ngroups ?w1" using assms(2) by simp
  ultimately show ?thesis unfolding Group_AddClient_def by (intro upd_client_keeps) (auto simp: client_ok_def)
qed

lemma Group_RemoveClient_ok: "world_ok C K w \<Longrightarrow> g < w_ngroups w \<Longrightarrow> world_ok C K (Group_RemoveClient g k w)"
  unfolding Group_RemoveClient_def
  by (rule upd_group_keeps) (auto simp: member_delete_ok, simp_all add: member_delete_def)

lemma AddClient_ok: "world_ok C K w \<Longrightarrow> c \<in> C \<Longrightarrow> world_ok C K (AddClient c w)"
  by (auto simp: AddClient_def hub_put_def sm_store_def world_ok_def tables_ok_def gauges_ok_def ran_def split: if_splits)

lemma RemoveClient_ok: "world_ok C K w \<Longrightarrow> world_ok C K (RemoveClient u w)"
  by (auto simp: RemoveClient_def sm_delete_def world_ok_def tables_ok_def gauges_ok_def ran_def)

lemma join_group_ok: "world_ok C K w \<Longrightarrow> c \<in> C \<Longrightarrow> world_ok C K (join_group c w)"
  unfolding join_group_home by (intro Group_AddClient_ok home_ok)

lemma hub_forget_ok: "world_ok C K w \<Longrightarrow> world_ok C K (hub_forget c w)"
  unfolding hub_forget_home Let_def by (intro Group_RemoveClient_ok home_ok RemoveClient_ok)

subsection \<open>Closing, disposing and logging in\<close>

lemma enter_disconnect_ok: "world_ok C K w \<Longrightarrow> world_ok C K (enter_disconnect c w)"
  by (simp add: enter_disconnect_def swap_state_def Let_def upd_client_view client_view_def)

lemma run_disconnect_ok: "run_disconnect sched l ev w = Done w' \<Longrightarrow> world_ok C K w \<Longrightarrow> world_ok C K w'"
proof (cases l)
  case (Reconnect c)
  assume "run_disconnect sched l ev w = Done w'" "world_ok C K w"
  with Reconnect show ?thesis by (auto simp: outcome_simps dest!: client_clear_ok [OF _ enter_disconnect_ok])
next
  case (ReconnectUdp c)
  assume "run_disconnect sched l ev w = Done w'" "world_ok C K w"
  with ReconnectUdp show ?thesis by (auto simp: outcome_simps dest!: client_clear_ok)
qed (auto simp: outcome_simps intro: enter_disconnect_ok client_clear_ok)

lemma conn_Close_ok:
  assumes "conn_Close sched k w = Done w'" "world_ok C K w"
  shows "world_ok C K w'"
proof (cases "ic_kind (w_conns w k) = FakeUdpKind \<or> ic_closed (w_conns w k)")
  case True
  with assms show ?thesis
    by (auto simp: conn_Close_def conn_close_def Let_def split: if_splits intro!: upd_conn_view)
next
  case False
  with assms obtain u where u: "rise (run_disconnect sched) DisconnectEvent (ic_OnDisconnect (w_conns w k)) (conn_shut k w) = Done u"
    and w': "w' = conn_unlock k u" by (auto simp: conn_Close_def conn_close_def Let_def outcome_simps split: if_splits)
  have "world_ok C K (conn_shut k w)" using assms(2) by (simp add: conn_shut_def upd_conn_view)
  then have "world_ok C K u"
    by (intro rise_keeps [where run = "run_disconnect sched" and P = "world_ok C K", OF _ u])
      (auto simp: keeps_def intro: run_disconnect_ok)
  then show ?thesis by (simp add: w' conn_unlock_def upd_conn_view)
qed

lemma run_dispose_ok: "rise_listeners run_dispose ls w = Done w' \<Longrightarrow> world_ok C K w \<Longrightarrow> world_ok C K w'"
proof (induction ls arbitrary: w)
  case (Cons l ls)
  then show ?case by (cases l) (auto simp: outcome_simps intro: hub_forget_ok)
qed simp

lemma Dispose_ok:
  assumes "Dispose sched c w = Done w'" "world_ok C K w"
  shows "world_ok C K w'"
proof (cases "cl_beDisposed (w_clients w c)")
  case False
  let ?w1 = "client_cancel c (upd_client c (\<lambda>x. x\<lparr>cl_beDisposed := True\<rparr>) w)"
  from assms(1) False obtain w2 k w3 where w2: "client_clear sched c ?w1 = Done w2" and w3: "conn_Close sched k w2 = Done w3"
    and w': "rise_listeners run_dispose (et_listeners (cl_OnDispose (w_clients w3 c))) w3 = Done w'"
    by (auto simp: Dispose_def outcome_simps Let_def RiseEvent_def split: option.splits)
  have "world_ok C K ?w1" by (intro client_cancel_ok upd_client_view assms(2)) (simp add: client_view_def)
  then show ?thesis by (intro run_dispose_ok [OF w'] conn_Close_ok [OF w3] client_clear_ok [OF w2])
qed (use assms in \<open>simp add: Dispose_def\<close>)

lemma onClientLogin_ok:
  assumes "onClientLogin sched c w = Done w'" "c \<in> C" "world_ok C K w"
  shows "world_ok C K w'"
proof (cases rule: onClientLogin_parts [OF assms(1)])
  case 1
  show ?thesis unfolding 1(2)
    by (intro upd_client_view join_group_ok AddClient_ok assms) (simp add: client_view_def)
next
  case (2 d w1)
  have "world_ok C K w1" using Dispose_ok [OF 2(2)] RemoveClient_ok [OF assms(3)] by blast
  then show ?thesis unfolding 2(3)
    by (intro upd_client_view join_group_ok AddClient_ok assms(2)) (simp_all add: client_view_def)
qed

lemma changeState_ok:
  assumes "changeState sched c s w = Done w'" "world_ok C K w"
    and "\<And>d. HubLogin d \<in> set (et_listeners (cl_OnLogin (w_clients w c))) \<Longrightarrow> d \<in> C"
  shows "world_ok C K w'"
proof -
  let ?w1 = "upd_client c (\<lambda>x. x\<lparr>cl_state := settle (cl_options (w_clients w c)) s\<rparr>) w"
  have ok1: "world_ok C K ?w1" by (rule upd_client_view [OF assms(2)]) (simp add: client_view_def)
  have run: "rise_listeners (run_login sched) ls v = Done v' \<Longrightarrow> (\<And>d. HubLogin d \<in> set ls \<Longrightarrow> d \<in> C) \<Longrightarrow> world_ok C K v \<Longrightarrow> world_ok C K v'"
    for ls v v'
  proof (induction ls arbitrary: v)
    case (Cons l ls)
    then show ?case by (cases l) (auto simp: outcome_simps dest: onClientLogin_ok)
  qed simp
  have "w' = ?w1 \<or> rise_listeners (run_login sched) (et_listeners (cl_OnLogin (w_clients w c))) ?w1 = Done w'"
    using assms(1) by (auto simp: changeState_def swap_state_def RiseEvent_def Let_def split: if_splits)
  with ok1 run [OF _ assms(3)] show ?thesis by blast
qed

lemma changeState_member:
  "changeState sched c s w = Done w' \<Longrightarrow> world_ok C K w \<Longrightarrow> c \<in> C \<Longrightarrow> world_ok C K w'"
  by (rule changeState_ok, assumption+) (use world_ok_client [of C K w c] in \<open>auto simp: client_ok_def\<close>)

lemma tick_ok:
  assumes "tick sched c w = Done w'" "world_ok C K w"
  shows "world_ok C K w'"
proof -
  obtain w1 where w1: "w1 = w \<or> (\<exists>e. SendPacket c (HeartbeatPacket []) w = Done (e, w1))"
    and w': "w' = w1 \<or> Dispose sched c w1 = Done w' \<or> (\<exists>k. conn_Close sched k w1 = Done w')"
    using assms(1) by (auto simp: tick_def Let_def outcome_simps split: if_splits option.splits)
  from w1 have "world_ok C K w1" using assms(2) by (auto intro: SendPacket_ok)
  with w' show ?thesis by (auto intro: Dispose_ok conn_Close_ok)
qed

subsection \<open>Receiving\<close>

lemma decrypt_received_ok:
  assumes "decrypt_received c b w = Done w'"
  shows "world_ok C K w' = world_ok C K w" "w_nbufs w' = w_nbufs w" "w_clients w' = w_clients w" "grown w w'"
  using assms by (auto simp: decrypt_received_def decode_buf_def outcome_simps grown_def split: option.splits client_state.splits)

lemma enqueue_packet_ok:
  assumes "enqueue_packet c pkt w = Done w'" "c \<in> C" "world_ok C K w" "packet_ok (w_nbufs w) c pkt"
  shows "world_ok C K w'"
proof -
  let ?f = "\<lambda>cl. cl\<lparr>cl_lastRxTime := w_now w, cl_rxQueue := cl_rxQueue (w_clients w c) @ [pkt]\<rparr>"
  have room: "length (cl_rxQueue (w_clients w c)) < RxQueueLen"
    and w': "w' = (upd_client c ?f w)\<lparr>w_Enqueue := w_Enqueue w + 1, w_pub := w_pub w\<rparr>"
    using assms(1) by (auto simp: enqueue_packet_def Let_def outcome_simps chan_simps upd_client_def)
  show ?thesis unfolding w'
    by (rule upd_client_world [OF assms(3,2)])
      (use world_ok_client [OF assms(3,2)] room assms(4) in \<open>auto simp: client_ok_def\<close>)
qed

lemma receiveMessage_parts:
  assumes "receiveMessage c b w = Done w'"
  obtains (dropped) "decrypt_received c b w = Done w'"
  | (queued) w1 p where "decrypt_received c b w = Done w1" "Unmarshal (w_bufs w1 b) = Inr p"
      "enqueue_packet c \<lparr>pk_RawData = b, pk_PacketType = TypeCode p, pk_PacketContent = p, pk_Client = c\<rparr> w1 = Done w'"
proof -
  obtain w1 where w1: "decrypt_received c b w = Done w1"
    and w': "(case Unmarshal (w_bufs w1 b) of Inl e \<Rightarrow> Done w1
        | Inr p \<Rightarrow> if admits (cl_state (w_clients w1 c)) p
            then enqueue_packet c \<lparr>pk_RawData = b, pk_PacketType = TypeCode p, pk_PacketContent = p, pk_Client = c\<rparr> w1
            else Done w1) = Done w'"
    using assms by (auto simp: receiveMessage_def outcome_simps)
  show thesis
    by (cases "w' = w1") (use w1 w' dropped queued [OF w1] in \<open>auto split: sum.splits if_splits\<close>)
qed

lemma receiveMessage_ok:
  assumes "receiveMessage c b w = Done w'" "c \<in> C" "world_ok C K w" "b < w_nbufs w"
  shows "world_ok C K w'" "w_nbufs w' = w_nbufs w"
proof -
  have "world_ok C K w' \<and> w_nbufs w' = w_nbufs w"
  proof (cases rule: receiveMessage_parts [OF assms(1)])
    case 1
    then show ?thesis using decrypt_received_ok [OF 1] assms(3) by simp
  next
    case (2 w1 p)
    note d = decrypt_received_ok [OF 2(1)]
    have "world_ok C K w'"
      using d(1,2) assms(3,4) 2(2) by (intro enqueue_packet_ok [OF 2(3) assms(2)]) (auto simp: packet_ok_def)
    moreover have "w_nbufs w' = w_nbufs w1"
      using 2(3) by (auto simp: enqueue_packet_def Let_def outcome_simps upd_client_def)
    ultimately show ?thesis using d(2) by simp
  qed
  then show "world_ok C K w'" "w_nbufs w' = w_nbufs w" by simp_all
qed

lemma run_messages_ok:
  "rise_listeners (run_message b) ls w = Done w' \<Longrightarrow> (\<And>c. ClientReceive c \<in> set ls \<Longrightarrow> c \<in> C) \<Longrightarrow> world_ok C K w \<Longrightarrow> b < w_nbufs w \<Longrightarrow>
     world_ok C K w'"
proof (induction ls arbitrary: w)
  case (Cons l ls)
  from Cons.prems(1) obtain w1 where w1: "run_message b l w = Done w1" "rise_listeners (run_message b) ls w1 = Done w'"
    by (auto simp: outcome_simps)
  have "world_ok C K w1 \<and> w_nbufs w1 = w_nbufs w"
  proof (cases l)
    case (ClientReceive c)
    then have "receiveMessage c b w = Done w1" "c \<in> C" using w1(1) Cons.prems(2) by simp_all
    then show ?thesis using receiveMessage_ok [OF _ _ Cons.prems(3,4)] by simp
  qed (use w1(1) Cons.prems(3) in auto)
  with Cons.IH [OF w1(2)] Cons.prems(2,4) show ?case by simp
qed simp

lemma conn_message_ok:
  assumes "conn_message k bs w = Done w'" "k \<in> K" "world_ok C K w"
  shows "world_ok C K w'"
proof -
  obtain b w1 where b: "new_buf bs w = (b, w1)"
    and w': "rise_listeners (run_message b) (et_listeners (ic_OnMessage (w_conns w1 k))) w1 = Done w'"
    using assms(1) by (auto simp: conn_message_def RiseEvent_def split: prod.splits)
  note n = new_buf_ok [OF assms(3) b]
  show ?thesis
    using world_ok_conn [OF n(1) assms(2)] by (intro run_messages_ok [OF w' _ n(1,2)]) (simp add: conn_ok_def)
qed

subsection \<open>The packet handlers\<close>

text \<open>What the handlers of the application have to do for it: keep the invariant themselves.\<close>

definition app_keeps :: "'k app \<Rightarrow> bool" where
  "app_keeps app \<longleftrightarrow> (\<forall>C K w. world_ok C K w \<longrightarrow>
     (\<forall>n r c. c \<in> C \<longrightarrow> world_ok C K (snd (app_request app n r c w))) \<and>
     (\<forall>n r s. s < w_nstreams w \<and> sm_Client (w_streams w s) \<in> C \<longrightarrow> world_ok C K (snd (app_stream app n r s w))))"

lemma app_keeps_runs:
  assumes "app_keeps app" "world_ok C K w"
  shows "app_request app n r c w = (a, w') \<Longrightarrow> c \<in> C \<Longrightarrow> world_ok C K w'"
    and "app_stream app n q s w = (b, w') \<Longrightarrow> stream_sig w s = Some (sid, c) \<Longrightarrow> c \<in> C \<Longrightarrow> world_ok C K w'"
  using assms unfolding app_keeps_def stream_sig_def by (metis snd_conv, metis option.simps(3) option.sel snd_conv)

lemma run_handler_ok:
  assumes "run_handler app E h r c w = (answer, w')" "app_keeps app" "c \<in> C" "world_ok C K w"
  shows "world_ok C K w'"
proof (cases h)
  case LoginHandler
  with assms(1,4) show ?thesis
    by (auto simp: login_handler_def upd_client_def split: option.splits
      intro!: upd_client_view [unfolded upd_client_def] simp: client_view_def)
next
  case ExchangeHandler
  with assms(1,4) show ?thesis
    by (auto simp: exchange_handler_def split: option.splits prod.splits sum.splits)
next
  case (UserHandler n)
  with assms(1) have "app_request app n r c w = (answer, w')" by simp
  from app_keeps_runs(1) [OF assms(2,4) this assms(3)] show ?thesis .
qed

lemma respond_ok:
  assumes "respond app E c r w = Done (resp, w')" "app_keeps app" "c \<in> C" "world_ok C K w"
  shows "world_ok C K w'" "rs_Id resp = rq_Id r"
proof -
  have "world_ok C K w' \<and> rs_Id resp = rq_Id r"
  proof (cases "client_handler c (rq_Method r) w")
    case None
    with assms show ?thesis by (auto simp: respond_def)
  next
    case (Some h)
    obtain answer w1 where h: "run_handler app E h r c w = (answer, w1)" by fastforce
    with Some assms(1) have "w' = w1 \<and> rs_Id resp = rq_Id r"
      by (auto simp: respond_def outcome_simps split: option.splits)
    with run_handler_ok [OF h assms(2-4)] show ?thesis by simp
  qed
  then show "world_ok C K w'" "rs_Id resp = rq_Id r" by simp_all
qed

lemma stream_push_ok:
  assumes "stream_push s p w = Done w'" "world_ok C K w"
  shows "world_ok C K w' \<and> stream_sig w' = stream_sig w"
proof -
  let ?x = "(w_streams w s)\<lparr>sm_OnRev := sm_OnRev (w_streams w s) @ [p]\<rparr>"
  have room: "length (sm_OnRev (w_streams w s)) < 10" and w': "w' = w\<lparr>w_streams := (w_streams w)(s := ?x)\<rparr>"
    using assms(1) by (auto simp: stream_push_def outcome_simps chan_simps)
  have sig: "stream_sig w' = stream_sig w" by (simp add: w' stream_sig_def fun_eq_iff)
  have "tables_ok C w'" "gauges_ok C w'" using assms(2) by (simp_all add: w' world_ok_def tables_ok_def gauges_ok_def)
  with sig room assms(2) show ?thesis by (simp add: world_ok_def w')
qed

text \<open>A new stream of a client, under its id.\<close>

lemma new_stream_ok:
  assumes "world_ok C K w"
    and w'_def: "w' = upd_client c (\<lambda>cl. cl\<lparr>cl_handlingStream := (cl_handlingStream cl)(sid \<mapsto> w_nstreams w)\<rparr>)
      (w\<lparr>w_streams := (w_streams w)(w_nstreams w := newStream sid c), w_nstreams := Suc (w_nstreams w)\<rparr>)"
  shows "world_ok C K w'" "stream_sig w' (w_nstreams w) = Some (sid, c)" "grown w w'"
proof -
  let ?u = "w\<lparr>w_streams := (w_streams w)(w_nstreams w := newStream sid c), w_nstreams := Suc (w_nstreams w)\<rparr>"
  have le: "stream_sig w \<subseteq>\<^sub>m stream_sig ?u" and sid: "stream_sig ?u (w_nstreams w) = Some (sid, c)"
    by (auto simp: stream_sig_def map_le_def newStream_def dom_def)
  have "client_ok C K nb ng (stream_sig w) d cl \<Longrightarrow> client_ok C K nb ng (stream_sig ?u) d cl" for nb ng d cl
    by (erule client_ok_mono) (simp_all add: le)
  then have u: "world_ok C K ?u" using assms(1) by (simp add: world_ok_def tables_ok_def gauges_ok_def newStream_def)
  show "world_ok C K w'" unfolding w'_def
    by (rule upd_client_keeps [OF u]) (use sid in \<open>auto simp: client_ok_def\<close>)
  have sig: "stream_sig w' = stream_sig ?u" by (simp add: w'_def upd_client_def)
  show "stream_sig w' (w_nstreams w) = Some (sid, c)" using sid sig by simp
  show "grown w w'" using le sig by (simp add: grown_def w'_def upd_client_def)
qed

lemma cl_Group_ok: "world_ok C K w \<Longrightarrow> c \<in> C \<Longrightarrow> cl_Group (w_clients w c) = Some g \<Longrightarrow> g < w_ngroups w"
  using world_ok_client [of C K w c] by (simp add: client_ok_def)

lemma center_update_ok:
  assumes "world_ok C K w" "ps_inv (cl_PubSub (w_clients w c)) \<Longrightarrow>
      ps_inv p \<and> ps_pubSize p = ps_pubSize (cl_PubSub (w_clients w c)) \<and> ps_pubCh p = ps_pubCh (cl_PubSub (w_clients w c))"
  shows "world_ok C K (upd_client c (\<lambda>cl. cl\<lparr>cl_PubSub := p\<rparr>) w)"
  by (rule upd_center_ok [OF assms(1)]) (rule assms(2))

lemma upd_pending_ok: "world_ok C K w \<Longrightarrow> world_ok C K (upd_client c (\<lambda>cl. cl\<lparr>cl_pending := s\<rparr>) w)"
  by (rule upd_client_view) (simp_all add: client_view_def)

text \<open>Each handler starts with the acknowledgement.\<close>

lemma acked:
  assumes "and_then (send_ack c i w) f = Done w'" "world_ok C K w"
    and "\<And>w1. world_ok C K w1 \<Longrightarrow> grown w w1 \<Longrightarrow> f w1 = Done w' \<Longrightarrow> world_ok C K w'"
  shows "world_ok C K w'"
proof -
  obtain w1 where w1: "send_ack c i w = Done w1" "f w1 = Done w'" using assms(1) by (auto simp: outcome_simps)
  show ?thesis by (rule assms(3) [OF send_ack_ok [OF w1(1) assms(2)] send_ack_grown [OF w1(1)] w1(2)])
qed

lemma onReceiveResponse_ok: "onReceiveResponse c pkt w = Done w' \<Longrightarrow> world_ok C K w \<Longrightarrow> world_ok C K w'"
  by (auto simp: onReceiveResponse_def type_panic_def outcome_simps split: inet_packet.splits intro!: upd_pending_ok intro: send_ack_ok)

lemma onReceiveAck_ok: "onReceiveAck c pkt w = Done w' \<Longrightarrow> world_ok C K w \<Longrightarrow> world_ok C K w'"
  by (auto simp: onReceiveAck_def type_panic_def outcome_simps split: inet_packet.splits intro!: upd_pending_ok)

lemma onReceivePublish_ok:
  assumes "onReceivePublish c pkt w = Done w'" "world_ok C K w" "c \<in> C"
  shows "world_ok C K w'"
proof -
  obtain r where p: "and_then (send_ack c (pb_Id r) w) (\<lambda>w1. case cl_Group (w_clients w1 c) of
      Some g \<Rightarrow> Group_PubTopic g (own_topic (w_clients w1 c) r) c w1 | None \<Rightarrow> client_pub c r c w1) = Done w'"
    using assms(1) by (auto simp: onReceivePublish_def type_panic_def split: inet_packet.splits)
  show ?thesis
    by (rule acked [OF p assms(2)])
      (auto split: option.splits intro: Group_PubTopic_ok client_pub_ok [OF _ assms(3)] cl_Group_ok [OF _ assms(3)])
qed

lemma onReceiveSubscribe_ok:
  assumes "onReceiveSubscribe c pkt w = Done w'" "world_ok C K w"
  shows "world_ok C K w'"
proof -
  obtain r :: subscribe_packet where p: "and_then (send_ack c (sb_Id r) w) (\<lambda>w1. and_then
       (SubTopic (NewTopicListener (sb_Topic r) (Some (RemoteSub c (sb_Attributes r)))) (cl_PubSub (w_clients w1 c)))
       (\<lambda>p. Done (upd_client c (\<lambda>cl. cl\<lparr>cl_PubSub := p\<rparr>) w1))) = Done w'"
    using assms(1) by (auto simp: onReceiveSubscribe_def type_panic_def split: inet_packet.splits)
  show ?thesis
    by (rule acked [OF p assms(2)]) (auto simp: outcome_simps intro!: center_update_ok dest: SubTopic_center)
qed

lemma onReceiveBroadcast_ok:
  assumes "onReceiveBroadcast c pkt w = Done w'" "world_ok C K w" "pk_RawData pkt < w_nbufs w"
  shows "world_ok C K w'"
proof -
  obtain r where p: "and_then (send_ack c (pb_Id r) w) (\<lambda>w1. case cl_Group (w_clients w1 c) of
       Some g \<Rightarrow> Broadcast g (pk_RawData pkt) w1
     | None \<Rightarrow> (case cl_OnBroadcast (w_clients w1 c) of None \<Rightarrow> Done w1
          | Some n \<Rightarrow> Done (w1\<lparr>w_user := w_user w1 @ [BroadcastCall n r]\<rparr>))) = Done w'"
    using assms(1) by (auto simp: onReceiveBroadcast_def type_panic_def split: inet_packet.splits)
  show ?thesis
  proof (rule acked [OF p assms(2)])
    fix w1
    assume w1: "world_ok C K w1" "grown w w1" and f: "(case cl_Group (w_clients w1 c) of
       Some g \<Rightarrow> Broadcast g (pk_RawData pkt) w1
     | None \<Rightarrow> (case cl_OnBroadcast (w_clients w1 c) of None \<Rightarrow> Done w1
          | Some n \<Rightarrow> Done (w1\<lparr>w_user := w_user w1 @ [BroadcastCall n r]\<rparr>))) = Done w'"
    have "pk_RawData pkt < w_nbufs w1" using w1(2) assms(3) by (simp add: grown_def)
    with f w1(1) show "world_ok C K w'"
      by (auto simp: Broadcast_def split: option.splits intro: broadcast_to_ok)
  qed
qed

lemma push_found_ok:
  assumes "(case cl_handlingStream (w_clients w c) sid of Some s \<Rightarrow> stream_push s p w | None \<Rightarrow> Done w) = Done w'" "world_ok C K w"
  shows "world_ok C K w'"
  using assms stream_push_ok [of _ p w w' C K] by (auto split: option.splits)

lemma stream_handlers_ok:
  "onReceiveStreamResponse c pkt w = Done w' \<Longrightarrow> world_ok C K w \<Longrightarrow> world_ok C K w'"
  "onReceiveCloseStream c pkt w = Done w' \<Longrightarrow> world_ok C K w \<Longrightarrow> world_ok C K w'"
  by (auto simp: onReceiveStreamResponse_def onReceiveCloseStream_def type_panic_def split: inet_packet.splits
    elim!: acked push_found_ok)

lemma onReceiveStreamRequest_ok:
  assumes "onReceiveStreamRequest c pkt w = Done w'" "world_ok C K w"
  shows "world_ok C K w'"
proof -
  obtain r w1 where w1: "world_ok C K w1" and
    w': "(case cl_handlingStream (w_clients w1 c) (sr_StreamId r) of
       Some s \<Rightarrow> stream_push s (StreamRequestRawPacket r) w1
     | None \<Rightarrow>
         (case findStreamHandler (sr_Method r) (w_mgrs w1 (cl_handlerMgr (w_clients w1 c))) of
            None \<Rightarrow> Done (spawn c (DirectSend (StreamClosePacket
                \<lparr>sc_Id = [], sc_StreamId = sr_Id r, sc_Error = no_method_text\<rparr>)) w1)
          | Some h \<Rightarrow>
              (let s = w_nstreams w1;
                   w2 = upd_client c (\<lambda>cl. cl\<lparr>cl_handlingStream := (cl_handlingStream cl)(sr_StreamId r \<mapsto> s)\<rparr>)
                     (w1\<lparr>w_streams := (w_streams w1)(s := newStream (sr_StreamId r) c), w_nstreams := Suc s\<rparr>)
               in and_then (stream_push s (StreamRequestRawPacket r) w2)
                    (\<lambda>w3. Done (spawn c (RunStream h r s) w3))))) = Done w'"
    using assms send_ack_ok by (fastforce simp: onReceiveStreamRequest_def type_panic_def outcome_simps split: inet_packet.splits)
  note n = new_stream_ok [OF w1 refl, of c "sr_StreamId r"]
  show ?thesis
  proof (cases "cl_handlingStream (w_clients w1 c) (sr_StreamId r)")
    case (Some s)
    with w' w1 show ?thesis by (auto dest: stream_push_ok)
  next
    case None
    show ?thesis
    proof (cases "findStreamHandler (sr_Method r) (w_mgrs w1 (cl_handlerMgr (w_clients w1 c)))")
      case None
      with \<open>cl_handlingStream (w_clients w1 c) (sr_StreamId r) = None\<close> w' w1 show ?thesis by (auto intro!: spawn_ok)
    next
      case (Some h)
      with None w' obtain w3 where w3: "stream_push (w_nstreams w1) (StreamRequestRawPacket r)
          (upd_client c (\<lambda>cl. cl\<lparr>cl_handlingStream := (cl_handlingStream cl)(sr_StreamId r \<mapsto> w_nstreams w1)\<rparr>)
            (w1\<lparr>w_streams := (w_streams w1)(w_nstreams w1 := newStream (sr_StreamId r) c), w_nstreams := Suc (w_nstreams w1)\<rparr>)) = Done w3"
        "w' = spawn c (RunStream h r (w_nstreams w1)) w3"
        by (auto simp: Let_def outcome_simps)
      from stream_push_ok [OF w3(1) n(1)] n(2) show ?thesis
        unfolding w3(2) by (intro spawn_ok) auto
    qed
  qed
qed

lemma onReceivePing_ok: "onReceivePing c pkt w = Done w' \<Longrightarrow> world_ok C K w \<Longrightarrow> world_ok C K w'"
  by (auto simp: onReceivePing_def type_panic_def outcome_simps Let_def split: inet_packet.splits option.splits
    dest!: SendPacket_ok [where C = C and K = K])

lemma onReceivePong_ok: "onReceivePong c pkt w = Done w' \<Longrightarrow> world_ok C K w \<Longrightarrow> world_ok C K w'"
  by (auto simp: onReceivePong_def type_panic_def split: inet_packet.splits option.splits)

lemma onReceiveRequest_ok:
  assumes "onReceiveRequest app E c pkt w = Done w'" "app_keeps app" "c \<in> C" "world_ok C K w" "pk_Client pkt = c"
  shows "world_ok C K w'"
proof -
  obtain r where r: "pk_PacketContent pkt = RequestPacket r"
    using assms(1) by (auto simp: onReceiveRequest_def type_panic_def split: inet_packet.splits)
  have upd: "world_ok C K w1 \<Longrightarrow> world_ok C K (spawn c (ExecRequest r)
      (upd_client c (\<lambda>cl. cl\<lparr>cl_handlingReq := insert (rq_Id r) (cl_handlingReq cl)\<rparr>) w1))" for w1
    by (intro spawn_ok upd_client_view) (simp_all add: client_view_def)
  show ?thesis
  proof (cases "rq_Id r = []")
    case True
    with assms(1) r run_handler_ok [OF _ assms(2-4)] assms(4,5) show ?thesis
      by (auto simp: onReceiveRequest_def outcome_simps split: option.splits prod.splits)
  next
    case False
    with assms(1) r obtain w1 where w1: "send_ack c (rq_Id r) w = Done w1"
      "w' = w1 \<or> w' = spawn c (ExecRequest r) (upd_client c (\<lambda>cl. cl\<lparr>cl_handlingReq := insert (rq_Id r) (cl_handlingReq cl)\<rparr>) w1)"
      by (auto simp: onReceiveRequest_def outcome_simps split: if_splits)
    with send_ack_ok [OF w1(1) assms(4)] upd show ?thesis by auto
  qed
qed

lemma handle_next_ok:
  assumes "handle_next app E c w = Done w'" "app_keeps app" "c \<in> C" "world_ok C K w"
  shows "world_ok C K w'"
proof (cases "cl_rxQueue (w_clients w c)")
  case (Cons pkt q)
  let ?w1 = "upd_client c (\<lambda>cl. cl\<lparr>cl_rxQueue := q\<rparr>) (w\<lparr>w_Enqueue := w_Enqueue w - 1, w_EnConsume := w_EnConsume w + 1\<rparr>)"
  have c: "client_ok C K (w_nbufs w) (w_ngroups w) (stream_sig w) c (w_clients w c)" by (rule world_ok_client [OF assms(4,3)])
  have "world_ok C K ((upd_client c (\<lambda>cl. cl\<lparr>cl_rxQueue := q\<rparr>) w)\<lparr>w_Enqueue := w_Enqueue w - 1, w_pub := w_pub w\<rparr>)"
    by (rule upd_client_world [OF assms(4,3)]) (use c Cons in \<open>auto simp: client_ok_def\<close>)
  moreover have "?w1 = ((upd_client c (\<lambda>cl. cl\<lparr>cl_rxQueue := q\<rparr>) w)\<lparr>w_Enqueue := w_Enqueue w - 1, w_pub := w_pub w\<rparr>)
      \<lparr>w_EnConsume := w_EnConsume w + 1\<rparr>" by (rule world.equality) (simp_all add: upd_client_def)
  ultimately have ok: "world_ok C K ?w1" by simp
  have raw: "pk_RawData pkt < w_nbufs ?w1" "pk_Client pkt = c" using c Cons by (auto simp: client_ok_def packet_ok_def upd_client_def)
  have w': "(case packetHandler app E c (pk_PacketType pkt) of
      None \<Rightarrow> Done (upd_client c (\<lambda>cl. cl\<lparr>cl_running := False\<rparr>) ?w1) | Some h \<Rightarrow> h pkt ?w1) = Done w'"
    using assms(1) Cons by (simp add: handle_next_def Let_def)
  show ?thesis
  proof (cases "packetHandler app E c (pk_PacketType pkt)")
    case None
    with w' ok show ?thesis by (auto intro!: upd_client_view simp: client_view_def)
  next
    case (Some h)
    with w' have h: "h pkt ?w1 = Done w'" by simp
    from map_of_SomeD [OF Some [unfolded packetHandler_def]] show ?thesis
      using h ok raw assms(2,3)
      by (auto elim!: onReceiveRequest_ok onReceiveAck_ok onReceiveResponse_ok onReceivePublish_ok onReceiveSubscribe_ok
        onReceiveBroadcast_ok onReceiveStreamRequest_ok stream_handlers_ok onReceivePing_ok onReceivePong_ok)
  qed
qed (use assms in \<open>simp add: handle_next_def\<close>)

subsection \<open>Goroutines\<close>

lemma open_call_ok: "open_call k c p w = (i, w') \<Longrightarrow> world_ok C K w \<Longrightarrow> world_ok C K w'"
  by (auto simp: open_call_def client_view_def intro!: upd_client_view)

lemma fold_spawn_ok:
  "world_ok C K w \<Longrightarrow> (\<And>t. t \<in> set ts \<Longrightarrow> task_ok (w_nbufs w) (stream_sig w) c t) \<Longrightarrow> world_ok C K (fold (spawn c) ts w)"
proof (induction ts arbitrary: w)
  case (Cons t ts)
  have "world_ok C K (spawn c t w)" using Cons.prems by (intro spawn_ok) simp_all
  moreover have "w_nbufs (spawn c t w) = w_nbufs w" "stream_sig (spawn c t w) = stream_sig w"
    by (simp_all add: spawn_def upd_client_def)
  ultimately show ?case using Cons by simp
qed simp

lemma task_start_ok:
  assumes "task_start app E c t w = Done (ts, w')" "app_keeps app" "c \<in> C" "world_ok C K w" "task_ok (w_nbufs w) (stream_sig w) c t"
  shows "world_ok C K (fold (spawn c) ts w')"
proof (cases t)
  case (ExecRequest r)
  with assms(1) obtain resp w1 where r1: "respond app E c r w = Done (resp, w1)"
    "(case open_call RetryNotify c (ResponsePacket resp) w1 of (i, w2) \<Rightarrow> Done ([AwaitReply r resp i None], w2)) = Done (ts, w')"
    by (auto simp: outcome_simps)
  obtain i w2 where "open_call RetryNotify c (ResponsePacket resp) w1 = (i, w2)" by fastforce
  with r1 have r: "respond app E c r w = Done (resp, w1)"
    "open_call RetryNotify c (ResponsePacket resp) w1 = (i, w')" "ts = [AwaitReply r resp i None]" by auto
  show ?thesis unfolding r(3)
    using open_call_ok [OF r(2) respond_ok(1) [OF r(1) assms(2-4)]] respond_ok(2) [OF r(1) assms(2-4)] by (intro fold_spawn_ok) auto
next
  case (StartCall k p)
  with assms(1) open_call_ok [OF _ assms(4)] show ?thesis
    by (auto split: prod.splits intro!: spawn_ok)
next
  case (DirectSend p)
  with assms(1,4) show ?thesis by (auto simp: outcome_simps intro: SendPacketDirect_ok)
next
  case (RunStream h r s)
  obtain answer w1 where a: "app_stream app h r s w = (answer, w1)" by fastforce
  have "stream_sig w s = Some (sr_StreamId r, c)" using assms(5) RunStream by simp
  from app_keeps_runs(2) [OF assms(2,4) a this assms(3)] have "world_ok C K w1" .
  with RunStream a assms(1) show ?thesis by (auto simp: outcome_simps dest: end_stream_ok)
next
  case (AwaitReply r resp i b)
  with assms show ?thesis by (auto intro!: spawn_ok)
next
  case (InCall p i b)
  with assms show ?thesis by (auto intro!: spawn_ok)
qed

lemma drop_task_parts [simp]:
  "w_nbufs (drop_task c n w) = w_nbufs w" "stream_sig (drop_task c n w) = stream_sig w"
  by (simp_all add: drop_task_def upd_client_def)

lemma start_task_ok:
  assumes "start_task app E c n w = Done w'" "app_keeps app" "c \<in> C" "world_ok C K w"
  shows "world_ok C K w'"
proof (cases "n < length (cl_tasks (w_clients w c))")
  case True
  with assms(1) obtain ts w1 where t: "task_start app E c (cl_tasks (w_clients w c) ! n) (drop_task c n w) = Done (ts, w1)"
    "w' = fold (spawn c) ts w1" by (auto simp: start_task_def outcome_simps)
  show ?thesis unfolding t(2)
    using task_of_ok [OF assms(4,3) True] by (intro task_start_ok [OF t(1) assms(2,3) drop_task_ok [OF assms(4)]]) simp
qed (use assms in \<open>simp add: start_task_def\<close>)

lemma call_task_ok:
  assumes "call_task pick c n w = Done w'" "c \<in> C" "world_ok C K w"
  shows "world_ok C K w'"
proof (cases "length (cl_tasks (w_clients w c)) \<le> n \<or> task_call (cl_tasks (w_clients w c) ! n) = None")
  case False
  then obtain p i sl where n: "n < length (cl_tasks (w_clients w c))" and t: "task_call (cl_tasks (w_clients w c) ! n) = Some (p, i, sl)"
    by auto
  note task = task_of_ok [OF assms(3,2) n]
  have sl: "case sl of None \<Rightarrow> True | Some x \<Rightarrow> x < w_nbufs w" using t task by (cases "cl_tasks (w_clients w c) ! n") auto
  show ?thesis
  proof (cases "call_step pick i (cl_pending (w_clients w c))")
    case None
    with n t assms(1,3) show ?thesis by (simp add: call_task_def)
  next
    case (Some r)
    with n t assms(1) obtain s where s: "r = Done s" and
      w': "(let w1 = upd_client c (\<lambda>cl. cl\<lparr>cl_pending := s\<rparr>) w in
          if pn_sent s = pn_sent (cl_pending (w_clients w c)) then Done w1
          else and_then (send_call c p sl w1)
                 (\<lambda>(b, w2). Done (set_task c n (with_slice b (cl_tasks (w_clients w c) ! n)) w2))) = Done w'"
      by (auto simp: call_task_def outcome_simps)
    let ?w1 = "upd_client c (\<lambda>cl. cl\<lparr>cl_pending := s\<rparr>) w"
    have ok: "world_ok C K ?w1" by (rule upd_pending_ok [OF assms(3)])
    show ?thesis
    proof (cases "pn_sent s = pn_sent (cl_pending (w_clients w c))")
      case False
      with w' obtain b w2 where b: "send_call c p sl ?w1 = Done (b, w2)"
        "w' = set_task c n (with_slice b (cl_tasks (w_clients w c) ! n)) w2" by (auto simp: Let_def outcome_simps)
      have sl1: "case sl of None \<Rightarrow> True | Some x \<Rightarrow> x < w_nbufs ?w1" using sl by (simp add: upd_client_def split: option.splits)
      note send = send_call_ok [OF b(1) ok sl1]
      have "task_ok (w_nbufs w2) (stream_sig w2) c (with_slice b (cl_tasks (w_clients w c) ! n))"
        using task t send(2) by (cases "cl_tasks (w_clients w c) ! n") auto
      then show ?thesis unfolding b(2) by (rule set_task_ok [OF send(1)])
    qed (use w' ok in \<open>simp add: Let_def\<close>)
  qed
next
  case True
  then have "call_task pick c n w = Done w" by (cases "length (cl_tasks (w_clients w c)) \<le> n") (auto simp: call_task_def)
  with assms show ?thesis by simp
qed

lemma after_reply_ok: "after_reply sched c r resp err w = Done w' \<Longrightarrow> world_ok C K w \<Longrightarrow> c \<in> C \<Longrightarrow> world_ok C K w'"
  by (auto simp: after_reply_def split: if_splits intro: changeState_member)

lemma task_finish_ok:
  assumes "task_finish sched c err t w = Done w'" "world_ok C K w" "c \<in> C"
  shows "world_ok C K w'"
proof (cases t)
  case (AwaitReply r resp i b)
  with assms(1) obtain w1 where w1: "after_reply sched c r resp err w = Done w1"
    "w' = upd_client c (\<lambda>cl. cl\<lparr>cl_handlingReq := cl_handlingReq cl - {rq_Id r}\<rparr>) w1" by (auto simp: outcome_simps)
  show ?thesis unfolding w1(2)
    by (rule upd_client_view [OF after_reply_ok [OF w1(1) assms(2,3)]]) (simp add: client_view_def)
qed (use assms in simp_all)

lemma finish_task_ok:
  "finish_task sched c n w = Done w' \<Longrightarrow> world_ok C K w \<Longrightarrow> c \<in> C \<Longrightarrow> world_ok C K w'"
  by (auto simp: finish_task_def split: if_splits option.splits intro: task_finish_ok drop_task_ok)

subsection \<open>Callbacks and calls of the application\<close>

lemma SendPacketWithRetry_ok: "world_ok C K w \<Longrightarrow> world_ok C K (SendPacketWithRetry c p w)"
  by (simp add: SendPacketWithRetry_def spawn_ok)

lemma run_subs_ok: "run_subs calls w = Done w' \<Longrightarrow> world_ok C K w \<Longrightarrow> world_ok C K w'"
proof (induction calls arbitrary: w)
  case (Cons x calls)
  obtain cb pkt src where x: "x = (cb, pkt, src)" by (cases x)
  have fwd: "forward_pub d p v = Done v' \<Longrightarrow> world_ok C K v \<Longrightarrow> world_ok C K v'" for d p v v'
    by (auto simp: forward_pub_def outcome_simps split: if_splits intro: SendPacket_ok SendPacketWithRetry_ok)
  from Cons.prems(1) x obtain w1 where w1: "run_sub cb pkt src w = Done w1" "run_subs calls w1 = Done w'"
    by (auto simp: outcome_simps)
  have "world_ok C K w1"
  proof (cases cb)
    case (RemoteSub d a)
    with w1(1) Cons.prems(2) fwd show ?thesis by (cases a) (auto split: option.splits)
  qed (use w1(1) Cons.prems(2) in auto)
  with Cons.IH [OF w1(2)] show ?case by simp
qed simp

lemma center_turn_ok:
  assumes "center_turn c w (Done w')" "c \<in> C" "world_ok C K w"
  shows "world_ok C K w'"
proof -
  obtain calls cnt p where l: "loop_step (w_pub w, cl_PubSub (w_clients w c)) calls (cnt, p)"
    and w': "run_subs calls ((upd_client c (\<lambda>cl. cl\<lparr>cl_PubSub := p\<rparr>) w)\<lparr>w_pub := cnt\<rparr>) = Done w'"
    using assms(1) by (auto elim: center_turn.cases)
  have c: "client_ok C K (w_nbufs w) (w_ngroups w) (stream_sig w) c (w_clients w c)" by (rule world_ok_client [OF assms(3,2)])
  then have "center_ok ClientPubChLen (cl_PubSub (w_clients w c))" by (simp add: client_ok_def)
  note ps = loop_step_center [OF l this]
  have "world_ok C K ((upd_client c (\<lambda>cl. cl\<lparr>cl_PubSub := p\<rparr>) w)\<lparr>w_Enqueue := w_Enqueue w, w_pub := cnt\<rparr>)"
    by (rule upd_client_world [OF assms(3,2)]) (use c ps in \<open>auto simp: client_ok_def\<close>)
  then show ?thesis by (intro run_subs_ok [OF w']) (simp add: upd_client_def)
qed

lemma sub_locally_ok: "sub_locally c topic n w = Done w' \<Longrightarrow> world_ok C K w \<Longrightarrow> world_ok C K w'"
  by (auto simp: sub_locally_def outcome_simps intro!: center_update_ok dest: SubTopic_center)

lemma app_calls_ok:
  "Publish c topic data w = Done w' \<Longrightarrow> world_ok C K w \<Longrightarrow> world_ok C K w'"
  "world_ok C K w \<Longrightarrow> world_ok C K (PublishWithRetry uuid c topic data w)"
  "Subscribe uuid c topic n w = Done w' \<Longrightarrow> world_ok C K w \<Longrightarrow> world_ok C K w'"
  "SubscribeAttributes uuid c topic attrs n w = Done w' \<Longrightarrow> world_ok C K w \<Longrightarrow> world_ok C K w'"
  "Unsubscribe uuid c topic w = Done w' \<Longrightarrow> world_ok C K w \<Longrightarrow> world_ok C K w'"
  "world_ok C K w \<Longrightarrow> world_ok C K (Request uuid c method params w)"
  "world_ok C K w \<Longrightarrow> world_ok C K (RequestWithRetry uuid c method params w)"
proof -
  show "Publish c topic data w = Done w' \<Longrightarrow> world_ok C K w \<Longrightarrow> world_ok C K w'"
    by (auto simp: Publish_def outcome_simps intro: SendPacket_ok)
  show "world_ok C K w \<Longrightarrow> world_ok C K (PublishWithRetry uuid c topic data w)"
    by (simp add: PublishWithRetry_def SendPacketWithRetry_ok)
  show "Subscribe uuid c topic n w = Done w' \<Longrightarrow> world_ok C K w \<Longrightarrow> world_ok C K w'"
    by (auto simp: Subscribe_def outcome_simps intro!: SendPacketWithRetry_ok elim: sub_locally_ok)
  show "SubscribeAttributes uuid c topic attrs n w = Done w' \<Longrightarrow> world_ok C K w \<Longrightarrow> world_ok C K w'"
    by (auto simp: SubscribeAttributes_def outcome_simps intro!: SendPacketWithRetry_ok elim: sub_locally_ok)
  show "Unsubscribe uuid c topic w = Done w' \<Longrightarrow> world_ok C K w \<Longrightarrow> world_ok C K w'"
    by (auto simp: Unsubscribe_def outcome_simps intro!: SendPacketWithRetry_ok center_update_ok dest: UnsubTopic_center)
  show "world_ok C K w \<Longrightarrow> world_ok C K (Request uuid c method params w)"
    by (simp add: Request_def spawn_ok)
  show "world_ok C K w \<Longrightarrow> world_ok C K (RequestWithRetry uuid c method params w)"
    by (simp add: RequestWithRetry_def RequestWithRetryByPacket_def spawn_ok)
qed

subsection \<open>New clients and connections\<close>

lemma new_client_ok:
  assumes "world_ok C K w" "c \<notin> C" "client_ok (insert c C) K (w_nbufs w) (w_ngroups w) (stream_sig w) c cl"
    and "cl_rxQueue cl = []" "ps_pubCh (cl_PubSub cl) = []"
  shows "world_ok (insert c C) K (set_client c cl w)"
proof -
  have fin: "finite C" using assms(1) by (simp add: world_ok_def)
  have "client_ok C K nb ng sig d x \<Longrightarrow> client_ok (insert c C) K nb ng sig d x" for nb ng sig d x
    by (erule client_ok_mono) auto
  moreover have "conn_ok C nb x \<Longrightarrow> conn_ok (insert c C) nb x" for nb x by (erule conn_ok_mono) auto
  moreover have "group_ok C r g x \<Longrightarrow> group_ok (insert c C) r g x" for r g x by (auto simp: group_ok_def)
  moreover have "gauges_ok (insert c C) (set_client c cl w)"
    using assms(1,2,4,5) fin by (simp add: gauges_ok_def set_client_def world_ok_def sums_insert)
  ultimately show ?thesis using assms(1,2,3) fin by (auto simp: world_ok_def set_client_def tables_ok_def)
qed

lemma new_conn_ok:
  assumes "world_ok C K w" "conn_ok C (w_nbufs w) (f (w_conns w k))"
  shows "world_ok C (insert k K) (upd_conn k f w)"
proof -
  have "client_ok C K nb ng sig d x \<Longrightarrow> client_ok C (insert k K) nb ng sig d x" for nb ng sig d x
    by (erule client_ok_mono) auto
  with assms show ?thesis by (auto simp: world_ok_def upd_conn_def tables_ok_def gauges_ok_def)
qed

lemma newClient_ok:
  "k \<in> K \<Longrightarrow> client_ok C K nb ng sig c (newClient (Some k) opts uuid mgr now)"
  by (simp add: client_ok_def newClient_def center_ok_def) (simp add: newPubSub_def newEventTarget_def)

text \<open>The hub serves a connection: its client is new, the connection is in use.\<close>

lemma hub_serve_ok:
  assumes "hub_serve sched opts uuid c k w = Done w'" "c \<notin> C" "k \<in> K" "world_ok C K w"
  shows "world_ok (insert c C) K w'"
proof -
  let ?cl = "newClient (Some k) opts uuid (Suc c) (w_now w)"
  let ?cl1 = "?cl\<lparr>cl_OnLogin := AddEventListener (HubLogin c) (cl_OnLogin ?cl)\<rparr>"
  obtain w1 where w1: "changeState sched c CONNECTED (set_client c ?cl1 w) = Done w1"
    and w': "w' = upd_conn k (\<lambda>x. x\<lparr>ic_OnMessage := AddEventListener (ClientReceive c) (ic_OnMessage x),
        ic_OnDisconnect := AddEventListener (ServerDisconnect c) (ic_OnDisconnect x)\<rparr>) (upd_client c (\<lambda>x. x\<lparr>cl_handlerMgr := 0\<rparr>) w1)"
    using assms(1) by (auto simp: hub_serve_def Let_def outcome_simps)
  have "client_ok (insert c C) K (w_nbufs w) (w_ngroups w) (stream_sig w) c ?cl1"
    using newClient_ok [OF assms(3), of "insert c C" "w_nbufs w" "w_ngroups w" "stream_sig w" c opts uuid "Suc c" "w_now w"]
    by (auto simp: client_ok_def AddEventListener_def)
  then have "world_ok (insert c C) K (set_client c ?cl1 w)"
    by (rule new_client_ok [OF assms(4,2)]) (simp_all add: newClient_def newPubSub_def)
  then have "world_ok (insert c C) K w1" by (rule changeState_member [OF w1]) simp
  then show ?thesis unfolding w'
    by (intro upd_conn_ok upd_client_view) (auto simp: conn_ok_def client_view_def AddEventListener_def)
qed

lemma serve_conn_ok:
  assumes "serve_conn (Some (hub_serve sched opts uuid c)) k w = Done w'" "c \<notin> C" "k \<in> K" "world_ok C K w"
  shows "world_ok (insert c C) K w'"
proof -
  let ?u = "upd_conn k (\<lambda>x. x\<lparr>ic_OnMessage := AddEventListener (ServerReceive k) (ic_OnMessage x),
        ic_OnDisconnect := AddEventListener (ServerForget k) (ic_OnDisconnect x)\<rparr>) w"
  obtain w1 where w1: "hub_serve sched opts uuid c k (?u\<lparr>w_server_conns := insert k (w_server_conns ?u)\<rparr>) = Done w1"
    and w': "w' = upd_conn k (\<lambda>x. x\<lparr>ic_started := True\<rparr>) w1"
    using assms(1) by (auto simp: serve_conn_def handleClientConnect_def Let_def outcome_simps)
  have "world_ok C K ?u" by (rule upd_conn_ok [OF assms(4)]) (auto simp: conn_ok_def AddEventListener_def)
  then have "world_ok (insert c C) K w1" by (intro hub_serve_ok [OF w1 assms(2,3)]) simp
  then show ?thesis unfolding w' by (rule upd_conn_view) simp
qed

end
