(* ===== verification/Hub_Proofs.thy ===== *)
theory Hub_Proofs
  imports Hub_Server
begin

text \<open>
  What the hub makes of an accepted connection, of one that fails its authentication, and of
  a datagram.
\<close>

subsection \<open>The client of an accepted connection\<close>

text \<open>The client is registered at once when there is neither an exchange nor a login to wait for.\<close>

definition logs_in_at_once :: "client_options \<Rightarrow> bool" where
  "logs_in_at_once opts \<longleftrightarrow> co_Crypto opts = None \<and> \<not> co_NeedLogin opts"

lemma settle_connected: "settle opts CONNECTED = LOGINED \<longleftrightarrow> logs_in_at_once opts"
  by (simp add: logs_in_at_once_def)

definition greeted :: "client_options \<Rightarrow> string \<Rightarrow> nat \<Rightarrow> nat \<Rightarrow> 'k world \<Rightarrow> 'k world" where
  "greeted opts uuid c k w =
     (let cl = newClient (Some k) opts uuid (Suc c) (w_now w)
      in set_client c (cl\<lparr>cl_OnLogin := AddEventListener (HubLogin c) (cl_OnLogin cl), cl_state := settle opts CONNECTED\<rparr>) w)"

lemma greeted_parts [simp]:
  "cl_ClientId (w_clients (greeted opts uuid c k w) c) = uuid"
  "cl_GroupId (w_clients (greeted opts uuid c k w) c) = None"
  "cl_conn (w_clients (greeted opts uuid c k w) c) = Some k"
  "\<not> cl_beClient (w_clients (greeted opts uuid c k w) c)"
  "cl_state (w_clients (greeted opts uuid c k w) c) = settle opts CONNECTED"
  "d \<noteq> c \<Longrightarrow> w_clients (greeted opts uuid c k w) d = w_clients w d"
  "w_conns (greeted opts uuid c k w) = w_conns w" "w_hub_clients (greeted opts uuid c k w) = w_hub_clients w"
  "w_server_conns (greeted opts uuid c k w) = w_server_conns w"
  "FindClient j (greeted opts uuid c k w) = FindClient j w"
  by (simp_all add: greeted_def newClient_def Let_def set_client_def FindClient_def)

definition registered :: "nat \<Rightarrow> 'k world \<Rightarrow> 'k world" where
  "registered c w = upd_client c (\<lambda>x. x\<lparr>cl_OnDispose := AddEventListener (HubDispose c) (cl_OnDispose x)\<rparr>)
     (join_group c (AddClient c w))"

lemma registered_conns [simp]:
  "w_conns (registered c w) = w_conns w" "w_server_conns (registered c w) = w_server_conns w"
  by (simp_all add: registered_def join_group_def AddClient_def hub_put_def Group_AddClient_def FindOrCreateGroup_def
    sync_map_defs upd_client_def upd_group_def Let_def split: option.splits prod.splits)

lemma registered_client [simp]:
  "cl_conn (w_clients (registered c w) d) = cl_conn (w_clients w d)"
  "cl_beClient (w_clients (registered c w) d) = cl_beClient (w_clients w d)"
  "cl_state (w_clients (registered c w) d) = cl_state (w_clients w d)"
  "cl_ClientId (w_clients (registered c w) d) = cl_ClientId (w_clients w d)"
  "FindClient j (registered c w) = (if j = cl_ClientId (w_clients w c) then Some c else FindClient j w)"
  by (simp_all add: registered_def join_group_home AddClient_def hub_put_def Group_AddClient_def FindClient_def sync_map_defs)

lemma login_of_unknown:
  "FindClient (cl_ClientId (w_clients w c)) w = None \<Longrightarrow> onClientLogin sched c w = Done (registered c w)"
  by (simp add: onClientLogin_def FindClient_def sync_map_defs registered_def)

definition wired_in :: "nat \<Rightarrow> nat \<Rightarrow> 'k world \<Rightarrow> 'k world" where
  "wired_in c k w = upd_conn k (\<lambda>x. x\<lparr>ic_OnMessage := AddEventListener (ClientReceive c) (ic_OnMessage x),
     ic_OnDisconnect := AddEventListener (ServerDisconnect c) (ic_OnDisconnect x)\<rparr>) (upd_client c (\<lambda>x. x\<lparr>cl_handlerMgr := 0\<rparr>) w)"

lemma hub_serve_fresh:
  assumes "FindClient uuid w = None"
  shows "hub_serve sched opts uuid c k w =
    Done (wired_in c k (if logs_in_at_once opts then registered c (greeted opts uuid c k w) else greeted opts uuid c k w))"
proof -
  let ?cl = "(newClient (Some k) opts uuid (Suc c) (w_now w))\<lparr>cl_OnLogin := AddEventListener (HubLogin c) newEventTarget\<rparr>"
  have sw: "swap_state c CONNECTED (set_client c ?cl w) = (logs_in_at_once opts, greeted opts uuid c k w)"
    by (simp add: swap_state_def logs_in_at_once_def greeted_def newClient_def Let_def set_client_def upd_client_def)
  have "cl_OnLogin (w_clients (greeted opts uuid c k w) c) = AddEventListener (HubLogin c) newEventTarget"
    by (simp add: greeted_def newClient_def Let_def set_client_def)
  moreover have "FindClient (cl_ClientId (w_clients (greeted opts uuid c k w) c)) (greeted opts uuid c k w) = None"
    using assms by (simp add: FindClient_def)
  ultimately have "changeState sched c CONNECTED (set_client c ?cl w) =
    Done (if logs_in_at_once opts then registered c (greeted opts uuid c k w) else greeted opts uuid c k w)"
    by (simp add: changeState_def sw RiseEvent_AddEventListener login_of_unknown)
  then show ?thesis
    by (simp add: hub_serve_def Let_def newClient_def wired_in_def)
qed

text \<open>What a served connection and its client look like, and what the hub knows of them.\<close>

definition in_service :: "client_options \<Rightarrow> string \<Rightarrow> nat \<Rightarrow> nat \<Rightarrow> 'k world \<Rightarrow> bool" where
  "in_service opts uuid c k w \<longleftrightarrow> server_client c k w \<and>
     et_listeners (ic_OnMessage (w_conns w k)) = [ServerReceive k, ClientReceive c] \<and>
     ic_started (w_conns w k) \<and> k \<in> w_server_conns w \<and>
     cl_ClientId (w_clients w c) = uuid \<and> cl_handlerMgr (w_clients w c) = 0 \<and>
     cl_state (w_clients w c) = settle opts CONNECTED \<and>
     FindClient uuid w = (if logs_in_at_once opts then Some c else None)"

text \<open>The world with the server's listeners, and the one in which the connection is served.\<close>

definition listened :: "nat \<Rightarrow> 'k world \<Rightarrow> 'k world" where
  "listened k w =
     (upd_conn k (\<lambda>x. x\<lparr>ic_OnMessage := AddEventListener (ServerReceive k) (ic_OnMessage x),
        ic_OnDisconnect := AddEventListener (ServerForget k) (ic_OnDisconnect x)\<rparr>) w)
       \<lparr>w_server_conns := insert k (w_server_conns w)\<rparr>"

lemma listened_parts [simp]:
  "w_clients (listened k w) = w_clients w" "w_server_conns (listened k w) = insert k (w_server_conns w)"
  "FindClient u (listened k w) = FindClient u w" "j \<noteq> k \<Longrightarrow> w_conns (listened k w) j = w_conns w j"
  by (simp_all add: listened_def upd_conn_def FindClient_def)

definition greeted_in :: "client_options \<Rightarrow> string \<Rightarrow> nat \<Rightarrow> nat \<Rightarrow> 'k world \<Rightarrow> 'k world" where
  "greeted_in opts uuid c k w =
     (if logs_in_at_once opts then registered c (greeted opts uuid c k w) else greeted opts uuid c k w)"

definition served :: "client_options \<Rightarrow> string \<Rightarrow> nat \<Rightarrow> nat \<Rightarrow> 'k world \<Rightarrow> 'k world" where
  "served opts uuid c k w =
     upd_conn k (\<lambda>x. x\<lparr>ic_started := True\<rparr>) (wired_in c k (greeted_in opts uuid c k (listened k w)))"

lemma serve_conn_fresh:
  assumes "FindClient uuid w = None"
  shows "serve_conn (Some (hub_serve sched opts uuid c)) k w = Done (served opts uuid c k w)"
proof -
  have f: "FindClient uuid (listened k w) = None" using assms by simp
  have "handleClientConnect (Some (hub_serve sched opts uuid c)) k (upd_conn k (\<lambda>x. x\<lparr>ic_OnMessage := AddEventListener (ServerReceive k) (ic_OnMessage x),
        ic_OnDisconnect := AddEventListener (ServerForget k) (ic_OnDisconnect x)\<rparr>) w) = hub_serve sched opts uuid c k (listened k w)"
    by (simp add: handleClientConnect_def listened_def upd_conn_def)
  then show ?thesis
    by (simp only: serve_conn_def hub_serve_fresh [OF f] and_then.simps served_def greeted_in_def)
qed

lemma served_world [simp]:
  "FindClient u (served opts uuid c k w) = FindClient u (greeted_in opts uuid c k (listened k w))"
  "w_server_conns (served opts uuid c k w) = insert k (w_server_conns w)"
  "w_clients (served opts uuid c k w) d =
     (if d = c then (w_clients (greeted_in opts uuid c k (listened k w)) c)\<lparr>cl_handlerMgr := 0\<rparr>
      else w_clients (greeted_in opts uuid c k (listened k w)) d)"
  "j \<noteq> k \<Longrightarrow> w_conns (served opts uuid c k w) j = w_conns w j"
  "w_conns (served opts uuid c k w) k = (w_conns w k)\<lparr>
     ic_OnMessage := AddEventListener (ClientReceive c) (AddEventListener (ServerReceive k) (ic_OnMessage (w_conns w k))),
     ic_OnDisconnect := AddEventListener (ServerDisconnect c) (AddEventListener (ServerForget k) (ic_OnDisconnect (w_conns w k))),
     ic_started := True\<rparr>"
  by (simp_all add: listened_def served_def wired_in_def greeted_in_def FindClient_def upd_conn_def upd_client_def)

lemma served_in_service:
  assumes "FindClient uuid w = None" and "ic_kind (w_conns w k) \<noteq> FakeUdpKind"
    and "ic_OnMessage (w_conns w k) = newEventTarget" "ic_OnDisconnect (w_conns w k) = newEventTarget"
  shows "in_service opts uuid c k (served opts uuid c k w)"
  unfolding in_service_def server_client_def using assms
  by (simp add: AddEventListener_def newEventTarget_def) (simp add: greeted_in_def)

lemma hub_serve_in_service:
  assumes "FindClient uuid w = None" and "ic_kind (w_conns w k) \<noteq> FakeUdpKind"
    and "ic_OnMessage (w_conns w k) = newEventTarget" "ic_OnDisconnect (w_conns w k) = newEventTarget"
  shows "\<exists>w'. serve_conn (Some (hub_serve sched opts uuid c)) k w = Done w' \<and> in_service opts uuid c k w'"
  using serve_conn_fresh [OF assms(1)] served_in_service [OF assms] by blast

subsection \<open>Authentication\<close>

text \<open>Whether the login option of a TCP server admits a connection: none does, and a first message its check accepts.\<close>

definition tcp_admitted :: "login_options option \<Rightarrow> auth_input \<Rightarrow> bool" where
  "tcp_admitted l i \<longleftrightarrow> (case l of None \<Rightarrow> True
     | Some config \<Rightarrow> (case i of AuthMessage m \<Rightarrow> lo_CheckFunc config m = None | _ \<Rightarrow> False))"

definition auth_data :: "login_options option \<Rightarrow> auth_input \<Rightarrow> nat \<Rightarrow> 'k world \<Rightarrow> 'k world" where
  "auth_data l i k w = (case (l, i) of (Some config, AuthMessage m) \<Rightarrow> set_login_data k (Some m) w | _ \<Rightarrow> w)"

lemma tcp_accept_cases:
  "tcp_accept sched opts connect i k w =
     (if tcp_admitted (so_Login opts) i then serve_conn connect k (auth_data (so_Login opts) i k w)
      else conn_Close sched k (auth_data (so_Login opts) i k w))"
  by (auto simp: tcp_accept_def checkConnAuth_def tcp_admitted_def auth_data_def Let_def
    split: option.splits auth_input.splits)

text \<open>An accepted connection that nobody listens to yet.\<close>

definition new_conn :: "nat \<Rightarrow> 'k world \<Rightarrow> bool" where
  "new_conn k w \<longleftrightarrow> ic_kind (w_conns w k) \<noteq> FakeUdpKind \<and> \<not> ic_closed (w_conns w k) \<and> \<not> ic_locked (w_conns w k) \<and>
     \<not> ic_started (w_conns w k) \<and> k \<notin> w_server_conns w \<and>
     ic_OnMessage (w_conns w k) = newEventTarget \<and> ic_OnDisconnect (w_conns w k) = newEventTarget"

lemma set_login_data_parts [simp]:
  "w_clients (set_login_data k d w) = w_clients w" "FindClient j (set_login_data k d w) = FindClient j w"
  "w_server_conns (set_login_data k d w) = w_server_conns w" "w_hub_clients (set_login_data k d w) = w_hub_clients w"
  "w_conns (set_login_data k d w) k = (w_conns w k)\<lparr>ic_LoginData := d\<rparr>"
  "new_conn k (set_login_data k d w) = new_conn k w"
  by (simp_all add: set_login_data_def upd_conn_def FindClient_def new_conn_def)

lemma auth_data_parts [simp]:
  "w_clients (auth_data l i k w) = w_clients w" "FindClient j (auth_data l i k w) = FindClient j w"
  "w_server_conns (auth_data l i k w) = w_server_conns w" "w_hub_clients (auth_data l i k w) = w_hub_clients w"
  "new_conn k (auth_data l i k w) = new_conn k w"
  by (simp_all add: auth_data_def split: option.splits auth_input.splits)

text \<open>A refused connection is closed, and the server and the hub know nothing of it.\<close>

definition turned_away :: "nat \<Rightarrow> 'k world \<Rightarrow> 'k world \<Rightarrow> bool" where
  "turned_away k w w' \<longleftrightarrow> ic_closed (w_conns w' k) \<and> \<not> ic_started (w_conns w' k) \<and> w_server_conns w' = w_server_conns w \<and>
     w_clients w' = w_clients w \<and> w_hub_clients w' = w_hub_clients w"

lemma new_conn_closes:
  assumes "new_conn k w"
  shows "\<exists>w'. conn_Close sched k w = Done w' \<and> turned_away k w w'"
  using assms by (simp add: conn_Close_def conn_close_def new_conn_def Let_def conn_shut_def conn_unlock_def turned_away_def upd_conn_def)

text \<open>
  A TCP connection of the hub whose login option does not admit it (no message in time, a
  read error, a message the check refuses) is closed, never read, and unknown to the server
  and the hub; one that is admitted gets the server's and the hub's listeners, is read, and
  its client waits for the exchange of secrets or for its login as the options ask; when they
  ask for neither the hub has it registered under its uuid at once.
\<close>

theorem hub_tcp_serves:
  assumes "new_conn k w" "FindClient uuid w = None"
  shows "\<exists>w'. hub_tcp sched ho opts uuid c i k w = Done w' \<and>
    (if tcp_admitted (so_Login (NewServer_opts (hs_ServerOpts (hub_opts opts)))) i
     then in_service (served_options ho (hub_opts opts)) uuid c k w'
     else turned_away k w w')"
proof -
  let ?l = "so_Login (NewServer_opts (hs_ServerOpts (hub_opts opts)))"
  have new: "new_conn k (auth_data ?l i k w)" and find: "FindClient uuid (auth_data ?l i k w) = None"
    using assms by simp_all
  have away: "turned_away k (auth_data ?l i k w) w' \<Longrightarrow> turned_away k w w'" for w'
    by (simp add: turned_away_def)
  show ?thesis
    unfolding hub_tcp_def Let_def tcp_accept_cases
    using hub_serve_in_service [OF find] new_conn_closes [OF new, of sched] new away by (auto simp: new_conn_def)
qed


subsection \<open>The accept loop\<close>

text \<open>Serving or refusing one connection leaves the other clients and connections as they are.\<close>

definition apart :: "string \<Rightarrow> nat \<Rightarrow> nat \<Rightarrow> 'k world \<Rightarrow> 'k world \<Rightarrow> bool" where
  "apart uuid c k w w' \<longleftrightarrow> (\<forall>d. d \<noteq> c \<longrightarrow> w_clients w' d = w_clients w d) \<and>
     (\<forall>j. j \<noteq> k \<longrightarrow> w_conns w' j = w_conns w j \<and> (j \<in> w_server_conns w' \<longleftrightarrow> j \<in> w_server_conns w)) \<and>
     (\<forall>u. u \<noteq> uuid \<longrightarrow> FindClient u w' = FindClient u w)"

lemma registered_others [simp]: "d \<noteq> c \<Longrightarrow> w_clients (registered c w) d = w_clients w d"
  by (simp add: registered_def join_group_home AddClient_def hub_put_def Group_AddClient_def)

lemma served_apart:
  assumes "FindClient uuid w = None" "serve_conn (Some (hub_serve sched opts uuid c)) k w = Done w'"
  shows "apart uuid c k w w'"
  using assms(2) unfolding serve_conn_fresh [OF assms(1)] apart_def
  by (auto simp: greeted_in_def)

lemma apart_refl [simp]: "apart uuid c k w w"
  by (simp add: apart_def)

lemma set_login_data_apart: "apart uuid c k (set_login_data k d w) w' \<Longrightarrow> apart uuid c k w w'"
  by (simp add: apart_def) (simp add: set_login_data_def)

lemma auth_data_apart: "apart uuid c k (auth_data l i k w) w' \<Longrightarrow> apart uuid c k w w'"
  by (auto simp: auth_data_def dest: set_login_data_apart split: option.splits auth_input.splits)

lemma closing_apart: "new_conn k w \<Longrightarrow> conn_Close sched k w = Done w' \<Longrightarrow> apart uuid c k w w'"
  by (auto simp: conn_Close_def conn_close_def new_conn_def Let_def conn_shut_def conn_unlock_def apart_def upd_conn_def
    FindClient_def)

text \<open>One turn of the loop: the connection is served or refused, and nothing else changes.\<close>

lemma tcp_accept_turn:
  assumes "new_conn k w" "FindClient uuid w = None"
  shows "\<exists>w'. tcp_accept sched so (Some (hub_serve sched opts uuid c)) i k w = Done w' \<and> apart uuid c k w w' \<and>
    (if tcp_admitted (so_Login so) i then in_service opts uuid c k w' else turned_away k w w')"
proof -
  let ?v = "auth_data (so_Login so) i k w"
  have new: "new_conn k ?v" and find: "FindClient uuid ?v = None" using assms by simp_all
  have away: "turned_away k ?v w' \<Longrightarrow> turned_away k w w'" for w' by (simp add: turned_away_def)
  show ?thesis
  proof (cases "tcp_admitted (so_Login so) i")
    case True
    obtain w' where w': "serve_conn (Some (hub_serve sched opts uuid c)) k ?v = Done w'" "in_service opts uuid c k w'"
      using hub_serve_in_service [OF find, of k sched opts c] new by (auto simp: new_conn_def)
    with True auth_data_apart [OF served_apart [OF find w'(1)]] show ?thesis by (auto simp: tcp_accept_cases)
  next
    case False
    obtain w' where w': "conn_Close sched k ?v = Done w'" "turned_away k ?v w'"
      using new_conn_closes [OF new, of sched] by blast
    with False auth_data_apart [OF closing_apart [OF new w'(1)]] away [OF w'(2)] show ?thesis
      by (auto simp: tcp_accept_cases)
  qed
qed

lemma serve_conn_handler: "serve_conn (Some f) k w = serve_conn (Some (\<lambda>j. f k)) k w"
  by (simp add: serve_conn_def handleClientConnect_def)

lemma tcp_accept_handler:
  "tcp_accept sched so (Some (\<lambda>k. hub_serve sched opts (uuid k) (cl k) k)) i k w =
   tcp_accept sched so (Some (hub_serve sched opts (uuid k) (cl k))) i k w"
proof -
  have "serve_conn (Some (\<lambda>k. hub_serve sched opts (uuid k) (cl k) k)) k v = serve_conn (Some (hub_serve sched opts (uuid k) (cl k))) k v" for v
    using serve_conn_handler [of "\<lambda>k. hub_serve sched opts (uuid k) (cl k) k" k v]
      serve_conn_handler [of "hub_serve sched opts (uuid k) (cl k)" k v] by simp
  then show ?thesis by (simp only: tcp_accept_cases)
qed

text \<open>The connections a listener accepts before it ends.\<close>

fun accepted :: "accept_result list \<Rightarrow> (nat \<times> auth_input) list" where
  "accepted [] = []"
| "accepted (TemporaryError # rs) = accepted rs"
| "accepted (AcceptError e # rs) = []"
| "accepted (Accepted uuid addr i k # rs) = (k, i) # accepted rs"

definition outcome_of :: "server_options \<Rightarrow> client_options \<Rightarrow> (nat \<Rightarrow> string) \<Rightarrow> (nat \<Rightarrow> nat) \<Rightarrow> nat \<Rightarrow> auth_input \<Rightarrow> 'k world \<Rightarrow> bool" where
  "outcome_of so opts uuid cl k i w \<longleftrightarrow>
     (if tcp_admitted (so_Login so) i then in_service opts (uuid k) (cl k) k w
      else ic_closed (w_conns w k) \<and> \<not> ic_started (w_conns w k) \<and> k \<notin> w_server_conns w)"

lemma outcome_of_apart:
  assumes "outcome_of so opts uuid cl j i w" "apart (uuid k) (cl k) k w w'" "j \<noteq> k" "uuid j \<noteq> uuid k" "cl j \<noteq> cl k"
  shows "outcome_of so opts uuid cl j i w'"
  using assms by (auto simp: outcome_of_def apart_def in_service_def server_client_def)

lemma new_conn_apart: "new_conn j w \<Longrightarrow> apart u c k w w' \<Longrightarrow> j \<noteq> k \<Longrightarrow> new_conn j w'"
  by (auto simp: new_conn_def apart_def)

lemma outcome_of_user [simp]: "outcome_of so opts uuid cl k i (w\<lparr>w_user := u\<rparr>) = outcome_of so opts uuid cl k i w"
  by (simp add: outcome_of_def in_service_def server_client_def FindClient_def)

lemma accept_loop_outcomes:
  assumes "\<not> so_Tls so" "distinct (map fst (accepted rs))" "inj_on uuid (K \<union> fst ` set (accepted rs))" "inj_on cl (K \<union> fst ` set (accepted rs))"
    and "K \<inter> fst ` set (accepted rs) = {}"
    and "\<And>k. k \<in> fst ` set (accepted rs) \<Longrightarrow> new_conn k w \<and> FindClient (uuid k) w = None"
    and "\<And>k. k \<in> K \<Longrightarrow> outcome_of so opts uuid cl k (I k) w"
  shows "\<exists>ended w'. accept_loop sched so (Some (\<lambda>k. hub_serve sched opts (uuid k) (cl k) k)) rs w = Done (ended, w') \<and>
    (\<forall>k i. (k, i) \<in> set (accepted rs) \<longrightarrow> outcome_of so opts uuid cl k i w') \<and>
    (\<forall>k \<in> K. outcome_of so opts uuid cl k (I k) w')"
  using assms
proof (induction rs arbitrary: w K I rule: accepted.induct)
  case (3 e rs)
  then show ?case by (auto intro: exI [of _ True])
next
  case (4 u addr i k rs)
  let ?K = "insert k K" and ?I = "I(k := i)"
  have k: "new_conn k w" "FindClient (uuid k) w = None" using "4.prems"(6) by simp_all
  obtain w1 where w1: "tcp_accept sched so (Some (hub_serve sched opts (uuid k) (cl k))) i k w = Done w1"
    "apart (uuid k) (cl k) k w w1"
    "if tcp_admitted (so_Login so) i then in_service opts (uuid k) (cl k) k w1 else turned_away k w w1"
    using tcp_accept_turn [OF k] by blast
  have turn: "conn_goroutine sched so (Some (\<lambda>k. hub_serve sched opts (uuid k) (cl k) k)) u addr i k w = Done w1"
    using "4.prems"(1) w1(1) tcp_accept_handler [of sched so opts uuid cl i k w]
    by (simp add: conn_goroutine_def listener_conn_def)
  have ok: "outcome_of so opts uuid cl k i w1"
    using w1(3) k(1) by (auto simp: outcome_of_def turned_away_def new_conn_def)
  have ne: "j \<noteq> k" "uuid j \<noteq> uuid k" "cl j \<noteq> cl k" if "j \<in> K \<union> fst ` set (accepted rs)" for j
  proof -
    let ?J = "K \<union> fst ` set (accepted (Accepted u addr i k # rs))"
    show *: "j \<noteq> k" using that "4.prems"(2,5) by auto
    have "j \<in> ?J" "k \<in> ?J" using that by auto
    with * show "uuid j \<noteq> uuid k" "cl j \<noteq> cl k"
      using inj_on_eq_iff [OF "4.prems"(3)] inj_on_eq_iff [OF "4.prems"(4)] by blast+
  qed
  have new: "new_conn j w1 \<and> FindClient (uuid j) w1 = None" if "j \<in> fst ` set (accepted rs)" for j
  proof
    have w: "new_conn j w" "FindClient (uuid j) w = None" using that "4.prems"(6) [of j] by simp_all
    show "new_conn j w1" using new_conn_apart [OF w(1) w1(2)] ne [of j] that by blast
    have "uuid j \<noteq> uuid k" using ne(2) [of j] that by blast
    with w1(2) w(2) show "FindClient (uuid j) w1 = None" by (simp add: apart_def)
  qed
  have old: "outcome_of so opts uuid cl j (?I j) w1" if "j \<in> ?K" for j
  proof (cases "j = k")
    case True
    with ok show ?thesis by simp
  next
    case False
    with that have j: "j \<in> K" by simp
    with outcome_of_apart [OF "4.prems"(7) [OF j] w1(2)] ne [of j] False show ?thesis by simp
  qed
  have ins: "?K \<union> fst ` set (accepted rs) = K \<union> fst ` set (accepted (Accepted u addr i k # rs))" by auto
  obtain ended w' where w': "accept_loop sched so (Some (\<lambda>k. hub_serve sched opts (uuid k) (cl k) k)) rs w1 = Done (ended, w')"
    "\<forall>k i. (k, i) \<in> set (accepted rs) \<longrightarrow> outcome_of so opts uuid cl k i w'"
    "\<forall>j \<in> ?K. outcome_of so opts uuid cl j (?I j) w'"
    using "4.IH" [of ?K w1 ?I] "4.prems"(1-5) new old unfolding ins by auto
  have "\<forall>j \<in> K. outcome_of so opts uuid cl j (I j) w'"
    using w'(3) ne by (metis UnCI fun_upd_apply insertCI)
  moreover have "outcome_of so opts uuid cl k i w'" using w'(3) by simp
  ultimately show ?case using turn w'(1,2) by auto
qed auto


text \<open>With TLS the first accepted connection ends the process: NewTcpConn panics.\<close>

theorem tls_server_panics:
  assumes "so_Tls so"
  shows "is_panic (accept_loop sched so connect (Accepted uuid addr i k # rs) w)"
  using assms by (simp add: conn_goroutine_def listener_conn_def)

subsection \<open>Datagrams\<close>

text \<open>
  Datagrams from one sender. Each comes with the net.Addr the socket made for it, and with the
  addresses and the uuid a new client would get.
\<close>

record arrival =
  ar_uuid :: string
  ar_client :: nat
  ar_conn :: nat
  ar_addr :: nat
  ar_bytes :: bytes

fun hub_datagrams :: "'k sched \<Rightarrow> client_options \<Rightarrow> string \<Rightarrow> arrival list \<Rightarrow> (nat \<rightharpoonup> nat) \<Rightarrow> 'k world
    \<Rightarrow> ((nat \<rightharpoonup> nat) \<times> 'k world) outcome" where
  "hub_datagrams sched opts sender [] m w = Done (m, w)"
| "hub_datagrams sched opts sender (d # ds) m w =
     (case new_buf (ar_bytes d) w of (b, w1) \<Rightarrow>
        and_then (hub_datagram sched opts (ar_uuid d) (ar_client d) (ar_conn d) (ar_addr d) sender b m w1)
          (\<lambda>(m', w'). hub_datagrams sched opts sender ds m' w'))"

text \<open>Receiving leaves the listeners and the registry alone.\<close>

definition same_wiring :: "'k world \<Rightarrow> 'k world \<Rightarrow> bool" where
  "same_wiring w w' \<longleftrightarrow> w_hub_clients w' = w_hub_clients w \<and> w_conns w' = w_conns w \<and>
     (\<forall>c. cl_OnLogin (w_clients w' c) = cl_OnLogin (w_clients w c) \<and> cl_conn (w_clients w' c) = cl_conn (w_clients w c))"

lemma decrypt_received_wiring: "decrypt_received c b w = Done w' \<Longrightarrow> same_wiring w w'"
  by (auto simp: decrypt_received_def decode_buf_def same_wiring_def outcome_simps split: option.splits client_state.splits)

lemma enqueue_packet_wiring: "enqueue_packet c pkt w = Done w' \<Longrightarrow> same_wiring w w'"
  by (auto simp: enqueue_packet_def same_wiring_def outcome_simps Let_def)

lemma same_wiring_trans: "same_wiring u v \<Longrightarrow> same_wiring v w \<Longrightarrow> same_wiring u w"
  by (simp add: same_wiring_def)

lemma receive_wiring:
  assumes "receiveMessage c b w = Done w'" shows "same_wiring w w'"
proof -
  obtain w1 where w1: "decrypt_received c b w = Done w1" "w' = w1 \<or> (\<exists>pkt. enqueue_packet c pkt w1 = Done w')"
  proof -
    assume a: "\<And>w1. decrypt_received c b w = Done w1 \<Longrightarrow> w' = w1 \<or> (\<exists>pkt. enqueue_packet c pkt w1 = Done w') \<Longrightarrow> thesis"
    obtain w1 where w1: "decrypt_received c b w = Done w1"
      "(case Unmarshal (w_bufs w1 b) of Inl e \<Rightarrow> Done w1
        | Inr p \<Rightarrow> if admits (cl_state (w_clients w1 c)) p
            then enqueue_packet c \<lparr>pk_RawData = b, pk_PacketType = TypeCode p, pk_PacketContent = p, pk_Client = c\<rparr> w1
            else Done w1) = Done w'"
      using assms by (auto simp: receiveMessage_def outcome_simps)
    show thesis by (rule a [OF w1(1)]) (cases "Unmarshal (w_bufs w1 b)"; use w1(2) in \<open>auto split: if_splits\<close>)
  qed
  have "same_wiring w1 w1" by (simp add: same_wiring_def)
  with w1(2) enqueue_packet_wiring have "same_wiring w1 w'" by blast
  with decrypt_received_wiring [OF w1(1)] show ?thesis by (rule same_wiring_trans)
qed

lemma new_datagram:
  assumes "m ptr = None" "hub_datagram sched opts uuid c k ptr sender b m w = Done (m', w')"
  shows "m' = m(ptr \<mapsto> c)" "w_hub_clients w' = w_hub_clients w"
    and "cl_OnLogin (w_clients w' c) = newEventTarget" "d \<noteq> c \<Longrightarrow> cl_OnLogin (w_clients w' d) = cl_OnLogin (w_clients w d)"
proof -
  let ?st = "settle opts CONNECTED"
  let ?w1 = "set_client c ((newClient (Some k) opts uuid (Suc c) (w_now w))\<lparr>cl_state := ?st\<rparr>) (new_fake_conn k sender w)"
  have l: "changeState sched c CONNECTED (set_client c (newClient (Some k) opts uuid (Suc c) (w_now w)) (new_fake_conn k sender w)) = Done ?w1"
    by (simp add: changeState_def swap_state_def newClient_def set_client_def upd_client_def Let_def)
  have r: "receiveMessage c b (upd_client c (\<lambda>x. x\<lparr>cl_handlerMgr := 0\<rparr>) ?w1) = Done w'" "m' = m(ptr \<mapsto> c)"
    using assms by (auto simp: hub_datagram_def l outcome_simps sync_map_defs Let_def split: prod.splits)
  show "m' = m(ptr \<mapsto> c)" by (rule r(2))
  from receive_wiring [OF r(1)] show "w_hub_clients w' = w_hub_clients w"
    and "cl_OnLogin (w_clients w' c) = newEventTarget"
    and "d \<noteq> c \<Longrightarrow> cl_OnLogin (w_clients w' d) = cl_OnLogin (w_clients w d)"
    by (simp_all add: same_wiring_def new_fake_conn_def newClient_def)
qed

lemma fresh_datagrams:
  assumes "hub_datagrams sched opts sender ds m w = Done (m', w')"
    and "distinct (map ar_addr ds)" "\<And>d. d \<in> set ds \<Longrightarrow> m (ar_addr d) = None"
  shows "m' = m ++ map_of (map (\<lambda>d. (ar_addr d, ar_client d)) ds) \<and> w_hub_clients w' = w_hub_clients w \<and>
    (\<forall>c. c \<in> ar_client ` set ds \<or> cl_OnLogin (w_clients w c) = newEventTarget \<longrightarrow> cl_OnLogin (w_clients w' c) = newEventTarget)"
  using assms
proof (induction ds arbitrary: m w)
  case (Cons d ds)
  obtain b w1 where b: "new_buf (ar_bytes d) w = (b, w1)" by fastforce
  then have w1: "w_clients w1 = w_clients w" "w_hub_clients w1 = w_hub_clients w" by (auto simp: new_buf_def)
  obtain m2 w2 where d: "hub_datagram sched opts (ar_uuid d) (ar_client d) (ar_conn d) (ar_addr d) sender b m w1 = Done (m2, w2)"
    and ds: "hub_datagrams sched opts sender ds m2 w2 = Done (m', w')"
    using Cons.prems(1) b by (auto simp: outcome_simps)
  note n = new_datagram [OF _ d]
  have m: "m (ar_addr d) = None" using Cons.prems(3) by simp
  have "m' = m2 ++ map_of (map (\<lambda>d. (ar_addr d, ar_client d)) ds) \<and> w_hub_clients w' = w_hub_clients w2 \<and>
    (\<forall>c. c \<in> ar_client ` set ds \<or> cl_OnLogin (w_clients w2 c) = newEventTarget \<longrightarrow> cl_OnLogin (w_clients w' c) = newEventTarget)"
  proof (rule Cons.IH [OF ds])
    show "distinct (map ar_addr ds)" using Cons.prems(2) by simp
    fix e assume e: "e \<in> set ds"
    then have "ar_addr e \<noteq> ar_addr d" using Cons.prems(2) by (auto simp: image_iff)
    with e show "m2 (ar_addr e) = None" using Cons.prems(3) n(1) [OF m] by simp
  qed
  then have IH: "m' = m2 ++ map_of (map (\<lambda>d. (ar_addr d, ar_client d)) ds)" "w_hub_clients w' = w_hub_clients w2"
    "\<And>c. c \<in> ar_client ` set ds \<or> cl_OnLogin (w_clients w2 c) = newEventTarget \<Longrightarrow> cl_OnLogin (w_clients w' c) = newEventTarget"
    by blast+
  have "ar_addr d \<notin> dom (map_of (map (\<lambda>d. (ar_addr d, ar_client d)) ds))"
    using Cons.prems(2) by (auto simp: dom_map_of_conv_image_fst image_image)
  then have "m' = m ++ map_of (map (\<lambda>d. (ar_addr d, ar_client d)) (d # ds))"
    by (simp add: IH(1) n(1) [OF m] map_add_upd_left)
  moreover have "w_hub_clients w' = w_hub_clients w" using IH(2) n(2) [OF m] w1 by simp
  moreover have "cl_OnLogin (w_clients w' c) = newEventTarget"
    if c: "c \<in> ar_client ` set (d # ds) \<or> cl_OnLogin (w_clients w c) = newEventTarget" for c
    by (rule IH(3)) (cases "c = ar_client d"; use c n(3) [OF m] n(4) [OF m, of c] w1 in auto)
  ultimately show ?case by blast
qed simp

text \<open>
  C32: The hub keys its UDP clients by the address value the socket returns, a new pointer for
  every datagram, so every datagram gets a client of its own, also from the sender of the last
  one; the table keeps them all, none of them has the hub's login listener, and none is
  registered, whatever it sends.
\<close>

theorem datagram_clients_accumulate:
  assumes "hub_datagrams sched opts sender ds m w = Done (m', w')"
    and "distinct (map ar_addr ds)" "\<And>d. d \<in> set ds \<Longrightarrow> m (ar_addr d) = None" "finite (dom m)"
  shows "(\<forall>d \<in> set ds. m' (ar_addr d) = Some (ar_client d) \<and> cl_OnLogin (w_clients w' (ar_client d)) = newEventTarget) \<and>
    card (dom m') = card (dom m) + length ds \<and> w_hub_clients w' = w_hub_clients w"
proof -
  have f: "m' = m ++ map_of (map (\<lambda>d. (ar_addr d, ar_client d)) ds)" "w_hub_clients w' = w_hub_clients w"
    "\<And>d. d \<in> set ds \<Longrightarrow> cl_OnLogin (w_clients w' (ar_client d)) = newEventTarget"
    using fresh_datagrams [OF assms(1-3)] by blast+
  have dist: "distinct (map fst (map (\<lambda>d. (ar_addr d, ar_client d)) ds))" using assms(2) by (simp add: comp_def)
  have "m' (ar_addr d) = Some (ar_client d)" if "d \<in> set ds" for d
    using map_of_is_SomeI [OF dist, of "ar_addr d" "ar_client d"] that by (auto simp: f(1))
  moreover have "dom m' = ar_addr ` set ds \<union> dom m"
    by (auto simp: f(1) dom_map_of_conv_image_fst image_image)
  moreover have "ar_addr ` set ds \<inter> dom m = {}" using assms(3) by auto
  moreover have "card (ar_addr ` set ds) = length ds" using distinct_card [OF assms(2)] by simp
  ultimately show ?thesis using f assms(4) by (simp add: card_Un_disjoint)
qed

subsection \<open>Samples\<close>

text \<open>A hub with no client yet, whose connections are all new, and a login option that wants one byte.\<close>

definition idle_hub :: "unit world" where
  "idle_hub = New (\<lambda>y. NewCrypto ()) 0"

definition one_byte :: login_options where
  "one_byte = \<lparr>lo_Timeout = 1000, lo_CheckFunc = (\<lambda>m. if length m = 1 then None else Some ''refused'')\<rparr>"

definition default_hub :: hub_options where
  "default_hub = \<lparr>ho_HeartbeatTimeout = 30000, ho_RetryTimeout = 15000, ho_RetryInterval = 3000\<rparr>"

lemma idle_hub_parts [simp]: "new_conn k idle_hub" "FindClient j idle_hub = None"
  by (simp_all add: idle_hub_def new_conn_def New_def FindClient_def sync_map_defs)

theorem hub_tcp_serves_witness:
  "(\<exists>w'. hub_tcp (\<lambda>c w. True) default_hub [WithServerOpts [WithLogin (Some one_byte)]] ''u'' 3 (AuthMessage [7]) 5 idle_hub = Done w' \<and>
      FindClient ''u'' w' = Some 3 \<and> cl_state (w_clients w' 3) = LOGINED) \<and>
   (\<exists>w'. hub_tcp (\<lambda>c w. True) default_hub [WithServerOpts [WithLogin (Some one_byte)]] ''u'' 3 (AuthMessage []) 5 idle_hub = Done w' \<and>
      ic_closed (w_conns w' 5) \<and> w_hub_clients w' = w_hub_clients idle_hub)"
  using hub_tcp_serves [of 5 idle_hub "''u''" "\<lambda>c w. True" default_hub "[WithServerOpts [WithLogin (Some one_byte)]]" 3 "AuthMessage [7]"]
    hub_tcp_serves [of 5 idle_hub "''u''" "\<lambda>c w. True" default_hub "[WithServerOpts [WithLogin (Some one_byte)]]" 3 "AuthMessage []"]
  by (auto simp: hub_opts_def WithServerOpts_def NewServer_opts_def WithLogin_def tcp_admitted_def one_byte_def
    in_service_def served_options_def logs_in_at_once_def turned_away_def)

text \<open>A listener that returns a connection, a temporary error, a second connection that sends nothing in time, and an error.\<close>

definition two_accepts :: "accept_result list" where
  "two_accepts = [Accepted ''a'' ''h:1'' (AuthMessage [7]) 5, TemporaryError,
     Accepted ''b'' ''h:2'' AuthTimeout 6, AcceptError ''closed'']"


theorem tls_server_panics_witness:
  "is_panic (accept_loop (\<lambda>c w. True) \<lparr>so_Tls = True, so_Login = None\<rparr> None [Accepted ''a'' ''h:1'' (AuthMessage [7]) 5] idle_hub)"
  using tls_server_panics [where so = "\<lparr>so_Tls = True, so_Login = None\<rparr>" and rs = "[]"] by simp


text \<open>Two datagrams of one sender that no codec reads.\<close>

definition two_datagrams :: "arrival list" where
  "two_datagrams = [\<lparr>ar_uuid = ''u'', ar_client = 3, ar_conn = 5, ar_addr = 8, ar_bytes = []\<rparr>,
     \<lparr>ar_uuid = ''v'', ar_client = 10, ar_conn = 12, ar_addr = 9, ar_bytes = []\<rparr>]"

lemma Unmarshal_empty: "Unmarshal [] = Inl HeaderError"
  by code_simp

lemma receive_empty:
  "co_Crypto (cl_options (w_clients w c)) = None \<Longrightarrow> w_bufs w b = [] \<Longrightarrow> receiveMessage c b w = Done w"
  by (simp add: receiveMessage_def decrypt_received_def Unmarshal_empty)

lemma new_empty_datagram:
  assumes "m ptr = None" "w_bufs w b = []" "co_Crypto opts = None"
  shows "\<exists>w'. hub_datagram sched opts uuid c k ptr sender b m w = Done (m(ptr \<mapsto> c), w')"
  using assms
  by (simp add: hub_datagram_def changeState_def swap_state_def newClient_def sync_map_defs Let_def receive_empty
    set_client_def upd_client_def new_fake_conn_def upd_conn_def)

lemma two_datagrams_run:
  "\<exists>m' w'. hub_datagrams (\<lambda>c w. True) no_options ''peer'' two_datagrams Map.empty idle_hub = Done (m', w')"
proof -
  let ?send = "hub_datagram (\<lambda>c w. True) no_options"
  obtain b w where b: "new_buf [] idle_hub = (b, w)" by fastforce
  then have wb: "w_bufs w b = []" by (auto simp: new_buf_def)
  obtain w1 where w1: "?send ''u'' 3 5 8 ''peer'' b Map.empty w = Done ([8 \<mapsto> 3], w1)"
    using new_empty_datagram [OF _ wb, of Map.empty 8 no_options] by (fastforce simp: no_options_def)
  obtain b' w2 where b': "new_buf [] w1 = (b', w2)" by fastforce
  then have wb': "w_bufs w2 b' = []" by (auto simp: new_buf_def)
  obtain w3 where "?send ''v'' 10 12 9 ''peer'' b' [8 \<mapsto> 3] w2 = Done ([8 \<mapsto> 3, 9 \<mapsto> 10], w3)"
    using new_empty_datagram [OF _ wb', of "[8 \<mapsto> 3]" 9 no_options] by (fastforce simp: no_options_def)
  with b w1 b' show ?thesis by (simp add: two_datagrams_def)
qed

theorem datagram_clients_accumulate_witness:
  "\<exists>m' w'. hub_datagrams (\<lambda>c w. True) no_options ''peer'' two_datagrams Map.empty idle_hub = Done (m', w') \<and>
     m' 8 = Some 3 \<and> m' 9 = Some 10 \<and> card (dom m') = 2 \<and> FindClient ''u'' w' = None"
proof -
  obtain m' w' where r: "hub_datagrams (\<lambda>c w. True) no_options ''peer'' two_datagrams Map.empty idle_hub = Done (m', w')"
    using two_datagrams_run by blast
  have "FindClient ''u'' w' = FindClient ''u'' idle_hub" if "w_hub_clients w' = w_hub_clients idle_hub"
    using that by (simp add: FindClient_def)
  with datagram_clients_accumulate [OF r] r show ?thesis by (auto simp: two_datagrams_def)
qed

end
