(* ===== verification/Hub_System.thy ===== *)
theory Hub_System
  imports World_Preserved Hub_Proofs
begin

text \<open>
  The hub as one system: connections are accepted and closed, messages and datagrams arrive,
  the goroutines of clients, centers and connections take their turns, timers tick and the
  application calls what it likes, in any order. An operation that waits on a channel is a step
  at the moment it goes on. The properties hold in every state that can be reached.
\<close>

subsection \<open>The system\<close>

text \<open>
  The world, the addresses of clients and connections in use, and addrToClient of
  ListenAndServeUdp.
\<close>

record 'k hub_state =
  sy_world :: "'k world"
  sy_clients :: "nat set"
  sy_conns :: "nat set"
  sy_addrs :: "nat \<rightharpoonup> nat"

definition hub_start :: "(nat \<Rightarrow> 'k crypto) \<Rightarrow> nat \<Rightarrow> 'k hub_state" where
  "hub_start cryptos now = \<lparr>sy_world = New cryptos now, sy_clients = {}, sy_conns = {}, sy_addrs = Map.empty\<rparr>"

text \<open>A connection as NewTcpConn and NewWebsocketConn make it.\<close>

definition open_conn :: "conn_kind \<Rightarrow> string \<Rightarrow> nat \<Rightarrow> 'k world \<Rightarrow> 'k world" where
  "open_conn kind addr k w = upd_conn k (\<lambda>x. \<lparr>ic_kind = kind, ic_addr = addr, ic_queue = [], ic_direct = [],
     ic_closed = False, ic_locked = False, ic_OnDisconnect = newEventTarget, ic_OnMessage = newEventTarget,
     ic_LoginData = None, ic_started = False\<rparr>) w"

text \<open>The writer goroutine of a connection takes the next slice.\<close>

definition conn_writes :: "nat \<Rightarrow> 'k world \<Rightarrow> 'k world" where
  "conn_writes k w = upd_conn k (\<lambda>x. x\<lparr>ic_queue := tl (ic_queue x)\<rparr>) w"

text \<open>A pass of the goroutine of a group's center.\<close>

inductive group_turn :: "nat \<Rightarrow> 'k world \<Rightarrow> 'k world outcome \<Rightarrow> bool" where
  "loop_step (w_pub w, gr_PubSub (w_groups w g)) calls (cnt, p) \<Longrightarrow>
     group_turn g w (run_subs calls ((upd_group g (\<lambda>x. x\<lparr>gr_PubSub := p\<rparr>) w)\<lparr>w_pub := cnt\<rparr>))"

definition group_sub :: "nat \<Rightarrow> string \<Rightarrow> nat \<Rightarrow> 'k world \<Rightarrow> 'k world outcome" where
  "group_sub g topic n w =
     and_then (SubTopic (NewTopicListener topic (Some (LocalSub n))) (gr_PubSub (w_groups w g)))
       (\<lambda>p. Done (upd_group g (\<lambda>x. x\<lparr>gr_PubSub := p\<rparr>) w))"

text \<open>What the application may do to the hub's clients, groups, streams and sessions.\<close>

inductive app_step :: "nat set \<Rightarrow> 'k sched \<Rightarrow> 'k world \<Rightarrow> 'k world \<Rightarrow> bool" for C :: "nat set" and sched :: "'k sched" where
  app_publish: "c \<in> C \<Longrightarrow> Publish c topic data w = Done w' \<Longrightarrow> app_step C sched w w'"
| app_publish_retry: "c \<in> C \<Longrightarrow> app_step C sched w (PublishWithRetry uuid c topic data w)"
| app_subscribe: "c \<in> C \<Longrightarrow> Subscribe uuid c topic n w = Done w' \<Longrightarrow> app_step C sched w w'"
| app_subscribe_attributes: "c \<in> C \<Longrightarrow> SubscribeAttributes uuid c topic attrs n w = Done w' \<Longrightarrow> app_step C sched w w'"
| app_unsubscribe: "c \<in> C \<Longrightarrow> Unsubscribe uuid c topic w = Done w' \<Longrightarrow> app_step C sched w w'"
| app_request: "c \<in> C \<Longrightarrow> app_step C sched w (Request uuid c method params w)"
| app_request_retry: "c \<in> C \<Longrightarrow> app_step C sched w (RequestWithRetry uuid c method params w)"
| app_packet: "c \<in> C \<Longrightarrow> SendPacket c p w = Done (e, w') \<Longrightarrow> app_step C sched w w'"
| app_packet_direct: "c \<in> C \<Longrightarrow> SendPacketDirect c p w = Done (e, w') \<Longrightarrow> app_step C sched w w'"
| app_packet_retry: "c \<in> C \<Longrightarrow> app_step C sched w (SendPacketWithRetry c p w)"
| app_message: "c \<in> C \<Longrightarrow> new_buf bs w = (b, v) \<Longrightarrow> SendMessage c b v = Done (e, w') \<Longrightarrow> app_step C sched w w'"
| app_property: "c \<in> C \<Longrightarrow> app_step C sched w (upd_client c (Client_SetProperty k v) w)"
| app_dispose: "c \<in> C \<Longrightarrow> Dispose sched c w = Done w' \<Longrightarrow> app_step C sched w w'"
| app_broadcast: "g < w_ngroups w \<Longrightarrow> new_buf bs w = (b, v) \<Longrightarrow> Broadcast g b v = Done w' \<Longrightarrow> app_step C sched w w'"
| app_group_publish: "g < w_ngroups w \<Longrightarrow> Group_PubTopic g pkt from w = Done w' \<Longrightarrow> app_step C sched w w'"
| app_group_subscribe: "g < w_ngroups w \<Longrightarrow> group_sub g topic n w = Done w' \<Longrightarrow> app_step C sched w w'"
| app_group_find: "FindOrCreateGroup i w = (g, w') \<Longrightarrow> app_step C sched w w'"
| app_stream_request: "Stream_Request s j w = Done (e, w') \<Longrightarrow> app_step C sched w w'"
| app_stream_response: "Stream_Response s j err w = Done (e, w') \<Longrightarrow> app_step C sched w w'"
| app_stream_close: "Stream_CloseAndRev s w = Done (e, w') \<Longrightarrow> app_step C sched w w'"
| app_stream_receive: "sm_OnRev (w_streams w s) = p # q \<Longrightarrow>
    app_step C sched w (w\<lparr>w_streams := (w_streams w)(s := (w_streams w s)\<lparr>sm_OnRev := q\<rparr>)\<rparr>)"
| app_session: "app_step C sched w (TemptSaveSession data w)"
| app_expire: "app_step C sched w (expire_sessions w)"
| app_records: "app_step C sched w (w\<lparr>w_user := u\<rparr>)"
| app_clock: "w_now w \<le> t \<Longrightarrow> app_step C sched w (w\<lparr>w_now := t\<rparr>)"

text \<open>
  The handlers of the application use what the library offers: in a world that is in order, a
  request handler of a client, or a stream handler of one, does any number of these things.
  Nothing is said of what it computes or when it panics.
\<close>

definition app_uses :: "'k sched \<Rightarrow> 'k app \<Rightarrow> bool" where
  "app_uses sched app \<longleftrightarrow> (\<forall>C K w. world_ok C K w \<longrightarrow>
     (\<forall>n r c. c \<in> C \<longrightarrow> (app_step C sched)\<^sup>*\<^sup>* w (snd (app_request app n r c w))) \<and>
     (\<forall>n r s. s < w_nstreams w \<and> sm_Client (w_streams w s) \<in> C \<longrightarrow>
        (app_step C sched)\<^sup>*\<^sup>* w (snd (app_stream app n r s w))))"

definition sy_to :: "'k world \<Rightarrow> 'k hub_state \<Rightarrow> 'k hub_state" where
  "sy_to w s = s\<lparr>sy_world := w\<rparr>"

text \<open>The login option of a TCP server started with these options.\<close>

definition login_of :: "hub_server_option list \<Rightarrow> login_options option" where
  "login_of opts = so_Login (NewServer_opts (hs_ServerOpts (hub_opts opts)))"

inductive hub_step :: "'k app \<Rightarrow> 'k curve \<Rightarrow> 'k sched \<Rightarrow> hub_options \<Rightarrow> 'k hub_state \<Rightarrow> 'k hub_state \<Rightarrow> bool"
  for app :: "'k app" and E :: "'k curve" and sched :: "'k sched" and ho :: hub_options where
  sys_tcp: "c \<notin> sy_clients s \<Longrightarrow> k \<notin> sy_conns s \<Longrightarrow>
    hub_tcp sched ho opts uuid c i k (open_conn TcpKind addr k (sy_world s)) = Done w' \<Longrightarrow>
    hub_step app E sched ho s (s\<lparr>sy_world := w', sy_conns := insert k (sy_conns s),
      sy_clients := (if tcp_admitted (login_of opts) i then insert c (sy_clients s) else sy_clients s)\<rparr>)"
| sys_websocket: "c \<notin> sy_clients s \<Longrightarrow> k \<notin> sy_conns s \<Longrightarrow>
    hub_websocket sched ho opts uuid c query upgrades k (open_conn WebsocketKind addr k (sy_world s)) = Done (refused, w') \<Longrightarrow>
    hub_step app E sched ho s (s\<lparr>sy_world := w', sy_conns := insert k (sy_conns s),
      sy_clients := (if refused \<or> \<not> upgrades then sy_clients s else insert c (sy_clients s))\<rparr>)"
| sys_datagram: "c \<notin> sy_clients s \<Longrightarrow> k \<notin> sy_conns s \<Longrightarrow> new_buf bs (sy_world s) = (b, v) \<Longrightarrow>
    hub_udp sched ho opts uuid c k ptr addr b (sy_addrs s) v = Done (m', w') \<Longrightarrow>
    hub_step app E sched ho s
      (if sy_addrs s ptr = None
       then s\<lparr>sy_world := w', sy_conns := insert k (sy_conns s), sy_clients := insert c (sy_clients s), sy_addrs := m'\<rparr>
       else s\<lparr>sy_world := w', sy_addrs := m'\<rparr>)"
| sys_message: "k \<in> sy_conns s \<Longrightarrow> conn_message k bs (sy_world s) = Done w' \<Longrightarrow> hub_step app E sched ho s (sy_to w' s)"
| sys_writes: "hub_step app E sched ho s (sy_to (conn_writes k (sy_world s)) s)"
| sys_closes: "conn_Close sched k (sy_world s) = Done w' \<Longrightarrow> hub_step app E sched ho s (sy_to w' s)"
| sys_handles: "c \<in> sy_clients s \<Longrightarrow> cl_running (w_clients (sy_world s) c) \<Longrightarrow> handle_next app E c (sy_world s) = Done w' \<Longrightarrow>
    hub_step app E sched ho s (sy_to w' s)"
| sys_ticks: "c \<in> sy_clients s \<Longrightarrow> cl_running (w_clients (sy_world s) c) \<Longrightarrow> tick sched c (sy_world s) = Done w' \<Longrightarrow>
    hub_step app E sched ho s (sy_to w' s)"
| sys_stops: "c \<in> sy_clients s \<Longrightarrow> cl_ctxDone (w_clients (sy_world s) c) \<Longrightarrow>
    hub_step app E sched ho s (sy_to (upd_client c (\<lambda>cl. cl\<lparr>cl_running := False\<rparr>) (sy_world s)) s)"
| sys_starts: "c \<in> sy_clients s \<Longrightarrow> start_task app E c n (sy_world s) = Done w' \<Longrightarrow> hub_step app E sched ho s (sy_to w' s)"
| sys_calls: "c \<in> sy_clients s \<Longrightarrow> call_task pick c n (sy_world s) = Done w' \<Longrightarrow> hub_step app E sched ho s (sy_to w' s)"
| sys_finishes: "c \<in> sy_clients s \<Longrightarrow> finish_task sched c n (sy_world s) = Done w' \<Longrightarrow> hub_step app E sched ho s (sy_to w' s)"
| sys_center: "c \<in> sy_clients s \<Longrightarrow> center_turn c (sy_world s) (Done w') \<Longrightarrow> hub_step app E sched ho s (sy_to w' s)"
| sys_group: "g < w_ngroups (sy_world s) \<Longrightarrow> group_turn g (sy_world s) (Done w') \<Longrightarrow> hub_step app E sched ho s (sy_to w' s)"
| sys_app: "app_step (sy_clients s) sched (sy_world s) w' \<Longrightarrow> hub_step app E sched ho s (sy_to w' s)"

inductive hub_reach :: "'k app \<Rightarrow> 'k curve \<Rightarrow> 'k sched \<Rightarrow> hub_options \<Rightarrow> 'k hub_state \<Rightarrow> bool"
  for app :: "'k app" and E :: "'k curve" and sched :: "'k sched" and ho :: hub_options where
  reach_start: "hub_reach app E sched ho (hub_start cryptos now)"
| reach_step: "hub_reach app E sched ho s \<Longrightarrow> hub_step app E sched ho s s' \<Longrightarrow> hub_reach app E sched ho s'"

lemma in_set_tlD: "x \<in> set (tl xs) \<Longrightarrow> x \<in> set xs"
  by (cases xs) auto

inductive_simps group_turn_iff: "group_turn g w r"

definition system_ok :: "'k hub_state \<Rightarrow> bool" where
  "system_ok s \<longleftrightarrow> world_ok (sy_clients s) (sy_conns s) (sy_world s) \<and> ran (sy_addrs s) \<subseteq> sy_clients s"

subsection \<open>The steps keep the invariant\<close>

lemma system_ok_start: "system_ok (hub_start cryptos now)"
proof -
  have "center_ok GroupPubChLen (newPubSub GroupPubChLen :: sub_callback pubsub)"
    by (simp add: center_ok_def) (simp add: newPubSub_def)
  then show ?thesis
    by (simp add: system_ok_def hub_start_def world_ok_def New_def tables_ok_def gauges_ok_def rx_sum_def pub_sum_def
      group_sum_def group_ok_def newGroup_def newStream_def) (simp add: newPubSub_def)
qed

lemma open_conn_ok: "world_ok C K w \<Longrightarrow> world_ok C (insert k K) (open_conn kind addr k w)"
  unfolding open_conn_def by (rule new_conn_ok) (simp_all add: conn_ok_def newEventTarget_def)

lemma conn_writes_ok: "world_ok C K w \<Longrightarrow> world_ok C K (conn_writes k w)"
  unfolding conn_writes_def by (rule upd_conn_ok) (auto simp: conn_ok_def dest!: in_set_tlD)

lemma group_sub_ok:
  assumes "group_sub g topic n w = Done w'" "g < w_ngroups w" "world_ok C K w"
  shows "world_ok C K w'"
proof -
  obtain p where p: "SubTopic (NewTopicListener topic (Some (LocalSub n))) (gr_PubSub (w_groups w g)) = Done p"
    and w': "w' = (upd_group g (\<lambda>x. x\<lparr>gr_PubSub := p\<rparr>) w)\<lparr>w_pub := w_pub w\<rparr>"
    using assms(1) by (auto simp: group_sub_def outcome_simps upd_group_def)
  show ?thesis unfolding w'
    by (rule upd_group_ok [OF assms(3,2)])
      (use world_ok_group [OF assms(3,2)] SubTopic_center [OF p] in \<open>auto simp: group_ok_def center_ok_def\<close>)
qed

lemma group_turn_ok:
  assumes "group_turn g w (Done w')" "g < w_ngroups w" "world_ok C K w"
  shows "world_ok C K w'"
proof -
  obtain calls cnt p where l: "loop_step (w_pub w, gr_PubSub (w_groups w g)) calls (cnt, p)"
    and w': "run_subs calls ((upd_group g (\<lambda>x. x\<lparr>gr_PubSub := p\<rparr>) w)\<lparr>w_pub := cnt\<rparr>) = Done w'"
    using assms(1) by (auto simp: group_turn_iff)
  have g: "group_ok C (w_hub_group w) g (w_groups w g)" by (rule world_ok_group [OF assms(3,2)])
  then have "center_ok GroupPubChLen (gr_PubSub (w_groups w g))" by (simp add: group_ok_def)
  note ps = loop_step_center [OF l this]
  show ?thesis
    by (rule run_subs_ok [OF w' upd_group_ok [OF assms(3,2)]]) (use g ps in \<open>auto simp: group_ok_def\<close>)
qed

lemma app_step_ok: "app_step C sched w w' \<Longrightarrow> world_ok C K w \<Longrightarrow> world_ok C K w'"
proof (induction rule: app_step.induct)
  case (app_message c bs w b v e w')
  then show ?case using new_buf_ok [OF _ app_message(2), of C K] SendMessage_ok [OF app_message(3)] by blast
next
  case (app_broadcast g w bs b v w')
  then show ?case using new_buf_ok [OF _ app_broadcast(2), of C K] broadcast_to_ok by (auto simp: Broadcast_def)
next
  case (app_stream_receive w s p q)
  let ?w = "w\<lparr>w_streams := (w_streams w)(s := (w_streams w s)\<lparr>sm_OnRev := q\<rparr>)\<rparr>"
  have len: "length q \<le> 10"
  proof -
    have "length (sm_OnRev (w_streams w s)) \<le> 10" using app_stream_receive(2) by (simp add: world_ok_def)
    with app_stream_receive(1) show ?thesis by simp
  qed
  have sig: "stream_sig ?w = stream_sig w" by (simp add: stream_sig_def fun_eq_iff)
  have "tables_ok C ?w" "gauges_ok C ?w" using app_stream_receive(2) by (simp_all add: world_ok_def tables_ok_def gauges_ok_def)
  with sig len app_stream_receive(2) show ?case by (simp add: world_ok_def)
next
  case (app_property c w k v)
  then show ?case by (intro upd_client_view) (simp_all add: Client_SetProperty_def client_view_def)
qed (auto simp: Stream_Request_def Stream_Response_def Stream_CloseAndRev_def TemptSaveSession_def expire_sessions_def
  intro: app_calls_ok SendPacket_ok SendPacketDirect_ok SendPacketWithRetry_ok Dispose_ok Group_PubTopic_ok group_sub_ok
    FindOrCreateGroup_ok(1))

lemma app_uses_keeps: "app_uses sched app \<Longrightarrow> app_keeps app"
proof -
  have "(app_step C sched)\<^sup>*\<^sup>* w w' \<Longrightarrow> world_ok C K w \<Longrightarrow> world_ok C K w'" for C K w w'
    by (induction rule: rtranclp_induct) (auto intro: app_step_ok)
  then show "app_uses sched app \<Longrightarrow> app_keeps app"
    unfolding app_uses_def app_keeps_def by blast
qed

lemma tcp_step_ok:
  assumes "hub_tcp sched ho opts uuid c i k w = Done w'" "c \<notin> C" "k \<in> K" "world_ok C K w"
  shows "world_ok (if tcp_admitted (login_of opts) i then insert c C else C) K w'"
proof -
  let ?l = "login_of opts" and ?serve = "Some (hub_serve sched (served_options ho (hub_opts opts)) uuid c)"
  have tcp: "(if tcp_admitted ?l i then serve_conn ?serve k (auth_data ?l i k w) else conn_Close sched k (auth_data ?l i k w)) = Done w'"
    using assms(1) by (simp only: hub_tcp_def Let_def tcp_accept_cases login_of_def)
  have "world_ok C K (auth_data ?l i k w)"
    using assms(4) by (auto simp: auth_data_def set_login_data_def intro!: upd_conn_view split: option.splits auth_input.splits)
  with tcp serve_conn_ok [OF _ assms(2,3)] conn_Close_ok show ?thesis by (auto split: if_splits)
qed

lemma websocket_step_ok:
  assumes "hub_websocket sched ho opts uuid c query upgrades k w = Done (refused, w')" "c \<notin> C" "k \<in> K" "world_ok C K w"
  shows "world_ok (if refused \<or> \<not> upgrades then C else insert c C) K w'"
proof -
  let ?serve = "Some (hub_serve sched (served_options ho (hub_opts opts)) uuid c)"
  have data: "world_ok C K (set_login_data k d w)" for d
    unfolding set_login_data_def by (rule upd_conn_view [OF assms(4)]) simp
  have "refused \<and> w' = w \<or> \<not> refused \<and> \<not> upgrades \<and> w' = w \<or>
      (\<exists>d. \<not> refused \<and> upgrades \<and> serve_conn ?serve k (set_login_data k d w) = Done w')"
    using assms(1) by (auto simp: hub_websocket_def ws_accept_def Let_def outcome_simps split: if_splits)
  then show ?thesis using assms(4) serve_conn_ok [OF _ assms(2,3) data] by auto
qed

lemma new_fake_conn_ok: "world_ok C K w \<Longrightarrow> world_ok C (insert k K) (new_fake_conn k addr w)"
  unfolding new_fake_conn_def by (rule new_conn_ok) (simp_all add: conn_ok_def newEventTarget_def)

lemma datagram_step_ok:
  assumes "hub_datagram sched opts uuid c k ptr addr b m w = Done (m', w')" "c \<notin> C" "b < w_nbufs w" "world_ok C K w" "ran m \<subseteq> C"
  shows "if m ptr = None then world_ok (insert c C) (insert k K) w' \<and> ran m' \<subseteq> insert c C else world_ok C K w' \<and> m' = m"
proof (cases "m ptr")
  case (Some d)
  then have "d \<in> C" "receiveMessage d b w = Done w'" "m' = m"
    using assms(1,5) by (auto simp: hub_datagram_def sm_load_def outcome_simps ran_def)
  with Some receiveMessage_ok(1) [OF _ _ assms(4,3)] show ?thesis by simp
next
  case None
  let ?cl = "newClient (Some k) opts uuid (Suc c) (w_now w)" and ?u = "new_fake_conn k addr w"
  obtain w1 where w1: "changeState sched c CONNECTED (set_client c ?cl ?u) = Done w1"
    and r: "receiveMessage c b (upd_client c (\<lambda>x. x\<lparr>cl_handlerMgr := 0\<rparr>) w1) = Done w'" "m' = m(ptr \<mapsto> c)"
    using None assms(1) by (auto simp: hub_datagram_def outcome_simps sync_map_defs Let_def)
  have u: "world_ok C (insert k K) ?u" by (rule new_fake_conn_ok [OF assms(4)])
  have "world_ok (insert c C) (insert k K) (set_client c ?cl ?u)"
    by (rule new_client_ok [OF u assms(2)]) (rule newClient_ok, simp, simp_all add: newClient_def newPubSub_def)
  then have ok: "world_ok (insert c C) (insert k K) (upd_client c (\<lambda>x. x\<lparr>cl_handlerMgr := 0\<rparr>) w1)"
    by (intro upd_client_view changeState_member [OF w1]) (simp_all add: client_view_def)
  have same: "w1 = upd_client c (\<lambda>x. x\<lparr>cl_state := settle opts CONNECTED\<rparr>) (set_client c ?cl ?u)"
    using w1 by (auto simp: changeState_def swap_state_def Let_def set_client_def newClient_def split: if_splits)
  have "b < w_nbufs (upd_client c (\<lambda>x. x\<lparr>cl_handlerMgr := 0\<rparr>) w1)"
    using assms(3) unfolding same by (simp add: upd_client_def set_client_def new_fake_conn_def upd_conn_def)
  then have "world_ok (insert c C) (insert k K) w'" by (intro receiveMessage_ok(1) [OF r(1) _ ok]) simp
  moreover have "ran m' \<subseteq> insert c C" using assms(5) r(2) by (auto simp: ran_def)
  ultimately show ?thesis using None by simp
qed

lemma hub_step_ok:
  assumes "hub_step app E sched ho s s'" "app_keeps app" "system_ok s"
  shows "system_ok s'"
  using assms
proof (induction rule: hub_step.induct)
  case (sys_tcp c s k opts uuid i addr w')
  then show ?case
    using tcp_step_ok [OF sys_tcp(3,1), of "insert k (sy_conns s)"]
      open_conn_ok [of "sy_clients s" "sy_conns s" "sy_world s" k TcpKind addr] by (auto simp: system_ok_def)
next
  case (sys_websocket c s k opts uuid query upgrades addr refused w')
  then show ?case
    using websocket_step_ok [OF sys_websocket(3,1), of "insert k (sy_conns s)"]
      open_conn_ok [of "sy_clients s" "sy_conns s" "sy_world s" k WebsocketKind addr] by (auto simp: system_ok_def)
next
  case (sys_datagram c s k bs b v opts uuid ptr addr m' w')
  have w: "world_ok (sy_clients s) (sy_conns s) (sy_world s)" "ran (sy_addrs s) \<subseteq> sy_clients s"
    using sys_datagram by (simp_all add: system_ok_def)
  note v = new_buf_ok [OF w(1) sys_datagram(3)]
  show ?case
    using datagram_step_ok [OF sys_datagram(4) [unfolded hub_udp_def Let_def] sys_datagram(1) v(2,1) w(2)] w(2) by (auto simp: system_ok_def)
next
  case (sys_stops c s)
  then show ?case by (auto simp: system_ok_def sy_to_def client_view_def intro!: upd_client_view)
qed (auto simp: system_ok_def sy_to_def intro: conn_message_ok conn_writes_ok conn_Close_ok handle_next_ok tick_ok start_task_ok
  call_task_ok finish_task_ok center_turn_ok group_turn_ok app_step_ok)

lemma reach_ok: "hub_reach app E sched ho s \<Longrightarrow> app_uses sched app \<Longrightarrow> system_ok s"
  by (induction rule: hub_reach.induct) (auto intro: system_ok_start hub_step_ok app_uses_keeps)

end
