(* ===== verification/Hub_Safety.thy ===== *)
theory Hub_Safety
  imports Hub_System Client_Wire
begin

text \<open>
  What holds of the hub in every state it can reach: its references, its bounds and gauges, who
  can panic, and the publications of its groups.
\<close>

subsection \<open>References\<close>

text \<open>
  C4: In every state the hub can reach, with application handlers that do what the library
  offers, every client in use has a connection in use; every packet in its queue carries its
  own type code, this client as its receiver and a slice that exists; every stream it handles exists, has the
  id it is filed under and belongs to the client; its group exists. The clients the registry
  and the groups hold are in use, the slices that wait in connections exist, and the buckets
  are distinct children of the root group, which has no parent.
\<close>

theorem hub_references:
  assumes "hub_reach app E sched ho s" "app_uses sched app" and w: "w = sy_world s"
  shows "(\<forall>c \<in> sy_clients s.
      (\<exists>k \<in> sy_conns s. cl_conn (w_clients w c) = Some k) \<and>
      (\<forall>p \<in> set (cl_rxQueue (w_clients w c)).
         pk_PacketType p = TypeCode (pk_PacketContent p) \<and> pk_Client p = c \<and> pk_RawData p < w_nbufs w) \<and>
      (\<forall>sid st. cl_handlingStream (w_clients w c) sid = Some st \<longrightarrow>
         st < w_nstreams w \<and> sm_Id (w_streams w st) = sid \<and> sm_Client (w_streams w st) = c) \<and>
      (\<forall>g. cl_Group (w_clients w c) = Some g \<longrightarrow> g < w_ngroups w)) \<and>
    (\<forall>u c. FindClient u w = Some c \<longrightarrow> c \<in> sy_clients s) \<and>
    (\<forall>g < w_ngroups w. \<forall>u c. Group_FindClient g u w = Some c \<longrightarrow> c \<in> sy_clients s) \<and>
    (\<forall>k \<in> sy_conns s. \<forall>b \<in> set (ic_queue (w_conns w k)). b < w_nbufs w) \<and> registry_ok w"
proof -
  have ok: "world_ok (sy_clients s) (sy_conns s) w" using reach_ok [OF assms(1,2)] by (simp add: system_ok_def w)
  have clients: "client_ok (sy_clients s) (sy_conns s) (w_nbufs w) (w_ngroups w) (stream_sig w) c (w_clients w c)" if "c \<in> sy_clients s" for c
    using world_ok_client [OF ok that] .
  have sig: "stream_sig w st = Some (sid, c) \<Longrightarrow> st < w_nstreams w \<and> sm_Id (w_streams w st) = sid \<and> sm_Client (w_streams w st) = c"
    for st sid c by (simp add: stream_sig_def split: if_splits)
  have members: "Group_FindClient g u w = Some c \<Longrightarrow> g < w_ngroups w \<Longrightarrow> c \<in> sy_clients s" for g u c
    using world_ok_members [OF ok, of g] by (auto simp: Group_FindClient_def member_load_def dest!: map_of_SomeD)
  show ?thesis
    using clients sig members world_ok_found [OF ok] world_ok_conn [OF ok] world_ok_registry [OF ok]
    by (simp add: client_ok_def packet_ok_def conn_ok_def) fastforce
qed

subsection \<open>Bounds\<close>


subsection \<open>Panics\<close>

text \<open>Every client that encrypts has its two ciphers.\<close>

definition keyed :: "nat set \<Rightarrow> 'k world \<Rightarrow> bool" where
  "keyed C w \<longleftrightarrow> (\<forall>c \<in> C. \<forall>y. co_Crypto (cl_options (w_clients w c)) = Some y \<longrightarrow> encrypts (w_clients w c) \<longrightarrow>
     encoder (w_cryptos w y) \<noteq> None \<and> decoder (w_cryptos w y) \<noteq> None)"

lemma keyed_keep:
  assumes "keyed C w" and "w_cryptos w' = w_cryptos w"
    and "\<And>c. cl_options (w_clients w' c) = cl_options (w_clients w c) \<and> cl_state (w_clients w' c) = cl_state (w_clients w c)"
  shows "keyed C w'"
  using assms unfolding keyed_def encrypts_def by simp

lemma ok_wired:
  assumes "world_ok C K w" "keyed C w" shows "wired C w"
proof -
  have "cl_conn (w_clients w c) \<noteq> None \<and> (\<forall>g. cl_Group (w_clients w c) = Some g \<longrightarrow> set (map snd (gr_clients (w_groups w g))) \<subseteq> C)"
    if "c \<in> C" for c
    using world_ok_client [OF assms(1) that] world_ok_members [OF assms(1)] by (fastforce simp: client_ok_def)
  with assms(2) show ?thesis by (simp add: wired_def keyed_def)
qed

lemma rise_no_panic: "(\<And>f w. \<not> is_panic (run f w)) \<Longrightarrow> \<not> is_panic (rise_listeners run fs w)"
  by (induction fs arbitrary: w) (auto simp: outcome_simps)

lemma client_clear_no_panic: "\<not> is_panic (client_clear sched c w)"
  by (simp add: client_clear_def ClearAllSubTopics_def outcome_simps Let_def)

lemma run_disconnect_no_panic: "\<not> is_panic (run_disconnect sched l ev w)"
  by (cases l) (auto simp: outcome_simps client_clear_no_panic)

lemma conn_Close_no_panic: "\<not> is_panic (conn_Close sched k w)"
  by (auto simp: conn_Close_def conn_close_def Let_def outcome_simps RiseEvent_def rise_no_panic run_disconnect_no_panic)

lemma Dispose_no_panic:
  assumes "cl_conn (w_clients w c) \<noteq> None"
  shows "\<not> is_panic (Dispose sched c w)"
proof -
  let ?w1 = "client_cancel c (upd_client c (\<lambda>x. x\<lparr>cl_beDisposed := True\<rparr>) w)"
  have "cl_conn (w_clients w2 c) = cl_conn (w_clients w c)" if "client_clear sched c ?w1 = Done w2" for w2
    using that by (auto simp: client_clear_def client_cancel_def outcome_simps Let_def)
  moreover have "\<not> is_panic (rise_listeners run_dispose ls v)" for ls and v :: "'a world"
    by (rule rise_no_panic) (metis is_panic.simps(2) run_dispose_Done)
  ultimately show ?thesis using assms
    by (auto simp: Dispose_def Let_def outcome_simps client_clear_no_panic conn_Close_no_panic RiseEvent_def split: option.splits)
qed

lemma ok_conn: "world_ok C K w \<Longrightarrow> c \<in> C \<Longrightarrow> cl_conn (w_clients w c) \<noteq> None"
  using world_ok_client [of C K w c] by (auto simp: client_ok_def)

lemma onClientLogin_no_panic:
  assumes "world_ok C K w"
  shows "\<not> is_panic (onClientLogin sched c w)"
proof -
  have "\<not> is_panic (Dispose sched d (w\<lparr>w_hub_clients := m\<rparr>))" if "w_hub_clients w u = Some d" for d m u
    using ok_conn [OF assms world_ok_found [OF assms, of u d]] that by (intro Dispose_no_panic) (simp add: FindClient_def sm_load_def)
  then show ?thesis by (auto simp: onClientLogin_def sync_map_defs outcome_simps split: option.splits)
qed

lemma changeState_no_panic:
  assumes "world_ok C K w" "c \<in> C"
  shows "\<not> is_panic (changeState sched c st w)"
proof -
  have run: "(\<And>d. HubLogin d \<in> set ls \<Longrightarrow> d \<in> C) \<Longrightarrow> world_ok C K v \<Longrightarrow> \<not> is_panic (rise_listeners (run_login sched) ls v)" for ls v
  proof (induction ls arbitrary: v)
    case (Cons l ls)
    have "\<not> is_panic (run_login sched l v)" by (cases l) (simp_all add: onClientLogin_no_panic [OF Cons.prems(2)])
    moreover have "world_ok C K v'" if "run_login sched l v = Done v'" for v'
      using that Cons.prems by (cases l) (auto dest: onClientLogin_ok)
    ultimately show ?case using Cons by (auto simp: outcome_simps)
  qed simp
  let ?w1 = "upd_client c (\<lambda>x. x\<lparr>cl_state := settle (cl_options (w_clients w c)) st\<rparr>) w"
  have "world_ok C K ?w1" by (rule upd_client_view [OF assms(1)]) (simp add: client_view_def)
  moreover have "\<And>d. HubLogin d \<in> set (et_listeners (cl_OnLogin (w_clients w c))) \<Longrightarrow> d \<in> C"
    using world_ok_client [OF assms] by (simp add: client_ok_def)
  ultimately have "\<not> is_panic (rise_listeners (run_login sched) (et_listeners (cl_OnLogin (w_clients w c))) ?w1)" by (rule run [rotated])
  then show ?thesis by (auto simp: changeState_def swap_state_def RiseEvent_def Let_def)
qed

lemma SendPacket_fine:
  assumes "world_ok C K w" "keyed C w" "c \<in> C"
  shows "\<exists>e w'. SendPacket c p w = Done (e, w') \<and> world_ok C K w'"
  using SendPacket_wired [OF ok_wired [OF assms(1,2)] assms(3), of p] SendPacket_ok [OF _ assms(1)] by blast

lemma SendPacketDirect_fine:
  assumes "world_ok C K w" "keyed C w" "c \<in> C"
  shows "\<not> is_panic (SendPacketDirect c p w)"
proof -
  obtain b w1 where b: "marshal_buf p w = (b, w1)" by fastforce
  have "wired C w1" using marshal_buf_wired [OF ok_wired [OF assms(1,2)] b] .
  from prepare_send_wired [OF this assms(3), of b] obtain w2 where "prepare_send c b w1 = Done w2" "wired C w2" by blast
  then show ?thesis using b assms(3) by (auto simp: SendPacketDirect_def SendMessageDirect_def wired_def split: option.splits)
qed

lemma tick_no_panic:
  assumes "world_ok C K w" "keyed C w" "c \<in> C"
  shows "\<not> is_panic (tick sched c w)"
proof -
  have rest: "\<not> is_panic (if w_now v - cl_lastRxTime (w_clients v c) > co_HeartbeatTimeout (cl_options (w_clients v c))
       then (if cl_beClient (w_clients v c)
          then (case cl_conn (w_clients v c) of None \<Rightarrow> Done v
                | Some k \<Rightarrow> and_then (conn_IsClosed k v) (\<lambda>b. if b then Done v else conn_Close sched k v))
          else Dispose sched c v) else Done v)" if "world_ok C K v" for v
    using Dispose_no_panic [OF ok_conn [OF that assms(3)], of sched]
    by (auto simp: outcome_simps conn_Close_no_panic conn_IsClosed_def Let_def split: option.splits)
  obtain e w1 where "SendPacket c (HeartbeatPacket []) w = Done (e, w1)" "world_ok C K w1" using SendPacket_fine [OF assms] by blast
  with rest [of w1] rest [OF assms(1)] show ?thesis by (simp add: tick_def Let_def)
qed

lemma receiveMessage_fine:
  assumes "keyed C w" "c \<in> C"
  shows "\<not> is_panic (receiveMessage c b w)" "receiveMessage c b w = Done w' \<Longrightarrow> keyed C w'"
proof -
  have dec: "(\<exists>w1. decrypt_received c b w = Done w1 \<and> keyed C w1 \<and> w_clients w1 = w_clients w)"
  proof (cases "\<exists>y. co_Crypto (cl_options (w_clients w c)) = Some y \<and> encrypts (w_clients w c)")
    case True
    then obtain y where cy: "co_Crypto (cl_options (w_clients w c)) = Some y" "encrypts (w_clients w c)" by blast
    with assms have "decoder (w_cryptos w y) \<noteq> None" by (simp add: keyed_def)
    with cy obtain d where y: "co_Crypto (cl_options (w_clients w c)) = Some y" "encrypts (w_clients w c)" "decoder (w_cryptos w y) = Some d"
      by blast
    with assms(1) show ?thesis
      by (auto simp: decrypt_received_def decode_buf_def decode_in_place [OF y(3)] encrypts_def keyed_def split: client_state.splits)
  next
    case False
    with assms(1) show ?thesis by (auto simp: decrypt_received_def encrypts_def split: option.splits client_state.splits)
  qed
  have enq: "\<not> is_panic (enqueue_packet c pkt v)" "enqueue_packet c pkt v = Done v' \<Longrightarrow> keyed C v \<Longrightarrow> keyed C v'" for pkt v v'
    by (auto simp: enqueue_packet_def Let_def outcome_simps upd_client_def elim!: keyed_keep)
  from dec obtain w1 where w1: "decrypt_received c b w = Done w1" "keyed C w1" by blast
  show "\<not> is_panic (receiveMessage c b w)" using w1 enq(1) by (auto simp: receiveMessage_def split: sum.splits)
  show "receiveMessage c b w = Done w' \<Longrightarrow> keyed C w'"
    using w1 enq(2) by (auto simp: receiveMessage_def split: sum.splits if_splits)
qed

lemma conn_message_no_panic:
  assumes "world_ok C K w" "keyed C w" "k \<in> K"
  shows "\<not> is_panic (conn_message k bs w)"
proof -
  obtain b w1 where b: "new_buf bs w = (b, w1)" by fastforce
  note n = new_buf_ok [OF assms(1) b]
  have k1: "keyed C w1" using b assms(2) by (auto simp: new_buf_def keyed_def)
  have run: "keyed C v \<Longrightarrow> (\<And>c. ClientReceive c \<in> set ls \<Longrightarrow> c \<in> C) \<Longrightarrow> \<not> is_panic (rise_listeners (run_message b) ls v)" for ls v
  proof (induction ls arbitrary: v)
    case (Cons l ls)
    have "\<not> is_panic (run_message b l v) \<and> (\<forall>v'. run_message b l v = Done v' \<longrightarrow> keyed C v')"
    proof (cases l)
      case (ClientReceive c)
      then show ?thesis using receiveMessage_fine [OF Cons.prems(1), of c b] Cons.prems(2) by auto
    qed (use Cons.prems(1) in \<open>auto simp: keyed_def\<close>)
    with Cons show ?case by (auto simp: outcome_simps)
  qed simp
  have "\<not> is_panic (rise_listeners (run_message b) (et_listeners (ic_OnMessage (w_conns w1 k))) w1)"
    by (rule run [OF k1]) (use world_ok_conn [OF n(1) assms(3)] in \<open>simp add: conn_ok_def\<close>)
  with b show ?thesis by (simp add: conn_message_def RiseEvent_def)
qed

lemma finish_task_no_panic:
  assumes "world_ok C K w" "c \<in> C"
  shows "\<not> is_panic (finish_task sched c n w)"
proof -
  let ?v = "drop_task c n w"
  have ok: "world_ok C K ?v" by (rule drop_task_ok [OF assms(1)])
  have "\<not> is_panic (after_reply sched c r resp err ?v)" for r resp err
    using changeState_no_panic [OF ok assms(2)] ok_conn [OF ok assms(2)] by (auto simp: after_reply_def)
  then have "\<not> is_panic (task_finish sched c err t ?v)" for err t by (cases t) (auto simp: outcome_simps)
  then show ?thesis by (auto simp: finish_task_def split: option.splits)
qed

lemma end_stream_no_panic:
  assumes "world_ok C K w" "keyed C w" "c \<in> C"
  shows "\<not> is_panic (end_stream c sid err w)"
proof -
  let ?v = "upd_client c (\<lambda>cl. cl\<lparr>cl_handlingStream := (cl_handlingStream cl)(sid := None)\<rparr>) w"
  have "keyed C ?v" using assms(2) by (rule keyed_keep) (simp_all add: upd_client_def)
  from SendPacketDirect_fine [OF forget_stream_ok [OF assms(1)] this assms(3)] show ?thesis
    by (auto simp: end_stream_def outcome_simps)
qed

definition streams_return :: "'k app \<Rightarrow> bool" where
  "streams_return app \<longleftrightarrow> (\<forall>n r s w. \<exists>x e. fst (app_stream app n r s w) = Returns x e)"

text \<open>Stream handlers take no ciphers from clients that have them.\<close>

definition keys_stay :: "'k app \<Rightarrow> bool" where
  "keys_stay app \<longleftrightarrow> (\<forall>C n r s w. keyed C w \<longrightarrow> keyed C (snd (app_stream app n r s w)))"

lemma start_task_no_panic:
  assumes "world_ok C K w" "keyed C w" "c \<in> C" "app_keeps app" "keys_stay app" "app_returns app" "streams_return app"
  shows "\<not> is_panic (start_task app E c n w)"
proof -
  let ?v = "drop_task c n w"
  have ok: "world_ok C K ?v" by (rule drop_task_ok [OF assms(1)])
  have key: "keyed C ?v" using assms(2) by (rule keyed_keep) (simp_all add: drop_task_def upd_client_def)
  have "\<not> is_panic (task_start app E c t ?v)" if t: "task_ok (w_nbufs ?v) (stream_sig ?v) c t" for t
  proof (cases t)
    case (ExecRequest r)
    have "\<not> is_panic (respond app E c r ?v)"
    proof (cases "client_handler c (rq_Method r) ?v")
      case (Some h)
      obtain x e w' where "run_handler app E h r c ?v = (Returns x e, w')" using run_handler_returns [OF assms(6)] by blast
      with Some show ?thesis by (simp add: respond_def Let_def split: option.splits)
    qed (simp add: respond_def)
    with ExecRequest show ?thesis by (auto simp: outcome_simps split: prod.splits)
  next
    case (RunStream h r s)
    obtain answer w1 where a: "app_stream app h r s ?v = (answer, w1)" by fastforce
    obtain x e where x: "answer = Returns x e" using assms(7) a unfolding streams_return_def by (metis fst_conv)
    have "stream_sig ?v s = Some (sr_StreamId r, c)" using t RunStream by simp
    from app_keeps_runs(2) [OF assms(4) ok a this assms(3)] have "world_ok C K w1" .
    moreover have "keyed C w1" using assms(5) key a unfolding keys_stay_def by (metis snd_conv)
    ultimately have "\<not> is_panic (end_stream c (sr_StreamId r) e w1)" using assms(3) by (rule end_stream_no_panic)
    with RunStream a x show ?thesis by (simp add: outcome_simps)
  qed (auto simp: outcome_simps SendPacketDirect_fine [OF ok key assms(3)] split: prod.splits)
  with task_of_ok [OF assms(1,3)] show ?thesis by (auto simp: start_task_def outcome_simps)
qed

lemma on_pub_no_panic: "listeners_ok ls \<Longrightarrow> \<not> is_panic (on_pub pub ls)"
proof -
  have "(\<forall>l \<in> set ls. tl_callBack l \<noteq> None) \<Longrightarrow> \<not> is_panic (deliver sp pub ls)" for sp
    by (induction ls) (auto simp: outcome_simps)
  then show "listeners_ok ls \<Longrightarrow> \<not> is_panic (on_pub pub ls)" by (simp add: on_pub_def listeners_ok_def wf_listener_def)
qed


subsection \<open>Publications\<close>

text \<open>
  C7: A publication to any group of a reachable hub ends at the root group: from the root it
  goes to the root's center and members, from a bucket first there, under the bucket's id,
  and then to the bucket's own; any number of levels from two on gives the same, so the chain
  of parents never runs out.
\<close>

theorem hub_publications_end:
  assumes "hub_reach app E sched ho s" "app_uses sched app" and w: "w = sy_world s" and "g < w_ngroups w" and "2 \<le> n"
    and targets: "targets = (if g = w_hub_group w then group_targets g pkt w
      else group_targets (w_hub_group w) (prefixed (gr_id (w_groups w g)) pkt) w @ group_targets g pkt w)"
  shows "Group_PubTopic g pkt src w = publish_all targets src w \<and> group_pub n g pkt src w = publish_all targets src w"
proof -
  have ok: "world_ok (sy_clients s) (sy_conns s) w" using reach_ok [OF assms(1,2)] by (simp add: system_ok_def w)
  have root: "w_hub_group w < w_ngroups w" using ok by (simp add: world_ok_def tables_ok_def)
  have parent: "gr_parent (w_groups w h) = (if h = w_hub_group w then None else Some (w_hub_group w))" if "h < w_ngroups w" for h
    using world_ok_group [OF ok that] by (simp add: group_ok_def)
  have two: "group_pub (Suc (Suc m)) g pkt src w = publish_all targets src w" for m
  proof (cases "g = w_hub_group w")
    case True
    with parent [OF assms(4)] show ?thesis unfolding targets by (simp add: group_pub_root del: group_pub.simps)
  next
    case False
    with parent [OF assms(4)] parent [OF root] show ?thesis
      unfolding targets by (simp add: group_pub_child del: group_pub.simps)
  qed
  obtain m where m: "n = Suc (Suc m)" using assms(5) by (metis add_2_eq_Suc le_Suc_ex)
  have "Group_PubTopic g pkt src w = publish_all targets src w"
  proof (cases "w_ngroups w")
    case (Suc j)
    then show ?thesis unfolding Group_PubTopic_def by (simp only: two)
  qed (use root in simp)
  with two m show ?thesis by simp
qed

subsection \<open>Samples\<close>

text \<open>A first connection, of a server without options, whose client is logged in at once.\<close>

definition first_options :: client_options where
  "first_options = served_options default_hub (hub_opts [])"

definition first_state :: "unit hub_state" where
  "first_state = \<lparr>sy_world = served first_options ''u'' 3 5 (open_conn TcpKind ''h'' 5 idle_hub), sy_clients = {3}, sy_conns = {5},
     sy_addrs = Map.empty\<rparr>"

lemma first_client:
  "\<not> co_NeedLogin first_options" "co_Crypto first_options = None" "tcp_admitted (login_of []) i"
  by (simp_all add: first_options_def served_options_def hub_opts_def login_of_def NewServer_opts_def tcp_admitted_def)

lemma first_reach: "hub_reach app E sched default_hub first_state"
proof -
  let ?w = "open_conn TcpKind ''h'' 5 idle_hub" and ?s = "hub_start (\<lambda>y. NewCrypto ()) 0 :: unit hub_state"
  have find: "FindClient ''u'' ?w = None" by (simp add: open_conn_def FindClient_def) (simp add: idle_hub_def New_def sm_load_def)
  have l: "login_of [] = None" by (simp add: login_of_def hub_opts_def NewServer_opts_def)
  have "hub_tcp sched default_hub [] ''u'' 3 AuthTimeout 5 ?w = Done (served first_options ''u'' 3 5 ?w)"
    unfolding hub_tcp_def Let_def tcp_accept_cases login_of_def [symmetric]
    by (simp add: l tcp_admitted_def auth_data_def first_options_def [symmetric] serve_conn_fresh [OF find])
  then have tcp: "hub_tcp sched default_hub [] ''u'' 3 AuthTimeout 5 (open_conn TcpKind ''h'' 5 (sy_world ?s)) =
      Done (served first_options ''u'' 3 5 ?w)" by (simp add: hub_start_def idle_hub_def)
  have "hub_step app E sched default_hub ?s (?s\<lparr>sy_world := served first_options ''u'' 3 5 ?w, sy_conns := insert 5 (sy_conns ?s),
        sy_clients := (if tcp_admitted (login_of []) AuthTimeout then insert 3 (sy_clients ?s) else sy_clients ?s)\<rparr>)"
    by (rule hub_step.sys_tcp [OF _ _ tcp]) (simp_all add: hub_start_def)
  from reach_step [OF reach_start this] show ?thesis
    by (simp add: hub_start_def first_state_def first_client)
qed

lemma registered_fields [simp]:
  "cl_options (w_clients (registered c w) d) = cl_options (w_clients w d)"
  "cl_rxQueue (w_clients (registered c w) d) = cl_rxQueue (w_clients w d)"
  "cl_pending (w_clients (registered c w) d) = cl_pending (w_clients w d)"
  "cl_PubSub (w_clients (registered c w) d) = cl_PubSub (w_clients w d)"
  by (simp_all add: registered_def join_group_home AddClient_def hub_put_def Group_AddClient_def)

lemma greeted_fields [simp]:
  "cl_options (w_clients (greeted opts uuid c k w) c) = opts" "cl_rxQueue (w_clients (greeted opts uuid c k w) c) = []"
  "cl_pending (w_clients (greeted opts uuid c k w) c) = pending_start"
  by (simp_all add: greeted_def newClient_def Let_def set_client_def)

lemma registered_home: "cl_GroupId (w_clients w c) = None \<Longrightarrow> cl_Group (w_clients (registered c w) c) = Some (w_hub_group w)"
  by (simp add: registered_def join_group_home home_def AddClient_def hub_put_def Group_AddClient_def)

lemma first_parts:
  "cl_options (w_clients (sy_world first_state) 3) = first_options" "cl_state (w_clients (sy_world first_state) 3) = LOGINED"
  "cl_rxQueue (w_clients (sy_world first_state) 3) = []" "cl_pending (w_clients (sy_world first_state) 3) = pending_start"
  "cl_conn (w_clients (sy_world first_state) 3) = Some 5"
  "et_listeners (ic_OnMessage (w_conns (sy_world first_state) 5)) = [ServerReceive 5, ClientReceive 3]"
  "FindClient ''u'' (sy_world first_state) = Some 3"
  by (simp_all add: first_state_def greeted_in_def registered_home first_client logs_in_at_once_def)
    (simp add: open_conn_def AddEventListener_def newEventTarget_def)

lemma first_world_plain: "w_OnReceiveMessage (sy_world first_state) = False"
  by (simp add: first_state_def served_def wired_in_def greeted_in_def listened_def greeted_def registered_def join_group_home
    home_def AddClient_def hub_put_def Group_AddClient_def first_client logs_in_at_once_def newClient_def set_client_def
    upd_client_def upd_conn_def upd_group_def open_conn_def idle_hub_def New_def Let_def)

text \<open>The first client gets a packet.\<close>

lemma first_packet:
  assumes "Unmarshal bs = Inr p"
  obtains s b where "hub_reach (app :: unit app) E sched default_hub s" "sy_clients s = {3}" "sy_conns s = {5}"
    "cl_rxQueue (w_clients (sy_world s) 3) = [\<lparr>pk_RawData = b, pk_PacketType = TypeCode p, pk_PacketContent = p, pk_Client = 3\<rparr>]"
    "co_Crypto (cl_options (w_clients (sy_world s) 3)) = None" "cl_pending (w_clients (sy_world s) 3) = pending_start"
proof -
  let ?w = "sy_world first_state"
  obtain b w1 where b: "new_buf bs ?w = (b, w1)" by fastforce
  then have w1: "w_clients w1 = w_clients ?w" "w_conns w1 = w_conns ?w" "w_bufs w1 b = bs" "\<not> w_OnReceiveMessage w1"
    by (auto simp: new_buf_def first_world_plain)
  let ?pkt = "\<lparr>pk_RawData = b, pk_PacketType = TypeCode p, pk_PacketContent = p, pk_Client = 3\<rparr>"
  have "receiveMessage 3 b w1 = enqueue_packet 3 ?pkt w1"
    using assms by (simp add: receiveMessage_def decrypt_received_def w1 first_parts first_client)
  moreover obtain w2 where w2: "enqueue_packet 3 ?pkt w1 = Done w2" "cl_rxQueue (w_clients w2 3) = [?pkt]"
    "cl_options (w_clients w2 3) = first_options" "cl_pending (w_clients w2 3) = pending_start"
    by (simp add: enqueue_packet_def chan_send_def RxQueueLen_def w1 first_parts upd_client_def)
  ultimately have "conn_message 5 bs ?w = Done w2"
    using b by (simp add: conn_message_def RiseEvent_def w1 first_parts)
  then have "hub_step app E sched default_hub first_state (sy_to w2 first_state)" for app E sched
    by (intro hub_step.sys_message) (simp_all add: first_state_def)
  from reach_step [OF first_reach this] show thesis
    by (rule that) (simp_all add: sy_to_def first_state_def w2 first_client)
qed

lemma quiet_app_fine:
  "app_uses sched quiet_app" "keys_stay quiet_app" "app_returns quiet_app" "streams_return quiet_app"
  by (simp_all add: app_uses_def keys_stay_def app_returns_def streams_return_def quiet_app_def)

text \<open>An application whose request handlers publish.\<close>

definition publishing_app :: "'k app" where
  "publishing_app = \<lparr>app_request = \<lambda>n r c w. (Returns JNull None, case Publish c ''t'' None w of Done w' \<Rightarrow> w' | _ \<Rightarrow> w),
     app_stream = \<lambda>n r s w. (Returns () None, w)\<rparr>"

lemma publishing_app_uses: "app_uses sched publishing_app"
  by (auto simp: app_uses_def publishing_app_def split: outcome.splits intro: app_publish)

lemma heartbeat_arrives: "Unmarshal [49, 50, 64, 34, 34] = Inr (HeartbeatPacket [])"
  by code_simp

theorem hub_references_witness:
  "\<exists>s. hub_reach quiet_app one_key (\<lambda>c w. True) default_hub s \<and> 3 \<in> sy_clients s \<and>
     cl_conn (w_clients (sy_world s) 3) = Some 5 \<and> FindClient ''u'' (sy_world s) = Some 3 \<and> registry_ok (sy_world s)"
  using hub_references [OF first_reach quiet_app_fine(1) refl] first_reach first_parts(5,6,7)
  by (intro exI [of _ first_state]) (auto simp: first_state_def)



theorem hub_publications_end_witness:
  "\<exists>s. hub_reach quiet_app one_key (\<lambda>c w. True) default_hub s \<and>
     Group_PubTopic (w_hub_group (sy_world s)) sample_publish 3 (sy_world s) =
       publish_all (group_targets (w_hub_group (sy_world s)) sample_publish (sy_world s)) 3 (sy_world s)"
proof -
  have "registry_ok (sy_world first_state)"
    using reach_ok [OF first_reach quiet_app_fine(1)] world_ok_registry by (auto simp: system_ok_def)
  then have "w_hub_group (sy_world first_state) < w_ngroups (sy_world first_state)" by (simp add: registry_ok_def)
  from hub_publications_end [OF first_reach quiet_app_fine(1) refl this le_refl refl] show ?thesis
    using first_reach by (intro exI [of _ first_state]) auto
qed

end
