(* ===== verification/Server_Listening.thy ===== *)
theory Server_Listening
  imports Websocket_Conn Udp_Transport Hub_Server
begin

text \<open>
  The servers as objects (tcp_server.go, websocket_server.go, udp_server.go): what their
  constructors set, what the WebSocket server gives to a connection it accepts, and
  what ListenAndServe does with the results of the listen calls, which are a parameter.
\<close>

subsection \<open>Constructors\<close>

text \<open>Durations are nanoseconds. The callbacks are flags: whether they are set.\<close>

record tcp_server =
  ts_Addr :: string
  ts_clients :: "nat set"
  ts_Opts :: server_options
  ts_OnReceiveMessage :: bool
  ts_OnError :: bool
  ts_OnClientConnect :: bool
  ts_OnClientDisconnect :: bool

definition NewTcpServer :: "string \<Rightarrow> server_option list \<Rightarrow> tcp_server" where
  "NewTcpServer address args =
     \<lparr>ts_Addr = address, ts_clients = {}, ts_Opts = NewServer_opts args, ts_OnReceiveMessage = False, ts_OnError = False,
      ts_OnClientConnect = False, ts_OnClientDisconnect = False\<rparr>"

record http_server =
  hp_Addr :: string
  hp_TLSConfig :: bool

record websocket_server =
  wss_Addr :: string
  wss_Opts :: server_options
  wss_clients :: "nat set"
  wss_HttpServer :: http_server
  wss_PingInterval :: nat
  wss_PongWait :: nat
  wss_WriteWait :: nat
  wss_OnReceiveMessage :: bool
  wss_OnError :: bool
  wss_OnClientConnect :: bool
  wss_OnClientDisconnect :: bool
  wss_EnableLog :: bool

definition Second :: nat where "Second = 1000000000"

definition NewWebsocketServer :: "string \<Rightarrow> server_option list \<Rightarrow> websocket_server" where
  "NewWebsocketServer addr args =
     (let opts = NewServer_opts args in
      \<lparr>wss_Addr = addr, wss_Opts = opts, wss_clients = {},
       wss_HttpServer = \<lparr>hp_Addr = addr, hp_TLSConfig = so_Tls opts\<rparr>,
       wss_PingInterval = (15 * Second * 8) div 10, wss_PongWait = 15 * Second, wss_WriteWait = 0,
       wss_OnReceiveMessage = False, wss_OnError = False, wss_OnClientConnect = False, wss_OnClientDisconnect = False,
       wss_EnableLog = False\<rparr>)"

record udp_server =
  us_OnReceiveMessage :: bool
  us_address :: string

definition NewUdpServer :: "string \<Rightarrow> udp_server" where
  "NewUdpServer address = \<lparr>us_OnReceiveMessage = False, us_address = address\<rparr>"

subsection \<open>An upgraded connection\<close>

text \<open>The fields accept sets on the connection it made, before the listeners are added.\<close>

definition upgraded_conn :: "websocket_server \<Rightarrow> bytes \<Rightarrow> string \<Rightarrow> string \<Rightarrow> ('f, 'v) websocket_conn" where
  "upgraded_conn ws loginData uuid addr =
     (NewWebsocketConn uuid addr)\<lparr>ws_LoginData := loginData, ws_PingInterval := wss_PingInterval ws,
        ws_PongWait := wss_PongWait ws, ws_WriteWait := wss_WriteWait ws, ws_EnableLog := wss_EnableLog ws\<rparr>"

subsection \<open>Listening\<close>

text \<open>Which method of http.Server the WebSocket server calls; it returns the error of that.\<close>

datatype http_listen = HttpListenAndServeTLS string string | HttpListenAndServe

definition WebsocketServer_ListenAndServe :: "(http_server \<Rightarrow> http_listen \<Rightarrow> string option) \<Rightarrow> websocket_server \<Rightarrow> string option" where
  "WebsocketServer_ListenAndServe serve ws =
     (if so_Tls (wss_Opts ws) then serve (wss_HttpServer ws) (HttpListenAndServeTLS [] [])
      else serve (wss_HttpServer ws) HttpListenAndServe)"

text \<open>The UDP server panics where the TCP server returns the error.\<close>

fun start_udp_listeners :: "udp_counters \<Rightarrow> string option list \<Rightarrow> udp_listener list outcome" where
  "start_udp_listeners cnt [] = Done []"
| "start_udp_listeners cnt (Some err # ls) = Panic err"
| "start_udp_listeners cnt (None # ls) =
     and_then (start_udp_listeners cnt ls) (\<lambda>lis. Done (newUdpListener cnt # lis))"

definition UdpServer_ListenAndServe :: "udp_counters \<Rightarrow> nat \<Rightarrow> (nat \<Rightarrow> string option) \<Rightarrow> udp_listener list outcome" where
  "UdpServer_ListenAndServe cnt listenerCount listen = start_udp_listeners cnt (map listen [0..<listenerCount])"

text \<open>Both stop at the first listen call that fails.\<close>

lemma listeners_up_to:
  assumes "\<And>i. i < m \<Longrightarrow> listen i = None"
  shows "start_listeners (map listen [0..<m] @ ls) = (case start_listeners ls of (err, n) \<Rightarrow> (err, m + n))"
    and "start_udp_listeners cnt (map listen [0..<m] @ ls) =
      and_then (start_udp_listeners cnt ls) (\<lambda>lis. Done (replicate m (newUdpListener cnt) @ lis))"
proof -
  have tcp: "start_listeners (replicate m None @ ls) = (case start_listeners ls of (err, n) \<Rightarrow> (err, m + n))" for m
    by (induction m) (auto split: prod.splits)
  have udp: "start_udp_listeners cnt (replicate m None @ ls) =
      and_then (start_udp_listeners cnt ls) (\<lambda>lis. Done (replicate m (newUdpListener cnt) @ lis))" for m
  proof (induction m)
    case (Suc m)
    then show ?case by (cases "start_udp_listeners cnt ls") simp_all
  qed (cases "start_udp_listeners cnt ls"; simp)
  have "map listen [0..<m] = replicate m None"
    using assms by (simp add: map_replicate_trivial [symmetric] list_eq_iff_nth_eq)
  then show "start_listeners (map listen [0..<m] @ ls) = (case start_listeners ls of (err, n) \<Rightarrow> (err, m + n))"
    "start_udp_listeners cnt (map listen [0..<m] @ ls) =
      and_then (start_udp_listeners cnt ls) (\<lambda>lis. Done (replicate m (newUdpListener cnt) @ lis))"
    by (simp_all only: tcp udp)
qed

text \<open>
  C37: When the listen calls succeed, ListenAndServe of the TCP and of the UDP server starts as
  many listeners as it was told to. At the first failing call the TCP server returns its error
  and leaves the listeners before it serving; the UDP server panics with it.
\<close>

theorem listen_and_serve:
  assumes "m \<le> n" "\<And>i. i < m \<Longrightarrow> listen i = None" "m < n \<Longrightarrow> listen m = Some err"
  shows "TcpServer_ListenAndServe n listen = (if m = n then None else Some err, m) \<and>
    UdpServer_ListenAndServe cnt n listen = (if m = n then Done (replicate n (newUdpListener cnt)) else Panic err)"
proof (cases "m = n")
  case True
  with listeners_up_to [where m = m and listen = listen and ls = "[]", OF assms(2)] show ?thesis
    by (simp add: TcpServer_ListenAndServe_def UdpServer_ListenAndServe_def)
next
  case False
  with assms(1) have "m < n" by simp
  then have "[0..<n] = [0..<m] @ m # [Suc m..<n]"
    using upt_add_eq_append [of 0 m "n - m"] by (simp add: upt_conv_Cons)
  then have "map listen [0..<n] = map listen [0..<m] @ Some err # map listen [Suc m..<n]"
    using False assms(1,3) by simp
  then show ?thesis
    using False listeners_up_to [where m = m and listen = listen, OF assms(2)]
    by (simp add: TcpServer_ListenAndServe_def UdpServer_ListenAndServe_def)
qed

definition no_counts :: udp_counters where
  "no_counts = \<lparr>UdpReadPkts = 0, UdpReadByte = 0, UdpWritePkts = 0, UdpWriteByte = 0, UdpWriteQueue = 0\<rparr>"

definition second_fails :: "nat \<Rightarrow> string option" where
  "second_fails i = (if i = 1 then Some ''in use'' else None)"

theorem listen_and_serve_witness:
  "TcpServer_ListenAndServe 3 second_fails = (Some ''in use'', 1) \<and>
   UdpServer_ListenAndServe no_counts 3 second_fails = Panic ''in use''"
  using listen_and_serve [of 1 3 second_fails "''in use''" no_counts] by (simp add: second_fails_def)

end
