(* ===== verification/Tls_Config.thy ===== *)
theory Tls_Config
  imports Nethub_Prelude
begin

text \<open>
  tls.go: NewTlsConfig reads a certificate, a key, which may be encrypted, and a CA file, and
  makes a configuration of crypto/tls. The packages os, pem, x509 and tls are parameters: a
  record of the functions the code calls, with the types it passes between them.
\<close>

subsection \<open>The libraries\<close>

text \<open>
  ReadFile, Decode with what it leaves of its input, IsEncryptedPEMBlock, DecryptPEMBlock,
  ParsePKCS1PrivateKey, EncodeToMemory of the RSA block of a key, X509KeyPair, and
  AppendCertsFromPEM on a new pool, which gives the pool when it found a certificate.
\<close>

record ('blk, 'key, 'cert, 'pool) tls_lib =
  ReadFile :: "string \<Rightarrow> string + bytes"
  pem_Decode :: "bytes \<Rightarrow> 'blk option \<times> bytes"
  IsEncryptedPEMBlock :: "'blk \<Rightarrow> bool"
  DecryptPEMBlock :: "'blk \<Rightarrow> bytes \<Rightarrow> string + bytes"
  ParsePKCS1PrivateKey :: "bytes \<Rightarrow> string + 'key"
  EncodePKCS1 :: "'key \<Rightarrow> bytes"
  X509KeyPair :: "bytes \<Rightarrow> bytes \<Rightarrow> string + 'cert"
  AppendCertsFromPEM :: "bytes \<Rightarrow> 'pool option"

subsection \<open>Options\<close>

record tls_options =
  to_caFile :: string
  to_password :: string

type_synonym tls_option = "tls_options \<Rightarrow> tls_options"

definition WithCaFile :: "string \<Rightarrow> tls_option" where
  "WithCaFile caFile opts = opts\<lparr>to_caFile := caFile\<rparr>"

definition WithPassword :: "string \<Rightarrow> tls_option" where
  "WithPassword password opts = opts\<lparr>to_password := password\<rparr>"

definition tls_opts :: "tls_option list \<Rightarrow> tls_options" where
  "tls_opts opt = fold (\<lambda>o1 opts. o1 opts) opt \<lparr>to_caFile = [], to_password = []\<rparr>"

subsection \<open>The configuration\<close>

datatype client_auth = NoClientCert | RequireAndVerifyClientCert

record ('cert, 'pool) tls_config =
  tc_Certificates :: "'cert list"
  tc_CipherSuites :: "16 word list"
  tc_Time :: nat
  tc_ClientCAs :: "'pool option"
  tc_ClientAuth :: client_auth

definition TLS_ECDHE_RSA_WITH_AES_128_GCM_SHA256 :: "16 word" where
  "TLS_ECDHE_RSA_WITH_AES_128_GCM_SHA256 = 0xc02f"

definition TLS_ECDHE_RSA_WITH_AES_256_GCM_SHA384 :: "16 word" where
  "TLS_ECDHE_RSA_WITH_AES_256_GCM_SHA384 = 0xc030"

text \<open>An error in a sum, in the sequence of the early returns.\<close>

definition or_return :: "string + 'a \<Rightarrow> ('a \<Rightarrow> (string + 'b) outcome) \<Rightarrow> (string + 'b) outcome" where
  "or_return r f = (case r of Inl e \<Rightarrow> Done (Inl e) | Inr x \<Rightarrow> f x)"

text \<open>The bytes of the key, decrypted if need be. Looking into a nil block panics.\<close>

definition key_bytes :: "('blk, 'key, 'cert, 'pool) tls_lib \<Rightarrow> string \<Rightarrow> bytes \<Rightarrow> (string + bytes) outcome" where
  "key_bytes L password keyByte =
     (case pem_Decode L keyByte of
        (keyPem, rest) \<Rightarrow>
          if rest \<noteq> [] then Done (Inl ''Decode key failed!'')
          else
            (case keyPem of
               None \<Rightarrow> Panic ''nil pointer dereference''
             | Some blk \<Rightarrow>
                 if IsEncryptedPEMBlock L blk
                 then
                   (if password = [] then Done (Inl ''keyFile need passWord param'')
                    else or_return (DecryptPEMBlock L blk (bytes_of_string password))
                      (\<lambda>keyDePemByte. or_return (ParsePKCS1PrivateKey L keyDePemByte)
                        (\<lambda>key. Done (Inr (EncodePKCS1 L key)))))
                 else Done (Inr keyByte)))"

text \<open>The CA file. log.Fatalf ends the process, as a panic does.\<close>

definition with_ca :: "('blk, 'key, 'cert, 'pool) tls_lib \<Rightarrow> string \<Rightarrow> ('cert, 'pool) tls_config
    \<Rightarrow> (string + ('cert, 'pool) tls_config) outcome" where
  "with_ca L caFile config =
     (if caFile = [] then Done (Inr config)
      else or_return (ReadFile L caFile)
        (\<lambda>caByte. case AppendCertsFromPEM L caByte of
           None \<Rightarrow> Panic ''Can't parse CA certificate''
         | Some certPool \<Rightarrow>
             Done (Inr (config\<lparr>tc_ClientCAs := Some certPool, tc_ClientAuth := RequireAndVerifyClientCert\<rparr>))))"

definition NewTlsConfig :: "('blk, 'key, 'cert, 'pool) tls_lib \<Rightarrow> nat \<Rightarrow> string \<Rightarrow> string \<Rightarrow> tls_option list
    \<Rightarrow> (string + ('cert, 'pool) tls_config) outcome" where
  "NewTlsConfig L now certFile keyFile opt =
     (let opts = tls_opts opt in
      or_return (ReadFile L certFile) (\<lambda>certByte.
      or_return (ReadFile L keyFile) (\<lambda>keyByte.
      and_then (key_bytes L (to_password opts) keyByte) (\<lambda>r.
      or_return r (\<lambda>keyByte'.
      or_return (X509KeyPair L certByte keyByte') (\<lambda>cert.
        with_ca L (to_caFile opts)
          \<lparr>tc_Certificates = [cert],
           tc_CipherSuites = [TLS_ECDHE_RSA_WITH_AES_128_GCM_SHA256, TLS_ECDHE_RSA_WITH_AES_256_GCM_SHA384],
           tc_Time = now, tc_ClientCAs = None, tc_ClientAuth = NoClientCert\<rparr>))))))"

subsection \<open>Properties\<close>

lemma or_return_Done: "or_return r f = Done (Inr y) \<longleftrightarrow> (\<exists>x. r = Inr x \<and> f x = Done (Inr y))"
  by (cases r) (auto simp: or_return_def)

lemma or_return_panics: "is_panic (or_return r f) \<longleftrightarrow> (\<exists>x. r = Inr x \<and> is_panic (f x))"
  by (cases r) (auto simp: or_return_def)

lemma key_bytes_Done:
  "key_bytes L password b = Done (Inr k) \<longleftrightarrow>
     (\<exists>blk. pem_Decode L b = (Some blk, []) \<and>
        (if IsEncryptedPEMBlock L blk
         then password \<noteq> [] \<and> (\<exists>d key. DecryptPEMBlock L blk (bytes_of_string password) = Inr d \<and>
           ParsePKCS1PrivateKey L d = Inr key \<and> k = EncodePKCS1 L key)
         else k = b))"
  by (auto simp: key_bytes_def or_return_Done split: prod.splits option.splits)


text \<open>
  C39: NewTlsConfig ends the process instead of returning an error in two cases: a CA file
  without a certificate, and a key file in which Decode finds no block and of which it leaves
  nothing, as it does of an empty file.
\<close>

theorem tls_config_ends_process:
  "is_panic (NewTlsConfig L now certFile keyFile opt) \<longleftrightarrow>
    (\<exists>certByte keyByte. ReadFile L certFile = Inr certByte \<and> ReadFile L keyFile = Inr keyByte \<and>
      (pem_Decode L keyByte = (None, []) \<or>
       (\<exists>k cert caByte. key_bytes L (to_password (tls_opts opt)) keyByte = Done (Inr k) \<and> X509KeyPair L certByte k = Inr cert \<and>
          to_caFile (tls_opts opt) \<noteq> [] \<and> ReadFile L (to_caFile (tls_opts opt)) = Inr caByte \<and> AppendCertsFromPEM L caByte = None)))"
proof -
  have key: "is_panic (key_bytes L p b) \<longleftrightarrow> pem_Decode L b = (None, [])" for p b
    by (auto simp: key_bytes_def or_return_panics split: prod.splits option.splits)
  have ca: "is_panic (with_ca L f c) \<longleftrightarrow> f \<noteq> [] \<and> (\<exists>b. ReadFile L f = Inr b \<and> AppendCertsFromPEM L b = None)" for f c
    by (auto simp: with_ca_def or_return_panics split: option.splits)
  show ?thesis
    unfolding NewTlsConfig_def Let_def or_return_panics is_panic_and_then key ca by auto
qed

end
